(* ===== verification/Prelude.thy ===== *)
theory Prelude
  imports Main "HOL-Library.Word" "HOL-Library.Multiset"
begin

text \<open>
  Shared vocabulary of the development.

  Go's \<open>x, err := f(); if err != nil { ... }\<close> and Ada's exceptions become one type of
  action: a state transformer whose run may fail with an error value and, where a loop of the
  source has no bound of its own, may also not return (\<^term>\<open>None\<close>).  \<open>io_try\<close> is the Go
  idiom itself: run a call, hand the error to one continuation and the result to the other.

  \<open>io_wp\<close> is the weakest precondition of such an action (total correctness: the action
  returns), \<open>io_wlp\<close> the liberal one (whatever it returns is right).  The rules of the
  collection \<open>io_rules\<close> compute them through the combinators, so that the proofs about
  a handler follow its text.
\<close>

named_theorems io_rules "weakest preconditions of the action combinators"
named_theorems io_defs "definitions of primitive actions, unfolded by evaluation"

section \<open>Actions\<close>

type_synonym bytes = string
type_synonym int64 = "64 word"
type_synonym int32 = "32 word"

type_synonym ('s, 'e, 'a) io = "'s \<Rightarrow> (('e + 'a) \<times> 's) option"

definition io_return :: "'a \<Rightarrow> ('s, 'e, 'a) io" where
  [io_defs]: "io_return x = (\<lambda>s. Some (Inr x, s))"

definition io_throw :: "'e \<Rightarrow> ('s, 'e, 'a) io" where
  [io_defs]: "io_throw e = (\<lambda>s. Some (Inl e, s))"

definition io_try ::
  "('s, 'e, 'a) io \<Rightarrow> ('e \<Rightarrow> ('s, 'f, 'b) io) \<Rightarrow> ('a \<Rightarrow> ('s, 'f, 'b) io) \<Rightarrow> ('s, 'f, 'b) io" where
  [io_defs]: "io_try m h k = (\<lambda>s. case m s of
       None \<Rightarrow> None
     | Some (r, s') \<Rightarrow> (case r of Inl e \<Rightarrow> h e s' | Inr x \<Rightarrow> k x s'))"

text \<open>Sequencing with the error passed on, reading the state, and updating it.\<close>

definition io_bind :: "('s, 'e, 'a) io \<Rightarrow> ('a \<Rightarrow> ('s, 'e, 'b) io) \<Rightarrow> ('s, 'e, 'b) io" where
  [io_defs]: "io_bind m k = io_try m io_throw k"

definition io_gets :: "('s \<Rightarrow> 'a) \<Rightarrow> ('s, 'e, 'a) io" where
  [io_defs]: "io_gets f = (\<lambda>s. Some (Inr (f s), s))"

definition io_modify :: "('s \<Rightarrow> 's) \<Rightarrow> ('s, 'e, unit) io" where
  [io_defs]: "io_modify f = (\<lambda>s. Some (Inr (), f s))"

definition io_when :: "bool \<Rightarrow> ('s, 'e, unit) io \<Rightarrow> ('s, 'e, unit) io" where
  [io_defs]: "io_when b m = (if b then m else io_return ())"

text \<open>A \<open>for _, x := range xs\<close> loop whose body returns early on an error.\<close>

primrec for_each :: "('x \<Rightarrow> ('s, 'e, unit) io) \<Rightarrow> 'x list \<Rightarrow> ('s, 'e, unit) io" where
  "for_each f [] = io_return ()"
| "for_each f (x # xs) = io_try (f x) io_throw (\<lambda>_. for_each f xs)"

section \<open>Weakest preconditions\<close>

definition io_wp ::
  "('s, 'e, 'a) io \<Rightarrow> ('a \<Rightarrow> 's \<Rightarrow> bool) \<Rightarrow> ('e \<Rightarrow> 's \<Rightarrow> bool) \<Rightarrow> 's \<Rightarrow> bool" where
  "io_wp m Q E s = (case m s of
       None \<Rightarrow> False
     | Some (r, s') \<Rightarrow> (case r of Inl e \<Rightarrow> E e s' | Inr x \<Rightarrow> Q x s'))"

definition io_wlp ::
  "('s, 'e, 'a) io \<Rightarrow> ('a \<Rightarrow> 's \<Rightarrow> bool) \<Rightarrow> ('e \<Rightarrow> 's \<Rightarrow> bool) \<Rightarrow> 's \<Rightarrow> bool" where
  "io_wlp m Q E s = (case m s of
       None \<Rightarrow> True
     | Some (r, s') \<Rightarrow> (case r of Inl e \<Rightarrow> E e s' | Inr x \<Rightarrow> Q x s'))"

lemma io_wp_return [io_rules]: "io_wp (io_return x) Q E s = Q x s"
  by (simp add: io_wp_def io_return_def)

lemma io_wp_throw [io_rules]: "io_wp (io_throw e) Q E s = E e s"
  by (simp add: io_wp_def io_throw_def)

lemma io_wp_try [io_rules]:
  "io_wp (io_try m h k) Q E s = io_wp m (\<lambda>x. io_wp (k x) Q E) (\<lambda>e. io_wp (h e) Q E) s"
  by (simp add: io_wp_def io_try_def split: option.split sum.split prod.split)

lemma io_wlp_return [io_rules]: "io_wlp (io_return x) Q E s = Q x s"
  by (simp add: io_wlp_def io_return_def)

lemma io_wlp_throw [io_rules]: "io_wlp (io_throw e) Q E s = E e s"
  by (simp add: io_wlp_def io_throw_def)

lemma io_wlp_try [io_rules]:
  "io_wlp (io_try m h k) Q E s = io_wlp m (\<lambda>x. io_wlp (k x) Q E) (\<lambda>e. io_wlp (h e) Q E) s"
  by (simp add: io_wlp_def io_try_def split: option.split sum.split prod.split)

lemma io_wp_bind [io_rules]:
  "io_wp (io_bind m k) Q E s = io_wp m (\<lambda>x. io_wp (k x) Q E) E s"
  by (simp add: io_bind_def io_throw_def io_try_def io_wp_def split: option.split sum.split prod.split)

lemma io_wlp_bind [io_rules]:
  "io_wlp (io_bind m k) Q E s = io_wlp m (\<lambda>x. io_wlp (k x) Q E) E s"
  by (simp add: io_bind_def io_throw_def io_try_def io_wlp_def split: option.split sum.split prod.split)

lemma io_wp_gets [io_rules]: "io_wp (io_gets f) Q E s = Q (f s) s"
  by (simp add: io_wp_def io_gets_def)

lemma io_wlp_gets [io_rules]: "io_wlp (io_gets f) Q E s = Q (f s) s"
  by (simp add: io_wlp_def io_gets_def)

lemma io_wp_modify [io_rules]: "io_wp (io_modify f) Q E s = Q () (f s)"
  by (simp add: io_wp_def io_modify_def)

lemma io_wlp_modify [io_rules]: "io_wlp (io_modify f) Q E s = Q () (f s)"
  by (simp add: io_wlp_def io_modify_def)

lemma io_wp_when [io_rules]: "io_wp (io_when b m) Q E s = (if b then io_wp m Q E s else Q () s)"
  by (simp add: io_when_def io_wp_return)

lemma io_wlp_when [io_rules]: "io_wlp (io_when b m) Q E s = (if b then io_wlp m Q E s else Q () s)"
  by (simp add: io_when_def io_wlp_return)

lemma io_wp_mono:
  assumes "io_wp m Q E s"
    and "\<And>x t. Q x t \<Longrightarrow> Q' x t" and "\<And>e t. E e t \<Longrightarrow> E' e t"
  shows "io_wp m Q' E' s"
  using assms by (auto simp: io_wp_def split: option.splits sum.splits)

lemma io_wlp_mono:
  assumes "io_wlp m Q E s"
    and "\<And>x t. Q x t \<Longrightarrow> Q' x t" and "\<And>e t. E e t \<Longrightarrow> E' e t"
  shows "io_wlp m Q' E' s"
  using assms by (auto simp: io_wlp_def split: option.splits sum.splits)

lemma io_wp_conj:
  assumes "io_wp m Q E s" and "io_wlp m Q' E' s"
  shows "io_wp m (\<lambda>x t. Q x t \<and> Q' x t) (\<lambda>e t. E e t \<and> E' e t) s"
  using assms by (auto simp: io_wp_def io_wlp_def split: option.splits sum.splits)

lemma io_wp_imp_wlp: "io_wp m Q E s \<Longrightarrow> io_wlp m Q E s"
  by (auto simp: io_wp_def io_wlp_def split: option.splits)

text \<open>A call that leaves the part \<open>V\<close> of the state alone, before continuations that rely on it.\<close>

lemma io_wp_try_keep:
  assumes "io_wp m (\<lambda>_ t. V t = V u) (\<lambda>_ t. V t = V u) u" and "V u = c"
    and "\<And>e t. V t = c \<Longrightarrow> io_wp (h e) Q E t" and "\<And>x t. V t = c \<Longrightarrow> io_wp (k x) Q E t"
  shows "io_wp (io_try m h k) Q E u"
  unfolding io_wp_try using assms by (auto elim!: io_wp_mono)

text \<open>Reading a weakest precondition at a known run.\<close>

lemma io_wlp_result:
  "io_wlp m Q E s \<Longrightarrow> m s = Some (Inr x, t) \<Longrightarrow> Q x t"
  by (simp add: io_wlp_def)

lemma io_wlp_error:
  "io_wlp m Q E s \<Longrightarrow> m s = Some (Inl e, t) \<Longrightarrow> E e t"
  by (simp add: io_wlp_def)

lemma io_wp_returns:
  "io_wp m Q E s \<Longrightarrow> \<exists>r t. m s = Some (r, t)"
  by (auto simp: io_wp_def split: option.splits)

text \<open>Runs of the combinators, taken apart.\<close>

lemma io_try_Some:
  "io_try m h k s = Some y \<longleftrightarrow>
     (\<exists>e s'. m s = Some (Inl e, s') \<and> h e s' = Some y) \<or>
     (\<exists>a s'. m s = Some (Inr a, s') \<and> k a s' = Some y)"
  by (auto simp: io_try_def split: option.splits sum.splits prod.splits)

lemma io_throw_Inr [simp]: "io_throw e s \<noteq> Some (Inr b, t)"
  by (simp add: io_throw_def)

lemma io_try_Inr:
  "(\<And>e s. h e s \<noteq> Some (Inr b, t)) \<Longrightarrow> io_try m h k s = Some (Inr b, t) \<longleftrightarrow>
     (\<exists>a s'. m s = Some (Inr a, s') \<and> k a s' = Some (Inr b, t))"
  by (auto simp: io_try_Some)

lemma io_bind_Inr:
  "io_bind m k s = Some (Inr b, t) \<longleftrightarrow> (\<exists>a s'. m s = Some (Inr a, s') \<and> k a s' = Some (Inr b, t))"
  by (auto simp: io_bind_def io_try_Some io_throw_def)

lemma io_bind_None:
  "io_bind m k s = None \<longleftrightarrow> m s = None \<or> (\<exists>a s'. m s = Some (Inr a, s') \<and> k a s' = None)"
  by (auto simp: io_bind_def io_try_def io_throw_def split: option.splits sum.splits)

text \<open>
  The loop rule: an invariant over the processed prefix that every iteration extends, and a
  condition on errors that every failing iteration establishes.
\<close>

lemma io_wp_for_each:
  assumes "I [] s"
    and step: "\<And>ys x zs t. xs = ys @ x # zs \<Longrightarrow> I ys t \<Longrightarrow>
      io_wp (f x) (\<lambda>_. I (ys @ [x])) E t"
  shows "io_wp (for_each f xs) (\<lambda>_. I xs) E s"
proof -
  have "io_wp (for_each f zs) (\<lambda>_. I xs) E t" if "xs = ys @ zs" "I ys t" for ys zs t
    using that
  proof (induction zs arbitrary: ys t)
    case Nil
    then show ?case by (simp add: io_rules)
  next
    case (Cons z zs)
    have "io_wp (f z) (\<lambda>_. I (ys @ [z])) E t"
      using Cons.prems by (intro step)
    moreover have "io_wp (for_each f zs) (\<lambda>_. I xs) E u" if "I (ys @ [z]) u" for u
      using Cons.prems that by (intro Cons.IH [of "ys @ [z]"]) simp_all
    ultimately show ?case
      by (auto simp: io_rules elim!: io_wp_mono)
  qed
  from this [of "[]" xs s] assms(1) show ?thesis by simp
qed

lemma for_each_append:
  "for_each f (xs @ ys) = io_try (for_each f xs) io_throw (\<lambda>_. for_each f ys)"
  by (induction xs)
    (auto simp: io_try_def io_return_def io_throw_def fun_eq_iff
      split: option.split sum.split prod.split)

section \<open>Partial maps\<close>

text \<open>A Go map read: a missing key reads as the zero value, here the empty string.\<close>

definition map_get :: "(string \<rightharpoonup> string) \<Rightarrow> string \<Rightarrow> string" where
  "map_get m k = (case m k of None \<Rightarrow> [] | Some v \<Rightarrow> v)"

lemma map_get_simps [simp]:
  "map_get Map.empty k = []"
  "map_get (m(k \<mapsto> v)) k = v"
  "k \<noteq> k' \<Longrightarrow> map_get (m(k' \<mapsto> v)) k = map_get m k"
  by (simp_all add: map_get_def)

lemma map_add_restrict_dom: "dom m = A \<Longrightarrow> n ++ (m |` A) = n ++ m"
  by (rule ext) (auto simp: map_add_def restrict_map_def split: option.splits)

lemma map_add_restrict_insert:
  "m k = Some v \<Longrightarrow> (n ++ (m |` A))(k \<mapsto> v) = n ++ (m |` insert k A)"
  by (rule ext) (auto simp: map_add_def restrict_map_def split: option.splits)

lemma map_of_rev_distinct: "distinct (map fst xs) \<Longrightarrow> map_of (rev xs) = map_of xs"
proof (induction xs)
  case (Cons x xs)
  then have "fst x \<notin> dom (map_of xs)" by (simp add: dom_map_of_conv_image_fst)
  with Cons show ?case by (simp add: map_add_upd_left)
qed simp

section \<open>Filtering with a partial function\<close>

lemma set_map_filter_Some: "set (List.map_filter f xs) = {y. \<exists>x\<in>set xs. f x = Some y}"
  by (induction xs) (auto simp: List.map_filter_simps split: option.split)

lemma distinct_map_filter:
  "distinct xs \<Longrightarrow> (\<And>x y k. f x = Some k \<Longrightarrow> f y = Some k \<Longrightarrow> x = y) \<Longrightarrow> distinct (List.map_filter f xs)"
proof (induction xs)
  case (Cons x xs)
  have "k \<notin> set (List.map_filter f xs)" if "f x = Some k" for k
    using that Cons.prems by (auto simp: set_map_filter_Some)
  with Cons show ?case by (auto simp: List.map_filter_simps split: option.split)
qed (simp add: List.map_filter_simps)

lemma map_sum_eq_iff:
  "map_sum f g x = Inl y \<longleftrightarrow> (\<exists>z. x = Inl z \<and> y = f z)"
  "map_sum f g x = Inr w \<longleftrightarrow> (\<exists>z. x = Inr z \<and> w = g z)"
  by (cases x; auto)+

end
