(* ===== verification/Go_Strings.thy ===== *)
theory Go_Strings
  imports Prelude "HOL-Library.Char_ord" "HOL-Library.List_Lexorder" "HOL-Library.Sublist"
begin

text \<open>
  The part of Go's standard library on strings that the sources use.  A Go string is a
  sequence of bytes, here a \<^typ>\<open>string\<close> of 8-bit characters; \<open>len\<close> is \<^const>\<open>length\<close> and
  \<open>s[:n]\<close> within bounds is \<^const>\<open>take\<close>.

  White space is Go's \<open>unicode.IsSpace\<close>: the UTF-8 encodings of the white-space code points
  are listed in \<open>space_codes\<close>.  UTF-8 is self-synchronising, so a code point is white space
  exactly when its encoding is a prefix (a suffix, from the right) of the bytes at hand.

  \<open>ToLower\<close> maps ASCII strings bytewise; on a string with a non-ASCII byte Go consults its
  Unicode tables, which are the parameter \<open>ul\<close>.
\<close>

section \<open>Prefixes and suffixes\<close>

definition HasPrefix :: "string \<Rightarrow> string \<Rightarrow> bool" where
  "HasPrefix s p = (take (length p) s = p)"

definition TrimPrefix :: "string \<Rightarrow> string \<Rightarrow> string" where
  "TrimPrefix s p = (if HasPrefix s p then drop (length p) s else s)"

definition HasSuffix :: "string \<Rightarrow> string \<Rightarrow> bool" where
  "HasSuffix s p = HasPrefix (rev s) (rev p)"

definition TrimSuffix :: "string \<Rightarrow> string \<Rightarrow> string" where
  "TrimSuffix s p = (if HasSuffix s p then take (length s - length p) s else s)"

lemma HasPrefix_append [simp]: "HasPrefix (p @ s) p"
  by (simp add: HasPrefix_def)

lemma HasPrefix_Nil [simp]: "HasPrefix s []"
  by (simp add: HasPrefix_def)

lemma HasPrefix_Cons [simp]:
  "HasPrefix [] (c # p) = False"
  "HasPrefix (d # s) (c # p) = (d = c \<and> HasPrefix s p)"
  by (auto simp: HasPrefix_def)

lemma HasPrefix_conv: "HasPrefix s p = (\<exists>t. s = p @ t)"
  by (metis HasPrefix_append HasPrefix_def append_take_drop_id)

lemma TrimPrefix_append [simp]: "TrimPrefix (p @ s) p = s"
  by (simp add: TrimPrefix_def)

section \<open>Characters\<close>

definition is_ascii :: "char \<Rightarrow> bool" where
  "is_ascii c = (of_char c < (128::nat))"

definition ascii_lower :: "char \<Rightarrow> char" where
  "ascii_lower c = (let n = of_char c :: nat in
     if 65 \<le> n \<and> n \<le> 90 then char_of (n + 32) else c)"

definition ToLower :: "(string \<Rightarrow> string) \<Rightarrow> string \<Rightarrow> string" where
  "ToLower ul s = (if list_all is_ascii s then map ascii_lower s else ul s)"

lemma of_char_ascii_lower:
  "(of_char (ascii_lower c) :: nat) =
     (let n = of_char c in if 65 \<le> n \<and> n \<le> 90 then n + 32 else n)"
  by (auto simp: ascii_lower_def Let_def of_char_of)

lemma ascii_lower_idem [simp]: "ascii_lower (ascii_lower c) = ascii_lower c"
  by (subst (1) ascii_lower_def) (auto simp: of_char_ascii_lower Let_def)

lemma is_ascii_lower [simp]: "is_ascii c \<Longrightarrow> is_ascii (ascii_lower c)"
  by (auto simp: is_ascii_def of_char_ascii_lower Let_def)

lemma ToLower_ascii: "list_all is_ascii s \<Longrightarrow> ToLower ul s = map ascii_lower s"
  by (simp add: ToLower_def)

lemma length_ToLower_ascii: "list_all is_ascii s \<Longrightarrow> length (ToLower ul s) = length s"
  by (simp add: ToLower_ascii)

lemma list_all_ascii_lower [simp]:
  "list_all is_ascii s \<Longrightarrow> list_all is_ascii (map ascii_lower s)"
  by (auto simp: list_all_iff)

section \<open>White space\<close>

definition bytes_of :: "nat list \<Rightarrow> string" where
  "bytes_of ns = map char_of ns"

definition space_codes :: "string list" where
  "space_codes = map bytes_of
     [[9], [10], [11], [12], [13], [32], [0xC2, 0x85], [0xC2, 0xA0], [0xE1, 0x9A, 0x80],
      [0xE2, 0x80, 0x80], [0xE2, 0x80, 0x81], [0xE2, 0x80, 0x82], [0xE2, 0x80, 0x83],
      [0xE2, 0x80, 0x84], [0xE2, 0x80, 0x85], [0xE2, 0x80, 0x86], [0xE2, 0x80, 0x87],
      [0xE2, 0x80, 0x88], [0xE2, 0x80, 0x89], [0xE2, 0x80, 0x8A], [0xE2, 0x80, 0xA8],
      [0xE2, 0x80, 0xA9], [0xE2, 0x80, 0xAF], [0xE2, 0x81, 0x9F], [0xE3, 0x80, 0x80]]"

text \<open>The white-space code point a string starts with, if it starts with one.\<close>

definition space_at :: "string \<Rightarrow> string option" where
  "space_at s = find (HasPrefix s) space_codes"

lemma space_codes_nonempty: "c \<in> set space_codes \<Longrightarrow> c \<noteq> []"
  by (auto simp: space_codes_def bytes_of_def)

lemma space_at_Some:
  assumes "space_at s = Some c"
  shows "c \<in> set space_codes" and "c \<noteq> []" and "HasPrefix s c"
  using assms space_codes_nonempty
  by (auto simp: space_at_def find_Some_iff in_set_conv_nth)

lemma space_at_Some_less [termination_simp]:
  "space_at s = Some c \<Longrightarrow> length (drop (length c) s) < length s"
proof -
  assume "space_at s = Some c"
  then have "c \<noteq> []" and "HasPrefix s c" by (auto dest: space_at_Some)
  then show ?thesis by (cases s; cases c) (auto simp: HasPrefix_def)
qed

lemma space_at_Nil [simp]: "space_at [] = None"
  by (auto simp: space_at_def find_None_iff HasPrefix_def dest: space_codes_nonempty)

function TrimLeftSpace :: "string \<Rightarrow> string" where
  "TrimLeftSpace s = (case space_at s of
       None \<Rightarrow> s
     | Some c \<Rightarrow> TrimLeftSpace (drop (length c) s))"
  by pat_completeness auto
termination
  by (relation "measure length") (auto dest: space_at_Some_less)

declare TrimLeftSpace.simps [simp del]

text \<open>The white-space code point a string ends with, and trimming from the right.\<close>

definition space_end :: "string \<Rightarrow> string option" where
  "space_end s = find (HasSuffix s) space_codes"

lemma space_end_Some:
  assumes "space_end s = Some c"
  shows "c \<noteq> []" and "HasSuffix s c" and "c \<in> set space_codes"
  using assms space_codes_nonempty
  by (auto simp: space_end_def find_Some_iff in_set_conv_nth)

lemma HasSuffix_conv: "HasSuffix s p = (\<exists>t. s = t @ p)"
  by (metis HasPrefix_conv HasSuffix_def rev_append rev_rev_ident)

lemma space_end_Some_less:
  "space_end s = Some c \<Longrightarrow> length s - length c < length s"
  using space_end_Some [of s c] by (auto simp: HasSuffix_conv)

function TrimRightSpace :: "string \<Rightarrow> string" where
  "TrimRightSpace s = (case space_end s of
       None \<Rightarrow> s
     | Some c \<Rightarrow> TrimRightSpace (take (length s - length c) s))"
  by pat_completeness auto
termination
  by (relation "measure length") (auto dest: space_end_Some_less)

declare TrimRightSpace.simps [simp del]

definition TrimSpace :: "string \<Rightarrow> string" where
  "TrimSpace s = TrimRightSpace (TrimLeftSpace s)"

lemma space_at_TrimLeftSpace: "space_at (TrimLeftSpace s) = None"
proof (induction s rule: TrimLeftSpace.induct)
  case (1 s)
  then show ?case
    by (cases "space_at s") (simp_all add: TrimLeftSpace.simps [of s])
qed

lemma space_end_TrimRightSpace: "space_end (TrimRightSpace s) = None"
proof (induction s rule: TrimRightSpace.induct)
  case (1 s)
  then show ?case
    by (cases "space_end s") (simp_all add: TrimRightSpace.simps [of s])
qed

lemma space_end_TrimSpace: "space_end (TrimSpace s) = None"
  by (simp add: TrimSpace_def space_end_TrimRightSpace)

text \<open>A string all of whose code points are white space.\<close>

function all_space :: "string \<Rightarrow> bool" where
  "all_space s = (s = [] \<or>
     (case space_at s of None \<Rightarrow> False | Some c \<Rightarrow> all_space (drop (length c) s)))"
  by pat_completeness auto
termination
  by (relation "measure length") (auto dest: space_at_Some_less)

declare all_space.simps [simp del]

lemma TrimLeftSpace_eq_Nil: "TrimLeftSpace s = [] \<longleftrightarrow> all_space s"
proof (induction s rule: TrimLeftSpace.induct)
  case (1 s)
  then show ?case
    by (cases "space_at s")
      (auto simp: TrimLeftSpace.simps [of s] all_space.simps [of s] all_space.simps [of "[]"])
qed

lemma all_space_end:
  assumes "all_space s" and "s \<noteq> []"
  shows "space_end s \<noteq> None"
proof -
  have "\<exists>t c. c \<in> set space_codes \<and> s = t @ c"
    using assms
  proof (induction s rule: all_space.induct)
    case (1 s)
    from "1.prems" obtain c where c: "space_at s = Some c" "all_space (drop (length c) s)"
      by (auto simp: all_space.simps [of s] split: option.splits)
    note sc = space_at_Some [OF c(1)]
    then have s: "s = c @ drop (length c) s" by (auto simp: HasPrefix_conv)
    show ?case
    proof (cases "drop (length c) s = []")
      case True
      with s sc show ?thesis by (metis append_Nil append_Nil2)
    next
      case False
      with "1.IH" [of c] "1.prems"(2) c obtain t d
        where "d \<in> set space_codes" "drop (length c) s = t @ d" by blast
      with s show ?thesis by (metis append.assoc)
    qed
  qed
  then show ?thesis
    by (auto simp: space_end_def find_None_iff HasSuffix_conv)
qed

lemma TrimLeftSpace_nonempty:
  "s \<noteq> [] \<Longrightarrow> space_end s = None \<Longrightarrow> TrimLeftSpace s \<noteq> []"
  by (metis TrimLeftSpace_eq_Nil all_space_end)

lemma space_end_append:
  assumes "space_end (a @ s) = None"
  shows "space_end s = None"
  using assms by (auto simp: space_end_def find_None_iff HasSuffix_conv)

section \<open>Fields\<close>

text \<open>
  \<open>strings.Fields\<close>: the maximal runs of code points that are not white space.
  \<open>field_end\<close> is the length of the run a string starts with.
\<close>

fun field_end :: "string \<Rightarrow> nat" where
  "field_end [] = 0"
| "field_end (c # s) = (if space_at (c # s) = None then Suc (field_end s) else 0)"

lemma field_end_pos: "s \<noteq> [] \<Longrightarrow> space_at s = None \<Longrightarrow> 0 < field_end s"
  by (cases s) auto

lemma length_TrimLeftSpace: "length (TrimLeftSpace s) \<le> length s"
proof (induction s rule: TrimLeftSpace.induct)
  case (1 s)
  then show ?case
    by (cases "space_at s") (force simp: TrimLeftSpace.simps [of s])+
qed

function Fields :: "string \<Rightarrow> string list" where
  "Fields s = (let t = TrimLeftSpace s in
     if t = [] then [] else take (field_end t) t # Fields (drop (field_end t) t))"
  by pat_completeness auto
termination
proof (relation "measure length")
  fix s t :: string
  assume t: "t = TrimLeftSpace s" and "t \<noteq> []"
  then have "0 < field_end t" by (simp add: field_end_pos space_at_TrimLeftSpace)
  with \<open>t \<noteq> []\<close> have "length (drop (field_end t) t) < length t" by simp
  with t show "(drop (field_end t) t, s) \<in> measure length"
    using length_TrimLeftSpace [of s] by simp
qed simp

declare Fields.simps [simp del]

lemma Fields_nonempty:
  "s \<noteq> [] \<Longrightarrow> space_end s = None \<Longrightarrow> Fields s \<noteq> []"
  by (simp add: Fields.simps [of s] Let_def TrimLeftSpace_nonempty)

section \<open>Searching and splitting\<close>

text \<open>\<open>strings.Index\<close>: the least offset of \<open>sep\<close> in \<open>s\<close>; \<^term>\<open>None\<close> stands for \<open>-1\<close>.\<close>

fun Index :: "string \<Rightarrow> string \<Rightarrow> nat option" where
  "Index [] sep = (if sep = [] then Some 0 else None)"
| "Index (c # s) sep =
     (if HasPrefix (c # s) sep then Some 0 else map_option Suc (Index s sep))"

lemma Index_Some:
  "Index s sep = Some i \<Longrightarrow> s = take i s @ sep @ drop (i + length sep) s"
proof (induction s arbitrary: i)
  case Nil
  then show ?case by (simp split: if_splits)
next
  case (Cons c s)
  show ?case
  proof (cases "HasPrefix (c # s) sep")
    case True
    with Cons.prems have "i = 0" by simp
    with True show ?thesis by (auto simp: HasPrefix_conv)
  next
    case False
    with Cons.prems obtain j where "Index s sep = Some j" "i = Suc j" by auto
    with Cons.IH [of j] show ?thesis by simp
  qed
qed

text \<open>\<open>strings.Split\<close> by a one-byte separator.\<close>

fun Split :: "string \<Rightarrow> char \<Rightarrow> string list" where
  "Split [] d = [[]]"
| "Split (c # s) d =
     (if c = d then [] # Split s d
      else (case Split s d of [] \<Rightarrow> [[c]] | p # ps \<Rightarrow> (c # p) # ps))"

lemma Split_nonempty [simp]: "Split s d \<noteq> []"
  by (cases s) (auto split: list.splits)

fun Join :: "string list \<Rightarrow> string \<Rightarrow> string" where
  "Join [] sep = []"
| "Join [p] sep = p"
| "Join (p # ps) sep = p @ sep @ Join ps sep"

lemma Join_Cons: "ps \<noteq> [] \<Longrightarrow> Join (p # ps) sep = p @ sep @ Join ps sep"
  by (cases ps) auto

lemma Join_Split [simp]: "Join (Split s d) [d] = s"
proof (induction s)
  case (Cons c s)
  obtain p ps where p: "Split s d = p # ps"
    by (cases "Split s d") (auto dest: Split_nonempty [THEN notE])
  with Cons show ?case
    by (cases "c = d") (cases ps; auto simp: Join_Cons)+
qed simp

lemma Split_free: "p \<in> set (Split s d) \<Longrightarrow> d \<notin> set p"
  by (induction s arbitrary: p) (auto split: if_splits list.splits)

lemma Split_append:
  "d \<notin> set p \<Longrightarrow> Split (p @ d # s) d = p # Split s d"
  by (induction p) auto

lemma Split_Join:
  "ps \<noteq> [] \<Longrightarrow> \<forall>p\<in>set ps. d \<notin> set p \<Longrightarrow> Split (Join ps [d]) d = ps"
proof (induction ps)
  case (Cons p ps)
  have single: "Split p d = [p]" if "d \<notin> set p" for p
    using that by (induction p) auto
  from Cons show ?case
    by (cases ps) (auto simp: single Join_Cons Split_append)
qed simp

section \<open>Trimming single bytes\<close>

definition TrimRightByte :: "string \<Rightarrow> char \<Rightarrow> string" where
  "TrimRightByte s c = rev (dropWhile (\<lambda>d. d = c) (rev s))"

definition TrimByte :: "string \<Rightarrow> char \<Rightarrow> string" where
  "TrimByte s c = TrimRightByte (dropWhile (\<lambda>d. d = c) s) c"

lemma TrimRightByte_last: "TrimRightByte s c \<noteq> [] \<Longrightarrow> last (TrimRightByte s c) \<noteq> c"
  using hd_dropWhile [of "\<lambda>d. d = c" "rev s"] by (simp add: TrimRightByte_def last_rev)

lemma TrimRightByte_idem [simp]: "TrimRightByte (TrimRightByte s c) c = TrimRightByte s c"
  by (simp add: TrimRightByte_def)

section \<open>Decimal integers\<close>

fun digits_of_nat :: "nat \<Rightarrow> string" where
  "digits_of_nat n = (if n < 10 then [char_of (48 + n)]
     else digits_of_nat (n div 10) @ [char_of (48 + n mod 10)])"

declare digits_of_nat.simps [simp del]

definition Itoa :: "int \<Rightarrow> string" where
  "Itoa i = (if i < 0 then ''-'' @ digits_of_nat (nat (- i)) else digits_of_nat (nat i))"

definition is_digit :: "char \<Rightarrow> bool" where
  "is_digit c = (let n = of_char c :: nat in 48 \<le> n \<and> n \<le> 57)"

definition nat_of_digits :: "string \<Rightarrow> nat" where
  "nat_of_digits s = foldl (\<lambda>a c. 10 * a + (of_char c - 48)) 0 s"

lemma digits_of_nat_digits: "c \<in> set (digits_of_nat n) \<Longrightarrow> is_digit c"
proof (induction n rule: digits_of_nat.induct)
  case (1 n)
  show ?case
  proof (cases "n < 10")
    case True
    with "1.prems" have "c = char_of (48 + n)" by (simp add: digits_of_nat.simps [of n])
    with True show ?thesis by (simp add: is_digit_def of_char_of)
  next
    case False
    with "1.prems" consider "c \<in> set (digits_of_nat (n div 10))" | "c = char_of (48 + n mod 10)"
      by (auto simp: digits_of_nat.simps [of n])
    then show ?thesis
    proof cases
      case 1
      with "1.IH" False show ?thesis by simp
    next
      case 2
      moreover have "n mod 10 < 10" by simp
      ultimately show ?thesis by (simp add: is_digit_def of_char_of)
    qed
  qed
qed

lemma digits_of_nat_nonempty [simp]: "digits_of_nat n \<noteq> []"
  by (subst digits_of_nat.simps) simp

lemma nat_of_digits_of_nat: "nat_of_digits (digits_of_nat n) = n"
proof (induction n rule: digits_of_nat.induct)
  case (1 n)
  show ?case
  proof (cases "n < 10")
    case True
    then show ?thesis by (simp add: digits_of_nat.simps [of n] nat_of_digits_def of_char_of)
  next
    case False
    with "1.IH" have "nat_of_digits (digits_of_nat (n div 10)) = n div 10" by simp
    moreover have "n mod 10 < 10" by simp
    ultimately show ?thesis using False
      by (simp add: digits_of_nat.simps [of n] nat_of_digits_def of_char_of)
  qed
qed

lemma Itoa_nonneg: "0 \<le> i \<Longrightarrow> Itoa i = digits_of_nat (nat i)"
  by (simp add: Itoa_def)

section \<open>Strings without white space at their ends\<close>

lemma TrimSpace_Nil [simp]: "TrimSpace [] = []"
proof -
  have "space_end [] = None"
    by (auto simp: space_end_def find_None_iff HasSuffix_conv dest: space_codes_nonempty)
  then show ?thesis
    by (simp add: TrimSpace_def TrimLeftSpace.simps [of "[]"] TrimRightSpace.simps [of "[]"])
qed

definition space_byte :: "char \<Rightarrow> bool" where
  "space_byte c \<longleftrightarrow> list_ex (\<lambda>w. c \<in> set w) space_codes"

lemma space_at_plain: "\<not> space_byte c \<Longrightarrow> space_at (c # s) = None"
proof (rule ccontr)
  assume c: "\<not> space_byte c" and "space_at (c # s) \<noteq> None"
  then obtain w where w: "w \<in> set space_codes" "w \<noteq> []" "HasPrefix (c # s) w"
    using space_at_Some by blast
  have "c \<in> set w" using w(2,3) by (cases w) auto
  with w c show False by (auto simp: space_byte_def list_ex_iff)
qed

lemma space_end_plain: "\<not> space_byte c \<Longrightarrow> space_end (s @ [c]) = None"
proof (rule ccontr)
  assume c: "\<not> space_byte c" and "space_end (s @ [c]) \<noteq> None"
  then obtain w where w: "w \<in> set space_codes" "w \<noteq> []" "HasSuffix (s @ [c]) w"
    using space_end_Some by blast
  have "c \<in> set w" using w(2,3) by (cases w rule: rev_exhaust) (auto simp: HasSuffix_conv)
  with w c show False by (auto simp: space_byte_def list_ex_iff)
qed

lemma TrimLeftSpace_plain: "\<not> space_byte c \<Longrightarrow> TrimLeftSpace (c # s) = c # s"
  by (simp add: TrimLeftSpace.simps [of "c # s"] space_at_plain)

lemma TrimRightSpace_plain: "\<not> space_byte c \<Longrightarrow> TrimRightSpace (s @ [c]) = s @ [c]"
  by (simp add: TrimRightSpace.simps [of "s @ [c]"] space_end_plain)

lemma TrimSpace_plain:
  assumes "s \<noteq> []" "\<not> space_byte (hd s)" "\<not> space_byte (last s)"
  shows "TrimSpace s = s"
proof -
  have "TrimLeftSpace s = s" using assms TrimLeftSpace_plain [of "hd s" "tl s"] by simp
  moreover have "TrimRightSpace s = s"
    using assms TrimRightSpace_plain [of "last s" "butlast s"] by simp
  ultimately show ?thesis by (simp add: TrimSpace_def)
qed

text \<open>Trimming on the right never eats a byte that no white-space code point contains.\<close>

lemma TrimRightSpace_keeps_hd:
  assumes "\<not> space_byte c"
  shows "\<exists>t. TrimRightSpace (c # s) = c # t"
proof (induction "length s" arbitrary: s rule: less_induct)
  case less
  show ?case
  proof (cases "space_end (c # s)")
    case None
    then show ?thesis by (simp add: TrimRightSpace.simps [of "c # s"])
  next
    case (Some w)
    note w = space_end_Some(3,1,2) [OF this]
    then obtain t where t: "c # s = t @ w" by (auto simp: HasSuffix_conv)
    with w assms obtain u where u: "t = c # u"
      by (cases t) (auto simp: space_byte_def list_ex_iff)
    with t w(2) have "length u < length s" by (cases w) auto
    from less [OF this] obtain x where "TrimRightSpace (c # u) = c # x" by blast
    with Some t u show ?thesis by (simp add: TrimRightSpace.simps [of "c # u @ w"])
  qed
qed

lemma field_end_plain: "\<forall>c\<in>set s. \<not> space_byte c \<Longrightarrow> field_end s = length s"
  by (induction s) (auto simp: space_at_plain)

lemma Fields_plain:
  assumes "s \<noteq> []" "\<forall>c\<in>set s. \<not> space_byte c"
  shows "Fields s = [s]"
proof -
  have "TrimLeftSpace s = s" using assms TrimLeftSpace_plain [of "hd s" "tl s"] by simp
  moreover have "Fields [] = []"
    by (simp add: Fields.simps [of "[]"] TrimLeftSpace.simps [of "[]"])
  ultimately show ?thesis using assms by (simp add: Fields.simps [of s] field_end_plain Let_def)
qed

lemma Index_None: "sep \<noteq> [] \<Longrightarrow> Index s sep = None \<longleftrightarrow> (\<nexists>a b. s = a @ sep @ b)"
proof (induction s)
  case (Cons c s)
  show ?case
  proof (cases "HasPrefix (c # s) sep")
    case True
    then obtain b where "c # s = [] @ sep @ b" by (auto simp: HasPrefix_conv)
    then have "\<exists>a b. c # s = a @ sep @ b" by blast
    with True show ?thesis by simp
  next
    case False
    have "(\<exists>a b. c # s = a @ sep @ b) \<longleftrightarrow> (\<exists>a b. s = a @ sep @ b)"
    proof
      assume "\<exists>a b. c # s = a @ sep @ b"
      then obtain a b where ab: "c # s = a @ sep @ b" by blast
      with False have "a \<noteq> []" by (metis HasPrefix_append append_Nil)
      with ab show "\<exists>a b. s = a @ sep @ b" by (cases a) auto
    next
      assume "\<exists>a b. s = a @ sep @ b"
      then obtain a b where "s = a @ sep @ b" by blast
      then have "c # s = (c # a) @ sep @ b" by simp
      then show "\<exists>a b. c # s = a @ sep @ b" by blast
    qed
    with False Cons show ?thesis by simp
  qed
qed simp

lemma Index_byte: "d \<notin> set a \<Longrightarrow> Index (a @ d # b) [d] = Some (length a)"
  by (induction a) (auto simp: HasPrefix_def)

lemma eq_char_of: "n < 256 \<Longrightarrow> c = char_of n \<longleftrightarrow> of_char c = (n :: nat)"
  by (auto simp: of_char_of)

lemma char_of_eq: "n < 256 \<Longrightarrow> char_of n = c \<longleftrightarrow> of_char c = (n :: nat)"
  using eq_char_of [of n c] by (simp add: eq_commute)

lemma space_byte_digit: "is_digit c \<Longrightarrow> \<not> space_byte c"
  by (auto simp: is_digit_def space_byte_def space_codes_def bytes_of_def Let_def of_char_of)

end
