(* ===== verification/S3_Api.thy ===== *)
theory S3_Api
  imports Go_Strings
begin

text \<open>
  The S3 interface the CSI driver programs against (\<open>src/csi/internal/driver/s3.go\<close> calls
  \<open>github.com/aws/aws-sdk-go-v2/service/s3\<close>).  The SDK and the service behind it are not part of
  the repository, so they are a parameter: a record of operations over a service state, and a
  paginator as the SDK offers it.

  The locale \<open>s3_store\<close> states what the driver relies on, in terms of the bucket contents
  \<open>buckets\<close>; a failing call may or may not have taken effect (a time-out), and nothing outside
  the bucket it names changes.  \<open>fresh\<close> is what a bucket holds right after its creation (for an S3
  service nothing; the dezhan server shows objects that were stored under the name before).
  \<open>listable\<close> says which bucket contents one listing returns whole, \<open>source\<close> how the service
  reads a copy source.  \<open>s3_rel\<close> adds a relation between states that every operation respects,
  \<open>s3_worm\<close> that held objects survive every operation.  All three are interpreted on the dezhan
  server itself in \<open>Dezhan_Contract\<close>.
\<close>

section \<open>The SDK's operations\<close>

text \<open>The error types the driver tells apart with \<open>errors.As\<close>; any other is \<open>OtherS3\<close>.\<close>

datatype s3_err = BucketAlreadyOwnedByYou | BucketAlreadyExists | NoSuchBucket | OtherS3 string

text \<open>An entry of a \<open>ListObjectsV2\<close> page: both fields are pointers in the SDK.\<close>

record s3_object =
  obj_Key :: "string option"
  obj_Size :: "int64 option"

definition aws_ToString :: "string option \<Rightarrow> string" where
  "aws_ToString p = (case p of None \<Rightarrow> [] | Some v \<Rightarrow> v)"

definition aws_ToInt64 :: "int64 option \<Rightarrow> int64" where
  "aws_ToInt64 p = (case p of None \<Rightarrow> 0 | Some v \<Rightarrow> v)"

record ('s, 'p) s3_Client =
  sdk_CreateBucket :: "string \<Rightarrow> 's \<Rightarrow> s3_err option \<times> 's"
  sdk_DeleteBucket :: "string \<Rightarrow> 's \<Rightarrow> s3_err option \<times> 's"
  sdk_DeleteObject :: "string \<Rightarrow> string \<Rightarrow> 's \<Rightarrow> s3_err option \<times> 's"
  sdk_CopyObject :: "string \<Rightarrow> string \<Rightarrow> string \<Rightarrow> 's \<Rightarrow> s3_err option \<times> 's"
  sdk_NewPaginator :: "string \<Rightarrow> 'p"
  sdk_HasMorePages :: "'p \<Rightarrow> bool"
  sdk_NextPage :: "'p \<Rightarrow> 's \<Rightarrow> (s3_err + s3_object list) \<times> 'p \<times> 's"

text \<open>
  Everything a paginator yields within \<open>n\<close> page requests: \<^term>\<open>None\<close> when it has more.
\<close>

primrec drain ::
  "('s, 'p) s3_Client \<Rightarrow> nat \<Rightarrow> 'p \<Rightarrow> 's \<Rightarrow> ((s3_err + s3_object list) \<times> 's) option" where
  "drain cl 0 p s = (if sdk_HasMorePages cl p then None else Some (Inr [], s))"
| "drain cl (Suc n) p s =
     (if sdk_HasMorePages cl p then
        (case sdk_NextPage cl p s of
           (Inl e, p', s') \<Rightarrow> Some (Inl e, s')
         | (Inr page, p', s') \<Rightarrow> map_option (apfst (map_sum id ((@) page))) (drain cl n p' s'))
      else Some (Inr [], s))"

lemma drain_Suc: "drain cl n p s = Some r \<Longrightarrow> drain cl (Suc n) p s = Some r"
proof (induction n arbitrary: p s r)
  case 0
  then show ?case by (simp split: if_splits)
next
  case (Suc n)
  show ?case
  proof (cases "sdk_HasMorePages cl p")
    case False
    with Suc.prems show ?thesis by simp
  next
    case True
    obtain x p' s' where np: "sdk_NextPage cl p s = (x, p', s')" by (cases "sdk_NextPage cl p s")
    show ?thesis
    proof (cases x)
      case (Inl e)
      with True np Suc.prems show ?thesis by simp
    next
      case (Inr page)
      with True np Suc.prems obtain r' where "drain cl n p' s' = Some r'"
        and r: "r = apfst (map_sum id ((@) page)) r'" by auto
      from Suc.IH [OF this(1)] have "drain cl (Suc n) p' s' = Some r'" .
      then show ?thesis using True np Inr r by (simp del: drain.simps add: drain.simps(2) [of _ "Suc n"])
    qed
  qed
qed

lemma drain_mono: "n \<le> m \<Longrightarrow> drain cl n p s = Some r \<Longrightarrow> drain cl m p s = Some r"
  by (induction m rule: dec_induct) (auto dest: drain_Suc)

lemma drain_unique: "drain cl n p s = Some r \<Longrightarrow> drain cl m p s = Some r' \<Longrightarrow> r = r'"
  by (metis drain_mono nle_le option.inject)

section \<open>The contract\<close>

locale s3_store =
  fixes cl :: "('s, 'p) s3_Client"
    and buckets :: "'s \<Rightarrow> string \<Rightarrow> (string \<Rightarrow> 'o option) option"
    and fresh :: "'s \<Rightarrow> string \<Rightarrow> (string \<Rightarrow> 'o option)"
    and size_of :: "'o \<Rightarrow> int64"
    and listable :: "(string \<Rightarrow> 'o option) \<Rightarrow> bool"
    and source :: "'s \<Rightarrow> string \<Rightarrow> 'o option"
  assumes create_ok: "sdk_CreateBucket cl b s = (None, t) \<Longrightarrow>
        buckets t = (buckets s)(b \<mapsto> (case buckets s b of None \<Rightarrow> fresh s b | Some m \<Rightarrow> m))"
    and create_exists: "sdk_CreateBucket cl b s = (Some e, t) \<Longrightarrow>
        e = BucketAlreadyOwnedByYou \<or> e = BucketAlreadyExists \<Longrightarrow>
        buckets t = buckets s \<and> buckets s b \<noteq> None"
    and create_err: "sdk_CreateBucket cl b s = (Some e, t) \<Longrightarrow>
        buckets t = buckets s \<or>
        buckets t = (buckets s)(b \<mapsto> (case buckets s b of None \<Rightarrow> fresh s b | Some m \<Rightarrow> m))"
    and delete_bucket_ok: "sdk_DeleteBucket cl b s = (None, t) \<Longrightarrow>
        buckets t = (buckets s)(b := None) \<and> buckets s b \<in> {None, Some Map.empty}"
    and delete_bucket_gone: "sdk_DeleteBucket cl b s = (Some NoSuchBucket, t) \<Longrightarrow>
        buckets t = buckets s \<and> buckets s b = None"
    and delete_bucket_err: "sdk_DeleteBucket cl b s = (Some e, t) \<Longrightarrow>
        buckets t = buckets s \<or>
        buckets t = (buckets s)(b := None) \<and> buckets s b \<in> {None, Some Map.empty}"
    and delete_object_ok: "sdk_DeleteObject cl b k s = (None, t) \<Longrightarrow>
        buckets t = (buckets s)(b := map_option (\<lambda>m. m(k := None)) (buckets s b))"
    and delete_object_err: "sdk_DeleteObject cl b k s = (Some e, t) \<Longrightarrow>
        buckets t = buckets s \<or>
        buckets t = (buckets s)(b := map_option (\<lambda>m. m(k := None)) (buckets s b))"
    and copy_ok: "sdk_CopyObject cl b k cs s = (None, t) \<Longrightarrow>
        \<exists>v m. source s cs = Some v \<and> buckets s b = Some m \<and> buckets t = (buckets s)(b \<mapsto> m(k \<mapsto> v))"
    and copy_err: "sdk_CopyObject cl b k cs s = (Some e, t) \<Longrightarrow>
        buckets t = buckets s \<or>
        (\<exists>v m. source s cs = Some v \<and> buckets s b = Some m \<and> buckets t = (buckets s)(b \<mapsto> m(k \<mapsto> v)))"
    and list_returns: "\<exists>n r t. drain cl n (sdk_NewPaginator cl b) s = Some (r, t)"
    and list_ok: "drain cl n (sdk_NewPaginator cl b) s = Some (Inr os, t) \<Longrightarrow>
        buckets t = buckets s \<and>
        (\<exists>m. buckets s b = Some m \<and>
          (\<forall>ob\<in>set os. map_option size_of (m (aws_ToString (obj_Key ob))) = Some (aws_ToInt64 (obj_Size ob))) \<and>
          (listable m \<longrightarrow> dom m = set (map (aws_ToString \<circ> obj_Key) os) \<and>
             distinct (map (aws_ToString \<circ> obj_Key) os)))"
    and list_err: "drain cl n (sdk_NewPaginator cl b) s = Some (Inl e, t) \<Longrightarrow>
        buckets t = buckets s \<and> (e = NoSuchBucket \<longrightarrow> buckets s b = None)"

text \<open>The object stored under a bucket and key.\<close>

definition object_at :: "('s \<Rightarrow> string \<Rightarrow> (string \<Rightarrow> 'o option) option) \<Rightarrow> 's \<Rightarrow> string \<Rightarrow> string \<Rightarrow> 'o option"
  where "object_at buckets s b k = Option.bind (buckets s b) (\<lambda>m. m k)"

text \<open>
  Write-once objects: \<open>held s b k\<close> says that the service must keep the object.  Held objects
  survive every operation, whatever its outcome.
\<close>

definition keeps ::
  "('s \<Rightarrow> string \<Rightarrow> (string \<Rightarrow> 'o option) option) \<Rightarrow> ('s \<Rightarrow> string \<Rightarrow> string \<Rightarrow> bool) \<Rightarrow> 's \<Rightarrow> 's \<Rightarrow> bool"
  where "keeps buckets held s t \<longleftrightarrow>
     (\<forall>b k. held s b k \<longrightarrow> held t b k \<and> object_at buckets t b k = object_at buckets s b k)"

lemma keeps_refl [simp]: "keeps buckets held s s"
  by (simp add: keeps_def)

lemma keeps_trans: "keeps buckets held s t \<Longrightarrow> keeps buckets held t u \<Longrightarrow> keeps buckets held s u"
  by (simp add: keeps_def)

text \<open>
  A relation between states that every operation respects: whatever the driver does respects it
  too.  Two instances matter, that held objects are kept and that the audit log only grows.
\<close>

locale s3_rel = s3_store cl buckets fresh size_of listable source
  for cl :: "('s, 'p) s3_Client"
    and buckets :: "'s \<Rightarrow> string \<Rightarrow> (string \<Rightarrow> 'o option) option"
    and fresh size_of listable source +
  fixes rel :: "'s \<Rightarrow> 's \<Rightarrow> bool"
  assumes rel_refl: "rel s s"
    and rel_trans: "rel s t \<Longrightarrow> rel t u \<Longrightarrow> rel s u"
    and create_rel: "sdk_CreateBucket cl b s = (r, t) \<Longrightarrow> rel s t"
    and delete_bucket_rel: "sdk_DeleteBucket cl b s = (r, t) \<Longrightarrow> rel s t"
    and delete_object_rel: "sdk_DeleteObject cl b k s = (r, t) \<Longrightarrow> rel s t"
    and copy_rel: "sdk_CopyObject cl b k cs s = (r, t) \<Longrightarrow> rel s t"
    and list_rel: "sdk_NextPage cl p s = (x, p', t) \<Longrightarrow> rel s t"

locale s3_worm = s3_store cl buckets fresh size_of listable source
  for cl :: "('s, 'p) s3_Client"
    and buckets :: "'s \<Rightarrow> string \<Rightarrow> (string \<Rightarrow> 'o option) option"
    and fresh size_of listable source +
  fixes held :: "'s \<Rightarrow> string \<Rightarrow> string \<Rightarrow> bool"
  assumes held_object: "held s b k \<Longrightarrow> object_at buckets s b k \<noteq> None"
    and create_keeps: "sdk_CreateBucket cl b s = (r, t) \<Longrightarrow> keeps buckets held s t"
    and delete_bucket_keeps: "sdk_DeleteBucket cl b s = (r, t) \<Longrightarrow> keeps buckets held s t"
    and delete_object_keeps: "sdk_DeleteObject cl b k s = (r, t) \<Longrightarrow> keeps buckets held s t"
    and copy_keeps: "sdk_CopyObject cl b k cs s = (r, t) \<Longrightarrow> keeps buckets held s t"
    and list_keeps: "sdk_NextPage cl p s = (x, p', t) \<Longrightarrow> keeps buckets held s t"

sublocale s3_worm \<subseteq> s3_rel cl buckets fresh size_of listable source "keeps buckets held"
  using create_keeps delete_bucket_keeps delete_object_keeps copy_keeps list_keeps
  by unfold_locales (auto intro: keeps_trans)

end
