(* ===== verification/Csi_S3.thy ===== *)
theory Csi_S3
  imports S3_Api
begin

text \<open>
  \<open>src/csi/internal/driver/s3.go\<close>: the connection resolved from CSI secrets and StorageClass
  parameters, and the bucket operations the CSI services are built from.  The SDK client is
  obtained from \<open>s3_New\<close> (the SDK's \<open>s3.New\<close>), a parameter; every operation is an action over
  the service's state.

  The listing loop has no bound of its own in the source (it runs while the paginator has more
  pages), so it is a \<open>partial_function\<close>: \<^term>\<open>None\<close> is not returning.  That it does return, and
  what, is proved inside the locale \<open>s3_store\<close>.
\<close>

section \<open>Errors\<close>

text \<open>
  \<open>errors.New\<close>, an SDK error, and \<open>fmt.Errorf("...: %w", err)\<close>, which keeps the wrapped error in
  the chain that \<open>errors.As\<close> searches.
\<close>

datatype go_error = ErrNew string | ErrSdk s3_err | ErrWrap string go_error

primrec errors_As :: "go_error \<Rightarrow> s3_err \<Rightarrow> bool" where
  "errors_As (ErrNew m) k = False"
| "errors_As (ErrSdk e) k = (e = k)"
| "errors_As (ErrWrap m e) k = errors_As e k"

section \<open>The connection\<close>

record s3Conn =
  Endpoint :: string
  Region :: string
  AccessKey :: string
  SecretKey :: string

definition pick :: "(string \<rightharpoonup> string) \<Rightarrow> (string \<rightharpoonup> string) \<Rightarrow> string \<Rightarrow> string" where
  "pick secrets params k = (case secrets k of
       Some v \<Rightarrow> if v \<noteq> [] then v else map_get params k
     | None \<Rightarrow> map_get params k)"

definition connFrom ::
  "(string \<rightharpoonup> string) \<Rightarrow> (string \<rightharpoonup> string) \<Rightarrow> go_error + s3Conn" where
  "connFrom secrets params =
    (let c0 = \<lparr>Endpoint = pick secrets params ''endpoint'',
               Region = pick secrets params ''region'',
               AccessKey = pick secrets params ''accessKeyID'',
               SecretKey = pick secrets params ''secretAccessKey''\<rparr>;
         c = (if Region c0 = [] then c0\<lparr>Region := ''us-east-1''\<rparr> else c0)
     in if Endpoint c = [] then
          Inl (ErrNew ''missing dezhan endpoint (set 'endpoint' in the StorageClass parameters or secret)'')
        else if AccessKey c = [] \<or> SecretKey c = [] then
          Inl (ErrNew ''missing accessKeyID/secretAccessKey in the CSI secret'')
        else Inr c)"

text \<open>The SDK's \<open>s3.Options\<close>, the fields the driver sets.\<close>

record s3_Options =
  opt_Region :: string
  opt_BaseEndpoint :: "string option"
  opt_UsePathStyle :: bool
  opt_Credentials :: "string \<times> string \<times> string"

definition client :: "(s3_Options \<Rightarrow> ('s, 'p) s3_Client) \<Rightarrow> s3Conn \<Rightarrow> ('s, 'p) s3_Client" where
  "client s3_New c = s3_New
     \<lparr>opt_Region = Region c,
      opt_BaseEndpoint = Some (Endpoint c),
      opt_UsePathStyle = True,
      opt_Credentials = (AccessKey c, SecretKey c, [])\<rparr>"

section \<open>Percent-encoding of a path segment\<close>

text \<open>\<open>net/url.PathEscape\<close>: bytes a path segment may hold are kept, any other becomes \<open>%XX\<close>.\<close>

definition path_plain :: "char \<Rightarrow> bool" where
  "path_plain c = (let n = of_char c :: nat in
     (48 \<le> n \<and> n \<le> 57) \<or> (65 \<le> n \<and> n \<le> 90) \<or> (97 \<le> n \<and> n \<le> 122) \<or>
     c \<in> set ''-_.~$&+:=@'')"

definition hex_digit :: "nat \<Rightarrow> char" where
  "hex_digit n = (if n < 10 then char_of (48 + n) else char_of (55 + n))"

definition escape_byte :: "char \<Rightarrow> string" where
  "escape_byte c = (if path_plain c then [c]
     else [CHR ''%'', hex_digit (of_char c div 16), hex_digit (of_char c mod 16)])"

definition PathEscape :: "string \<Rightarrow> string" where
  "PathEscape s = concat (map escape_byte s)"

section \<open>Bucket operations\<close>

text \<open>An SDK call: its error, if any, as a Go error value.\<close>

definition sdk :: "('s \<Rightarrow> s3_err option \<times> 's) \<Rightarrow> ('s, go_error, unit) io" where
  [io_defs]: "sdk f = (\<lambda>s. case f s of
       (None, t) \<Rightarrow> Some (Inr (), t)
     | (Some e, t) \<Rightarrow> Some (Inl (ErrSdk e), t))"

definition createBucket :: "('s, 'p) s3_Client \<Rightarrow> string \<Rightarrow> ('s, go_error, unit) io" where
  "createBucket cl bucket = io_try (sdk (sdk_CreateBucket cl bucket))
     (\<lambda>err. if errors_As err BucketAlreadyOwnedByYou \<or> errors_As err BucketAlreadyExists
        then io_return ()
        else io_throw (ErrWrap (''create bucket '' @ bucket) err))
     io_return"

partial_function (option) list_pages ::
  "('s, 'p) s3_Client \<Rightarrow> string \<Rightarrow> 'p \<Rightarrow> string list \<Rightarrow> int64 \<Rightarrow> 's \<Rightarrow>
     ((go_error + string list \<times> int64) \<times> 's) option" where
  "list_pages cl bucket p keys tot s =
    (if sdk_HasMorePages cl p then
       (case sdk_NextPage cl p s of
          (Inl e, p', s') \<Rightarrow> Some (Inl (ErrWrap (''list '' @ bucket) (ErrSdk e)), s')
        | (Inr page, p', s') \<Rightarrow>
            list_pages cl bucket p'
              (keys @ map (\<lambda>ob. aws_ToString (obj_Key ob)) page)
              (fold (\<lambda>ob a. a + aws_ToInt64 (obj_Size ob)) page tot) s')
     else Some (Inr (keys, tot), s))"

definition listKeys ::
  "('s, 'p) s3_Client \<Rightarrow> string \<Rightarrow> ('s, go_error, string list \<times> int64) io" where
  "listKeys cl bucket = list_pages cl bucket (sdk_NewPaginator cl bucket) [] 0"

definition emptyBucket :: "('s, 'p) s3_Client \<Rightarrow> string \<Rightarrow> ('s, go_error, unit) io" where
  "emptyBucket cl bucket = io_try (listKeys cl bucket)
     (\<lambda>err. if errors_As err NoSuchBucket then io_return () else io_throw err)
     (\<lambda>(keys, _). for_each (\<lambda>k.
        io_try (sdk (sdk_DeleteObject cl bucket k))
          (\<lambda>err. io_throw (ErrWrap (''delete '' @ bucket @ ''/'' @ k) err))
          io_return) keys)"

definition deleteBucket :: "('s, 'p) s3_Client \<Rightarrow> string \<Rightarrow> ('s, go_error, unit) io" where
  "deleteBucket cl bucket = io_try (emptyBucket cl bucket) io_throw (\<lambda>_.
     io_try (sdk (sdk_DeleteBucket cl bucket))
       (\<lambda>err. if errors_As err NoSuchBucket then io_return ()
          else io_throw (ErrWrap (''delete bucket '' @ bucket) err))
       io_return)"

definition copyAll :: "('s, 'p) s3_Client \<Rightarrow> string \<Rightarrow> string \<Rightarrow> ('s, go_error, int64) io" where
  "copyAll cl src dst = io_try (createBucket cl dst) io_throw (\<lambda>_.
     io_try (listKeys cl src) io_throw (\<lambda>(keys, tot).
       io_try (for_each (\<lambda>k.
           io_try (sdk (sdk_CopyObject cl dst k (PathEscape (src @ ''/'' @ k))))
             (\<lambda>err. io_throw (ErrWrap (''copy '' @ src @ ''/'' @ k @ '' -> '' @ dst) err))
             io_return) keys)
         io_throw (\<lambda>_. io_return tot)))"

section \<open>Facts that need nothing of the service\<close>

lemma io_wp_sdk [io_rules]:
  "io_wp (sdk f) Q E s =
     (case f s of (None, t) \<Rightarrow> Q () t | (Some e, t) \<Rightarrow> E (ErrSdk e) t)"
  by (simp add: io_wp_def sdk_def split: option.split prod.split)

lemma io_wlp_sdk [io_rules]:
  "io_wlp (sdk f) Q E s =
     (case f s of (None, t) \<Rightarrow> Q () t | (Some e, t) \<Rightarrow> E (ErrSdk e) t)"
  by (simp add: io_wlp_def sdk_def split: option.split prod.split)

definition list_total :: "s3_object list \<Rightarrow> int64" where
  "list_total os = (\<Sum>ob\<leftarrow>os. aws_ToInt64 (obj_Size ob))"

lemma fold_sizes:
  "fold (\<lambda>ob a. a + aws_ToInt64 (obj_Size ob)) page tot = tot + list_total page"
  by (induction page arbitrary: tot) (simp_all add: list_total_def add.assoc)

text \<open>The Go loop computes exactly what the paginator yields.\<close>

lemma list_pages_drain:
  assumes "drain cl n p s = Some (r, t)"
  shows "list_pages cl bucket p keys tot s =
    Some (case r of
        Inl e \<Rightarrow> Inl (ErrWrap (''list '' @ bucket) (ErrSdk e))
      | Inr os \<Rightarrow> Inr (keys @ map (aws_ToString \<circ> obj_Key) os, tot + list_total os), t)"
  using assms
proof (induction n arbitrary: p s r keys tot)
  case 0
  then show ?case
    by (auto simp: list_pages.simps [of cl bucket p] list_total_def split: if_splits)
next
  case (Suc n)
  show ?case
  proof (cases "sdk_HasMorePages cl p")
    case False
    with Suc.prems show ?thesis
      by (auto simp: list_pages.simps [of cl bucket p] list_total_def)
  next
    case True
    obtain x p' s' where np: "sdk_NextPage cl p s = (x, p', s')" by (cases "sdk_NextPage cl p s")
    show ?thesis
    proof (cases x)
      case (Inl e)
      with True np Suc.prems show ?thesis
        by (auto simp: list_pages.simps [of cl bucket p])
    next
      case (Inr page)
      with True np Suc.prems obtain r' where d: "drain cl n p' s' = Some (r', t)"
        and r: "r = map_sum id ((@) page) r'" by auto
      show ?thesis
        using Suc.IH [OF d] True np Inr r
        by (auto simp: list_pages.simps [of cl bucket p] fold_sizes list_total_def comp_def
            split: sum.split)
    qed
  qed
qed

lemma listKeys_drain:
  assumes "drain cl n (sdk_NewPaginator cl b) s = Some (r, t)"
  shows "listKeys cl b s =
    Some (case r of
        Inl e \<Rightarrow> Inl (ErrWrap (''list '' @ b) (ErrSdk e))
      | Inr os \<Rightarrow> Inr (map (aws_ToString \<circ> obj_Key) os, list_total os), t)"
  unfolding listKeys_def using list_pages_drain [OF assms, of b "[]" 0] by (simp split: sum.splits)

section \<open>The bucket operations over a service that keeps its contract\<close>

context s3_store
begin

text \<open>A state that differs from another in one bucket only, which has only lost objects.\<close>

definition shrunk :: "string \<Rightarrow> 's \<Rightarrow> 's \<Rightarrow> bool" where
  "shrunk b s t \<longleftrightarrow> buckets t = (buckets s)(b := buckets t b) \<and>
     (\<forall>m'. buckets t b = Some m' \<longrightarrow> (\<exists>m. buckets s b = Some m \<and> m' \<subseteq>\<^sub>m m))"

lemma shrunk_same: "buckets t = buckets s \<Longrightarrow> shrunk b s t"
  by (auto simp: shrunk_def)

lemma shrunk_gone: "buckets t = (buckets s)(b := None) \<Longrightarrow> shrunk b s t"
  by (simp add: shrunk_def)

lemma shrunk_trans: "shrunk b s t \<Longrightarrow> shrunk b t u \<Longrightarrow> shrunk b s u"
proof -
  assume a: "shrunk b s t" and b: "shrunk b t u"
  have "buckets u x = buckets s x" if "x \<noteq> b" for x
    using a b that unfolding shrunk_def by (metis fun_upd_other)
  moreover have "\<exists>m. buckets s b = Some m \<and> m' \<subseteq>\<^sub>m m" if "buckets u b = Some m'" for m'
    using a b that unfolding shrunk_def by (metis map_le_trans)
  ultimately show ?thesis by (auto simp: shrunk_def fun_eq_iff)
qed

lemma shrunk_delete:
  "buckets t = (buckets s)(b := map_option (\<lambda>m. m(k := None)) (buckets s b)) \<Longrightarrow> shrunk b s t"
  by (cases "buckets s b") (auto simp: shrunk_def map_le_def)

lemma createBucket_wp:
  "io_wp (createBucket cl b)
     (\<lambda>_ t. buckets t = (buckets s)(b \<mapsto> (case buckets s b of None \<Rightarrow> fresh s b | Some m \<Rightarrow> m)))
     (\<lambda>_ t. buckets t = buckets s \<or>
        buckets t = (buckets s)(b \<mapsto> (case buckets s b of None \<Rightarrow> fresh s b | Some m \<Rightarrow> m))) s"
proof -
  obtain r t where c: "sdk_CreateBucket cl b s = (r, t)" by (cases "sdk_CreateBucket cl b s")
  show ?thesis
  proof (cases r)
    case None
    with c create_ok show ?thesis by (simp add: createBucket_def io_rules)
  next
    case (Some e)
    with c create_exists [of b s e t] create_err [of b s e t] show ?thesis
      by (cases e) (auto simp: createBucket_def io_rules fun_upd_idem)
  qed
qed

lemma listed_total:
  assumes "\<forall>ob\<in>set os. map_option size_of (m (aws_ToString (obj_Key ob))) = Some (aws_ToInt64 (obj_Size ob))"
    and "distinct (map (aws_ToString \<circ> obj_Key) os)"
  shows "list_total os = (\<Sum>k\<in>set (map (aws_ToString \<circ> obj_Key) os). size_of (the (m k)))"
  using assms
proof (induction os)
  case Nil
  then show ?case by (simp add: list_total_def)
next
  case (Cons ob os)
  then have "size_of (the (m (aws_ToString (obj_Key ob)))) = aws_ToInt64 (obj_Size ob)"
    by auto
  with Cons show ?case by (simp add: list_total_def)
qed

lemma listKeys_wp:
  "io_wp (listKeys cl b)
     (\<lambda>(keys, tot) t. buckets t = buckets s \<and> (\<exists>m. buckets s b = Some m \<and> set keys \<subseteq> dom m \<and>
        (listable m \<longrightarrow> set keys = dom m \<and> distinct keys \<and> tot = (\<Sum>k\<in>dom m. size_of (the (m k))))))
     (\<lambda>e t. buckets t = buckets s \<and> (errors_As e NoSuchBucket \<longrightarrow> buckets s b = None)) s"
proof -
  obtain n r t where d: "drain cl n (sdk_NewPaginator cl b) s = Some (r, t)"
    using list_returns by blast
  show ?thesis
  proof (cases r)
    case (Inl e)
    with d listKeys_drain [OF d] list_err [of n b s e t] show ?thesis
      by (simp add: io_wp_def)
  next
    case (Inr os)
    with d list_ok [of n b s os t] obtain m where m: "buckets t = buckets s" "buckets s b = Some m"
      "\<forall>ob\<in>set os. map_option size_of (m (aws_ToString (obj_Key ob))) = Some (aws_ToInt64 (obj_Size ob))"
      "listable m \<longrightarrow> dom m = set (map (aws_ToString \<circ> obj_Key) os) \<and>
         distinct (map (aws_ToString \<circ> obj_Key) os)"
      by blast
    from m(3) have "set (map (aws_ToString \<circ> obj_Key) os) \<subseteq> dom m" by auto
    with m listed_total [OF m(3)] listKeys_drain [OF d] Inr show ?thesis
      by (simp add: io_wp_def)
  qed
qed

text \<open>Deleting keys one by one: after the loop the listed keys are gone, and nothing else.\<close>

lemma delete_keys_wp:
  assumes "buckets s b = Some m"
  shows "io_wp (for_each (\<lambda>k. io_try (sdk (sdk_DeleteObject cl b k))
            (\<lambda>err. io_throw (ErrWrap (''delete '' @ b @ ''/'' @ k) err)) io_return) keys)
     (\<lambda>_ t. buckets t = (buckets s)(b \<mapsto> m |` (- set keys)))
     (\<lambda>_ t. shrunk b s t) s"
proof (rule io_wp_for_each [where I = "\<lambda>ks t. buckets t = (buckets s)(b \<mapsto> m |` (- set ks))"])
  from assms show "buckets s = (buckets s)(b \<mapsto> m |` (- set []))" by (auto simp: restrict_map_def)
next
  fix ks k ks' t
  assume t: "buckets t = (buckets s)(b \<mapsto> m |` (- set ks))"
  have sh: "shrunk b s t" using t assms by (auto simp: shrunk_def map_le_def)
  obtain r u where d: "sdk_DeleteObject cl b k t = (r, u)" by (cases "sdk_DeleteObject cl b k t")
  have upd: "(m |` (- set ks))(k := None) = m |` (- set (ks @ [k]))"
    by (rule ext) (simp add: restrict_map_def)
  show "io_wp (io_try (sdk (sdk_DeleteObject cl b k))
          (\<lambda>err. io_throw (ErrWrap (''delete '' @ b @ ''/'' @ k) err)) io_return)
        (\<lambda>_ t. buckets t = (buckets s)(b \<mapsto> m |` (- set (ks @ [k])))) (\<lambda>_ t. shrunk b s t) t"
  proof (cases r)
    case None
    with d t upd delete_object_ok [of b k t u] show ?thesis by (simp add: io_rules)
  next
    case (Some e)
    have "shrunk b t u"
      using delete_object_err [of b k t e u] d Some by (auto intro: shrunk_same shrunk_delete)
    with sh d Some show ?thesis by (simp add: io_rules shrunk_trans)
  qed
qed

lemma emptyBucket_wp:
  "io_wp (emptyBucket cl b)
     (\<lambda>_ t. shrunk b s t \<and> (\<forall>m. buckets s b = Some m \<longrightarrow> listable m \<longrightarrow>
        buckets t = (buckets s)(b \<mapsto> Map.empty)))
     (\<lambda>_ t. shrunk b s t) s"
  unfolding emptyBucket_def io_rules
proof (rule io_wp_mono [OF listKeys_wp], goal_cases)
  case (1 kt t)
  then obtain keys tot m where kt: "kt = (keys, tot)" "buckets t = buckets s" "buckets s b = Some m"
    and l: "listable m \<longrightarrow> set keys = dom m"
    by auto
  have sub: "m |` (- set keys) \<subseteq>\<^sub>m m" by (auto simp: map_le_def)
  have emp: "m |` (- set keys) = Map.empty" if "listable m"
    using that l by (auto simp: restrict_map_def fun_eq_iff dom_def)
  have "buckets t b = Some m" using kt by simp
  then show ?case unfolding kt prod.case
    using kt sub emp by (intro io_wp_mono [OF delete_keys_wp]) (auto simp: shrunk_def)
next
  case (2 e t)
  then show ?case by (auto simp: io_rules intro: shrunk_same)
qed

text \<open>
  A bucket deletion that reports success has removed the bucket and touched nothing else; one
  that fails has at most removed objects of that bucket.
\<close>

lemma deleteBucket_wp:
  "io_wp (deleteBucket cl b) (\<lambda>_ t. buckets t = (buckets s)(b := None)) (\<lambda>_ t. shrunk b s t) s"
  unfolding deleteBucket_def io_wp_try
proof (rule io_wp_mono [OF emptyBucket_wp], goal_cases)
  case (1 u t)
  then have sh: "shrunk b s t" by blast
  then have eq: "(buckets t)(b := None) = (buckets s)(b := None)"
    unfolding shrunk_def by (metis fun_upd_upd)
  obtain r t' where d: "sdk_DeleteBucket cl b t = (r, t')" by (cases "sdk_DeleteBucket cl b t")
  show ?case
  proof (cases r)
    case None
    with d eq delete_bucket_ok [of b t t'] show ?thesis by (simp add: io_rules)
  next
    case (Some e)
    have "shrunk b s t'"
      using delete_bucket_err [of b t e t'] d Some sh
      by (metis shrunk_gone shrunk_same shrunk_trans)
    moreover have "buckets t' = (buckets s)(b := None)" if "e = NoSuchBucket"
      using that delete_bucket_gone [of b t t'] d Some eq by (metis fun_upd_idem)
    ultimately show ?thesis using d Some by (simp add: io_rules)
  qed
next
  case (2 e t)
  then show ?case by (simp add: io_rules)
qed

text \<open>
  Copying.  \<open>decodes\<close> is S3's documented reading of a copy source: the percent-decoded string
  is bucket, slash, key.
\<close>

definition decodes :: "string \<Rightarrow> bool" where
  "decodes b \<longleftrightarrow> (\<forall>s k. source s (PathEscape (b @ ''/'' @ k)) = object_at buckets s b k)"

lemma copy_keys_wp:
  assumes "decodes src" and "src \<noteq> dst"
    and s: "buckets s src = Some m" "buckets s dst = Some n" and "set keys \<subseteq> dom m"
  shows "io_wp (for_each (\<lambda>k. io_try (sdk (sdk_CopyObject cl dst k (PathEscape (src @ ''/'' @ k))))
            (\<lambda>err. io_throw (ErrWrap (''copy '' @ src @ ''/'' @ k @ '' -> '' @ dst) err)) io_return) keys)
     (\<lambda>_ t. buckets t = (buckets s)(dst \<mapsto> n ++ (m |` set keys)))
     (\<lambda>_ t. buckets t = (buckets s)(dst := buckets t dst)) s"
proof (rule io_wp_for_each [where I = "\<lambda>ks t. buckets t = (buckets s)(dst \<mapsto> n ++ (m |` set ks))"])
  from s show "buckets s = (buckets s)(dst \<mapsto> n ++ (m |` set []))" by auto
next
  fix ks k ks' t
  assume keys: "keys = ks @ k # ks'" and t: "buckets t = (buckets s)(dst \<mapsto> n ++ (m |` set ks))"
  obtain r u where d: "sdk_CopyObject cl dst k (PathEscape (src @ ''/'' @ k)) t = (r, u)"
    by (cases "sdk_CopyObject cl dst k (PathEscape (src @ ''/'' @ k)) t")
  have k: "m k = Some v" if "source t (PathEscape (src @ ''/'' @ k)) = Some v" for v
    using that assms(1,2) s t by (simp add: decodes_def object_at_def)
  show "io_wp (io_try (sdk (sdk_CopyObject cl dst k (PathEscape (src @ ''/'' @ k))))
          (\<lambda>err. io_throw (ErrWrap (''copy '' @ src @ ''/'' @ k @ '' -> '' @ dst) err)) io_return)
        (\<lambda>_ t. buckets t = (buckets s)(dst \<mapsto> n ++ (m |` set (ks @ [k]))))
        (\<lambda>_ t. buckets t = (buckets s)(dst := buckets t dst)) t"
  proof (cases r)
    case None
    with copy_ok d obtain v m' where v: "source t (PathEscape (src @ ''/'' @ k)) = Some v"
      "buckets t dst = Some m'" "buckets u = (buckets t)(dst \<mapsto> m'(k \<mapsto> v))" by blast
    with t have "buckets u = (buckets s)(dst \<mapsto> (n ++ (m |` set ks))(k \<mapsto> v))" by simp
    then have "buckets u = (buckets s)(dst \<mapsto> n ++ (m |` set (ks @ [k])))"
      by (simp only: map_add_restrict_insert [of m k v, OF k [OF v(1)]]) simp
    with d None show ?thesis by (simp add: io_rules)
  next
    case (Some e)
    with copy_err d t have "buckets u = (buckets s)(dst := buckets u dst)" by fastforce
    with d Some show ?thesis by (simp add: io_rules)
  qed
qed

lemma copyAll_wp:
  assumes "decodes src" and "src \<noteq> dst"
  shows "io_wp (copyAll cl src dst)
     (\<lambda>tot t. \<exists>m. buckets s src = Some m \<and> (listable m \<longrightarrow>
        tot = (\<Sum>k\<in>dom m. size_of (the (m k))) \<and>
        buckets t = (buckets s)(dst \<mapsto> (case buckets s dst of None \<Rightarrow> fresh s dst | Some n \<Rightarrow> n) ++ m)))
     (\<lambda>_ t. buckets t = (buckets s)(dst := buckets t dst)) s"
  unfolding copyAll_def io_wp_try
proof (rule io_wp_mono [OF createBucket_wp], goal_cases)
  case (1 u s1)
  let ?n = "case buckets s dst of None \<Rightarrow> fresh s dst | Some n \<Rightarrow> n"
  show ?case
  proof (rule io_wp_mono [OF listKeys_wp], goal_cases)
    case (1 kt s2)
    then obtain keys tot m where kt: "kt = (keys, tot)" "buckets s2 = buckets s1"
      "buckets s1 src = Some m" "set keys \<subseteq> dom m"
      and l: "listable m \<longrightarrow> set keys = dom m \<and> tot = (\<Sum>k\<in>dom m. size_of (the (m k)))"
      by auto
    have s2: "buckets s2 src = Some m" "buckets s2 dst = Some ?n" "buckets s src = Some m"
      using kt \<open>buckets s1 = _\<close> assms(2) by auto
    have add: "n ++ m |` dom m = n ++ m" for n :: "string \<Rightarrow> 'o option"
      by (rule map_add_restrict_dom) simp
    show ?case unfolding kt prod.case io_rules
      using s2 kt l add \<open>buckets s1 = _\<close>
      by (intro io_wp_mono [OF copy_keys_wp [OF assms s2(1,2) kt(4)]]) auto
  next
    case (2 e s2)
    then show ?case using \<open>buckets s1 = _\<close> by (simp add: io_rules)
  qed
next
  case (2 e t)
  then show ?case by (auto simp: io_rules)
qed

text \<open>Whatever the source resolves to, copying changes the destination bucket only.\<close>

lemma copyAll_frame:
  "io_wp (copyAll cl src dst) (\<lambda>_ t. buckets t = (buckets s)(dst := buckets t dst))
     (\<lambda>_ t. buckets t = (buckets s)(dst := buckets t dst)) s"
  unfolding copyAll_def io_wp_try
proof (rule io_wp_mono [OF createBucket_wp], goal_cases)
  case (1 u s1)
  show ?case
  proof (rule io_wp_mono [OF listKeys_wp], goal_cases)
    case (1 kt s2)
    have s2: "buckets s2 = (buckets s)(dst := buckets s2 dst)"
      using 1 \<open>buckets s1 = _\<close> by (auto split: prod.splits)
    have step: "io_wp (io_try (sdk (sdk_CopyObject cl dst k cs))
          (\<lambda>err. io_throw (ErrWrap w err)) io_return)
        (\<lambda>_ t. buckets t = (buckets s)(dst := buckets t dst))
        (\<lambda>_ t. buckets t = (buckets s)(dst := buckets t dst)) t"
      if t: "buckets t = (buckets s)(dst := buckets t dst)" for k cs w t
    proof -
      obtain r u where d: "sdk_CopyObject cl dst k cs t = (r, u)" by (cases "sdk_CopyObject cl dst k cs t")
      have "buckets u = (buckets s)(dst := buckets u dst)"
        using d t copy_ok [of dst k cs t u] copy_err [of dst k cs t _ u]
        by (cases r) (metis fun_upd_same fun_upd_upd)+
      with d show ?thesis by (cases r) (simp_all add: io_rules)
    qed
    show ?case unfolding io_rules
      by (auto simp: io_rules split: prod.split intro!: io_wp_mono [OF io_wp_for_each
          [where I = "\<lambda>_ t. buckets t = (buckets s)(dst := buckets t dst)", OF s2 step]])
  next
    case (2 e s2)
    then show ?case using \<open>buckets s1 = _\<close> by (simp add: io_rules)
  qed
next
  case (2 e t)
  then show ?case by (auto simp: io_rules)
qed

end

section \<open>Relations that the operations respect\<close>

context s3_rel
begin

lemma sdk_rel:
  assumes "\<And>r t. f s = (r, t) \<Longrightarrow> rel s t"
  shows "io_wlp (sdk f) (\<lambda>_. rel s) (\<lambda>_. rel s) s"
  using assms by (cases "f s") (auto simp: io_rules split: option.split)

lemma io_try_rel:
  assumes "io_wlp m (\<lambda>_. rel s) (\<lambda>_. rel s) s"
    and "\<And>e t. io_wlp (h e) (\<lambda>_. rel t) (\<lambda>_. rel t) t"
    and "\<And>x t. io_wlp (k x) (\<lambda>_. rel t) (\<lambda>_. rel t) t"
  shows "io_wlp (io_try m h k) (\<lambda>_. rel s) (\<lambda>_. rel s) s"
  unfolding io_wlp_try
  by (rule io_wlp_mono [OF assms(1)])
    (rule io_wlp_mono [OF assms(3)] io_wlp_mono [OF assms(2)]; erule (1) rel_trans)+

lemma io_return_rel: "io_wlp (io_return x) (\<lambda>_. rel s) (\<lambda>_. rel s) s"
  by (simp add: io_rules rel_refl)

lemma io_throw_rel: "io_wlp (io_throw x) (\<lambda>_. rel s) (\<lambda>_. rel s) s"
  by (simp add: io_rules rel_refl)

lemma for_each_rel:
  assumes "\<And>x t. io_wlp (f x) (\<lambda>_. rel t) (\<lambda>_. rel t) t"
  shows "io_wlp (for_each f xs) (\<lambda>_. rel s) (\<lambda>_. rel s) s"
proof (induction xs arbitrary: s)
  case Nil
  show ?case by (simp add: io_return_rel)
next
  case (Cons x xs)
  then show ?case by (auto intro!: io_try_rel assms io_throw_rel)
qed

lemma drain_rel: "drain cl n p s = Some (r, t) \<Longrightarrow> rel s t"
proof (induction n arbitrary: p s r)
  case 0
  then show ?case by (simp add: rel_refl split: if_splits)
next
  case (Suc n)
  obtain x p' s' where np: "sdk_NextPage cl p s = (x, p', s')" by (cases "sdk_NextPage cl p s")
  from list_rel [OF np] have "rel s s'" .
  with Suc np show ?case
    by (cases x) (auto split: if_splits intro: rel_trans rel_refl)
qed

lemma listKeys_rel:
  "io_wlp (listKeys cl b) (\<lambda>_. rel s) (\<lambda>_. rel s) s"
proof -
  obtain n r t where "drain cl n (sdk_NewPaginator cl b) s = Some (r, t)"
    using list_returns by blast
  from listKeys_drain [OF this] drain_rel [OF this] show ?thesis
    by (cases r) (simp_all add: io_wlp_def)
qed

lemmas rel_intros = io_try_rel io_return_rel io_throw_rel for_each_rel listKeys_rel
  sdk_rel [of "sdk_CreateBucket cl b", OF create_rel]
  sdk_rel [of "sdk_DeleteBucket cl b", OF delete_bucket_rel]
  sdk_rel [of "sdk_DeleteObject cl b k", OF delete_object_rel]
  sdk_rel [of "sdk_CopyObject cl b k cs", OF copy_rel] for b k cs

lemma createBucket_rel:
  "io_wlp (createBucket cl b) (\<lambda>_. rel s) (\<lambda>_. rel s) s"
  unfolding createBucket_def by (auto intro!: rel_intros)

lemma emptyBucket_rel:
  "io_wlp (emptyBucket cl b) (\<lambda>_. rel s) (\<lambda>_. rel s) s"
  unfolding emptyBucket_def by (auto intro!: rel_intros split: prod.split)

lemma deleteBucket_rel:
  "io_wlp (deleteBucket cl b) (\<lambda>_. rel s) (\<lambda>_. rel s) s"
  unfolding deleteBucket_def by (auto intro!: rel_intros emptyBucket_rel)

lemma copyAll_rel:
  "io_wlp (copyAll cl src dst) (\<lambda>_. rel s) (\<lambda>_. rel s) s"
  unfolding copyAll_def by (auto intro!: rel_intros createBucket_rel split: prod.split)

end

context s3_worm
begin

text \<open>A bucket with a held object is never reported deleted.\<close>

lemma deleteBucket_held:
  assumes "held s b k" and "deleteBucket cl b s = Some (r, t)"
  shows "\<exists>e. r = Inl e" and "object_at buckets t b k = object_at buckets s b k"
    and "object_at buckets t b k \<noteq> None"
proof -
  have keep: "keeps buckets held s t"
    using deleteBucket_rel [of b s] assms(2)
    by (cases r) (auto dest: io_wlp_result io_wlp_error)
  with assms(1) show eq: "object_at buckets t b k = object_at buckets s b k"
    by (simp add: keeps_def)
  with held_object [OF assms(1)] show some: "object_at buckets t b k \<noteq> None" by simp
  show "\<exists>e. r = Inl e"
  proof (cases r)
    case (Inr x)
    with deleteBucket_wp [of b s] assms(2) have "buckets t b = None"
      by (simp add: io_wp_def)
    with some show ?thesis by (simp add: object_at_def)
  qed simp
qed

end

end
