(* ===== verification/Csi_Driver.thy ===== *)
theory Csi_Driver
  imports Csi_S3
begin

text \<open>
  The CSI services of \<open>src/csi/internal/driver\<close>: \<open>driver.go\<close> (options, endpoint, which services
  a mode registers), \<open>identity.go\<close>, \<open>controller.go\<close> (volumes and snapshots as buckets) and
  \<open>node.go\<close> (mounting a bucket with \<open>mount-s3\<close>).

  Request and response messages are records of the fields the handlers read and write; the
  generated getters are nil-safe, so an absent message reads as its zero value.  The S3 client
  constructor, the URL parser, the clock and the node's operating-system calls are parameters.
  Log lines are not modelled.
\<close>

section \<open>Status errors\<close>

text \<open>
  \<open>errf\<close>: a gRPC status.  The message is kept as its literal text and the error value a
  \<open>%v\<close> verb embeds in it.
\<close>

datatype codes = InvalidArgument | Internal

datatype rpc_error = Status codes string "go_error option"

definition errf :: "codes \<Rightarrow> string \<Rightarrow> go_error option \<Rightarrow> rpc_error" where
  "errf c msg err = Status c msg err"

primrec code_of :: "rpc_error \<Rightarrow> codes" where
  "code_of (Status c m e) = c"

section \<open>Driver\<close>

definition Version :: string where
  "Version = ''0.1.0''"

text \<open>\<open>Mode\<close> is a string type; these are its three constants.\<close>

definition ModeController :: string where "ModeController = ''controller''"
definition ModeNode :: string where "ModeNode = ''node''"
definition ModeAll :: string where "ModeAll = ''all''"

record Options =
  opt_Name :: string
  opt_NodeID :: string
  opt_Endpoint :: string
  opt_Mode :: string

definition New :: "Options \<Rightarrow> string + Options" where
  "New o' =
    (if opt_Mode o' \<notin> {ModeController, ModeNode, ModeAll} then Inl (''invalid mode '' @ opt_Mode o')
     else if opt_Mode o' \<noteq> ModeController \<and> opt_NodeID o' = [] then
       Inl ''--node-id is required for the node service''
     else Inr o')"

record url =
  url_Scheme :: string
  url_Host :: string
  url_Path :: string

definition parseEndpoint :: "(string \<Rightarrow> string + url) \<Rightarrow> string \<Rightarrow> string + string \<times> string" where
  "parseEndpoint url_Parse ep =
    (if HasPrefix ep ''/'' then Inr (''unix'', ep)
     else (case url_Parse ep of
         Inl err \<Rightarrow> Inl (''parse endpoint '' @ ep @ '': '' @ err)
       | Inr u \<Rightarrow>
           if url_Scheme u = ''unix'' then Inr (''unix'', url_Path u)
           else if url_Scheme u = ''tcp'' then Inr (''tcp'', url_Host u)
           else Inl (''unsupported endpoint scheme '' @ url_Scheme u)))"

datatype service = IdentityServer | ControllerServer | NodeServer

datatype effect = RemoveFile string | Listen string string | Register service | Serve

text \<open>
  \<open>Run\<close>: the effects it has, in order, and its result; \<open>net_Listen\<close> and \<open>serve\<close> give the
  errors of opening the socket and of serving.
\<close>

definition Run ::
  "(string \<Rightarrow> string + url) \<Rightarrow> (string \<Rightarrow> string \<Rightarrow> string option) \<Rightarrow> string option \<Rightarrow> Options \<Rightarrow>
     effect list \<times> string option" where
  "Run url_Parse net_Listen serve d =
    (case parseEndpoint url_Parse (opt_Endpoint d) of
       Inl err \<Rightarrow> ([], Some err)
     | Inr (scheme, addr) \<Rightarrow>
        (let rm = (if scheme = ''unix'' then [RemoveFile addr] else [])
         in case net_Listen scheme addr of
            Some err \<Rightarrow> (rm @ [Listen scheme addr],
              Some (''listen '' @ scheme @ ''://'' @ addr @ '': '' @ err))
          | None \<Rightarrow>
              (rm @ [Listen scheme addr, Register IdentityServer] @
               (if opt_Mode d = ModeController \<or> opt_Mode d = ModeAll then [Register ControllerServer] else []) @
               (if opt_Mode d = ModeNode \<or> opt_Mode d = ModeAll then [Register NodeServer] else []) @
               [Serve], serve)))"

text \<open>
  \<open>logInterceptor\<close>, which the server of \<open>Run\<close> puts around every call: the handler runs, its outcome is logged
  (\<open>klog.V(4)\<close> drops the line of a success below verbosity 4), and what the handler answered is returned.
\<close>

datatype log_line = ErrorS string string string | InfoS string string

definition logInterceptor ::
  "nat \<Rightarrow> string \<Rightarrow> ('req \<Rightarrow> 's \<Rightarrow> (string + 'resp) \<times> 's) \<Rightarrow> 'req \<Rightarrow> 's \<times> log_line list \<Rightarrow> (string + 'resp) \<times> 's \<times> log_line list" where
  "logInterceptor verbosity FullMethod handler req = (\<lambda>(s, log). case handler req s of (r, t) \<Rightarrow>
     (r, t, log @ (case r of
        Inl err \<Rightarrow> [ErrorS err ''rpc failed'' FullMethod]
      | Inr resp \<Rightarrow> if 4 \<le> verbosity then [InfoS ''rpc ok'' FullMethod] else [])))"

text \<open>The interceptor changes neither the answer nor the driver, and every failure is in the log.\<close>

lemma logInterceptor_transparent:
  assumes "logInterceptor verbosity m handler req (s, log) = (r, t, log')"
  shows "handler req s = (r, t)" and "\<exists>l. log' = log @ l \<and> (\<forall>err. r = Inl err \<longrightarrow> l = [ErrorS err ''rpc failed'' m])"
  using assms by (auto simp: logInterceptor_def split: prod.splits)

text \<open>\<open>csi/cmd/main.go\<close>: the flags' defaults, and the effects and exit status of the process.\<close>

definition default_options :: Options where
  "default_options = \<lparr>opt_Name = ''dezhan.csi.obsernetics.io'', opt_NodeID = [], opt_Endpoint = ''unix:///csi/csi.sock'',
     opt_Mode = ''all''\<rparr>"

definition csi_main ::
  "(string \<Rightarrow> string + url) \<Rightarrow> (string \<Rightarrow> string \<Rightarrow> string option) \<Rightarrow> string option \<Rightarrow> Options \<Rightarrow>
     effect list \<times> nat" where
  "csi_main url_Parse net_Listen serve opts = (case New opts of
       Inl err \<Rightarrow> ([], 1)
     | Inr d \<Rightarrow> (case Run url_Parse net_Listen serve d of
           (effs, Some err) \<Rightarrow> (effs, 1)
         | (effs, None) \<Rightarrow> (effs, 0)))"

section \<open>Identity service\<close>

definition GetPluginInfo :: "Options \<Rightarrow> string \<times> string" where
  "GetPluginInfo d = (opt_Name d, Version)"

datatype plugin_capability = CONTROLLER_SERVICE

definition GetPluginCapabilities :: "plugin_capability list" where
  "GetPluginCapabilities = [CONTROLLER_SERVICE]"

definition Probe :: bool where
  "Probe = True"

section \<open>Controller service\<close>

definition bucketName :: "(string \<Rightarrow> string) \<Rightarrow> string \<Rightarrow> string" where
  "bucketName ul reqName = (let b = ToLower ul reqName in
     if length b > 63 then take 63 b else b)"

definition snapshotBucket :: "(string \<Rightarrow> string) \<Rightarrow> string \<Rightarrow> string" where
  "snapshotBucket ul reqName = (let b = ''snap-'' @ ToLower ul (TrimPrefix reqName ''snapshot-'') in
     if length b > 63 then take 63 b else b)"

datatype content_source = SourceSnapshot string | SourceVolume string | SourceUnset

definition GetSnapshot :: "content_source option \<Rightarrow> string option" where
  "GetSnapshot cs = (case cs of Some (SourceSnapshot i) \<Rightarrow> Some i | _ \<Rightarrow> None)"

record 'c CreateVolumeRequest =
  cv_Name :: string
  cv_VolumeCapabilities :: "'c list"
  cv_Secrets :: "string \<rightharpoonup> string"
  cv_Parameters :: "string \<rightharpoonup> string"
  cv_ContentSource :: "content_source option"
  cv_RequiredBytes :: int64

record Volume =
  VolumeId :: string
  CapacityBytes :: int64
  ContentSource :: "content_source option"
  VolumeContext :: "string \<rightharpoonup> string"

definition CreateVolume ::
  "(s3_Options \<Rightarrow> ('s, 'p) s3_Client) \<Rightarrow> (string \<Rightarrow> string) \<Rightarrow> 'c CreateVolumeRequest \<Rightarrow>
     ('s, rpc_error, Volume) io" where
  "CreateVolume s3_New ul req =
    (if cv_Name req = [] then io_throw (errf InvalidArgument ''volume name is required'' None)
     else if cv_VolumeCapabilities req = [] then
       io_throw (errf InvalidArgument ''volume capabilities are required'' None)
     else (case connFrom (cv_Secrets req) (cv_Parameters req) of
         Inl err \<Rightarrow> io_throw (errf InvalidArgument [] (Some err))
       | Inr conn \<Rightarrow>
          (let bucket = bucketName ul (cv_Name req);
               resp = \<lparr>VolumeId = bucket, CapacityBytes = cv_RequiredBytes req,
                       ContentSource = cv_ContentSource req,
                       VolumeContext = [''bucket'' \<mapsto> bucket, ''endpoint'' \<mapsto> Endpoint conn,
                                        ''region'' \<mapsto> Region conn]\<rparr>
           in case GetSnapshot (cv_ContentSource req) of
                Some snap \<Rightarrow>
                  io_try (copyAll (client s3_New conn) snap bucket)
                    (\<lambda>err. io_throw (errf Internal (''restore from snapshot '' @ snap @ '': '') (Some err)))
                    (\<lambda>_. io_return resp)
              | None \<Rightarrow>
                  io_try (createBucket (client s3_New conn) bucket)
                    (\<lambda>err. io_throw (errf Internal [] (Some err)))
                    (\<lambda>_. io_return resp))))"

record DeleteRequest =
  del_Id :: string
  del_Secrets :: "string \<rightharpoonup> string"

definition DeleteVolume ::
  "(s3_Options \<Rightarrow> ('s, 'p) s3_Client) \<Rightarrow> DeleteRequest \<Rightarrow> ('s, rpc_error, unit) io" where
  "DeleteVolume s3_New req =
    (if del_Id req = [] then io_throw (errf InvalidArgument ''volume id is required'' None)
     else (case connFrom (del_Secrets req) Map.empty of
         Inl err \<Rightarrow> io_throw (errf InvalidArgument [] (Some err))
       | Inr conn \<Rightarrow>
          io_try (deleteBucket (client s3_New conn) (del_Id req))
            (\<lambda>err. io_throw (errf Internal [] (Some err))) io_return))"

definition DeleteSnapshot ::
  "(s3_Options \<Rightarrow> ('s, 'p) s3_Client) \<Rightarrow> DeleteRequest \<Rightarrow> ('s, rpc_error, unit) io" where
  "DeleteSnapshot s3_New req =
    (if del_Id req = [] then io_throw (errf InvalidArgument ''snapshot id is required'' None)
     else (case connFrom (del_Secrets req) Map.empty of
         Inl err \<Rightarrow> io_throw (errf InvalidArgument [] (Some err))
       | Inr conn \<Rightarrow>
          io_try (deleteBucket (client s3_New conn) (del_Id req))
            (\<lambda>err. io_throw (errf Internal [] (Some err))) io_return))"

datatype controller_capability = CREATE_DELETE_VOLUME | CREATE_DELETE_SNAPSHOT

definition ControllerGetCapabilities :: "controller_capability list" where
  "ControllerGetCapabilities = map id [CREATE_DELETE_VOLUME, CREATE_DELETE_SNAPSHOT]"

record CreateSnapshotRequest =
  cs_Name :: string
  cs_SourceVolumeId :: string
  cs_Secrets :: "string \<rightharpoonup> string"
  cs_Parameters :: "string \<rightharpoonup> string"

record Snapshot =
  SnapshotId :: string
  SourceVolumeId :: string
  SizeBytes :: int64
  CreationTime :: int
  ReadyToUse :: bool

definition CreateSnapshot ::
  "(s3_Options \<Rightarrow> ('s, 'p) s3_Client) \<Rightarrow> (string \<Rightarrow> string) \<Rightarrow> int \<Rightarrow> CreateSnapshotRequest \<Rightarrow>
     ('s, rpc_error, Snapshot) io" where
  "CreateSnapshot s3_New ul now req =
    (if cs_Name req = [] \<or> cs_SourceVolumeId req = [] then
       io_throw (errf InvalidArgument ''snapshot name and source volume id are required'' None)
     else (case connFrom (cs_Secrets req) (cs_Parameters req) of
         Inl err \<Rightarrow> io_throw (errf InvalidArgument [] (Some err))
       | Inr conn \<Rightarrow>
          (let snap = snapshotBucket ul (cs_Name req)
           in io_try (copyAll (client s3_New conn) (cs_SourceVolumeId req) snap)
                (\<lambda>err. io_throw (errf Internal [] (Some err)))
                (\<lambda>size. io_return \<lparr>SnapshotId = snap, SourceVolumeId = cs_SourceVolumeId req,
                   SizeBytes = size, CreationTime = now, ReadyToUse = True\<rparr>))))"

definition ValidateVolumeCapabilities :: "string \<Rightarrow> 'c list \<Rightarrow> rpc_error + 'c list" where
  "ValidateVolumeCapabilities volumeId caps =
    (if volumeId = [] \<or> caps = [] then
       Inl (errf InvalidArgument ''volume id and capabilities are required'' None)
     else Inr caps)"

section \<open>Node service\<close>

text \<open>
  What the node service asks of the host: directories, the mount table
  (\<open>k8s.io/mount-utils\<close>), the environment and running a command.  An operating-system error
  carries whether \<open>os.IsNotExist\<close> holds of it and its text.
\<close>

record os_error =
  IsNotExist :: bool
  os_text :: string

record 'w node_host =
  MkdirAll :: "string \<Rightarrow> 'w \<Rightarrow> os_error option \<times> 'w"
  IsLikelyNotMountPoint :: "string \<Rightarrow> 'w \<Rightarrow> (bool \<times> os_error option) \<times> 'w"
  Environ :: "'w \<Rightarrow> string list"
  RunCommand :: "string \<Rightarrow> string list \<Rightarrow> string list \<Rightarrow> 'w \<Rightarrow> (string \<times> os_error option) \<times> 'w"
  CleanupMountPoint :: "string \<Rightarrow> bool \<Rightarrow> 'w \<Rightarrow> os_error option \<times> 'w"

definition mountCmd :: string where
  "mountCmd = ''mount-s3''"

text \<open>No staging: the node service announces no capability.\<close>

datatype node_capability = STAGE_UNSTAGE_VOLUME

definition NodeGetCapabilities :: "node_capability list" where
  "NodeGetCapabilities = []"

definition NodeGetInfo :: "Options \<Rightarrow> string" where
  "NodeGetInfo d = opt_NodeID d"

record NodePublishVolumeRequest =
  np_TargetPath :: string
  np_VolumeId :: string
  np_VolumeContext :: "string \<rightharpoonup> string"
  np_Secrets :: "string \<rightharpoonup> string"
  np_Readonly :: bool

definition mount_args :: "string \<Rightarrow> string \<Rightarrow> s3Conn \<Rightarrow> bool \<Rightarrow> string list" where
  "mount_args bucket target conn readonly =
     [bucket, target, ''--endpoint-url'', Endpoint conn, ''--region'', Region conn,
      ''--allow-other'', ''--force-path-style''] @
     (if readonly then [''--read-only''] else [''--allow-delete''])"

text \<open>The part of \<open>NodePublishVolume\<close> after the mount-point check.\<close>

definition publish_mount ::
  "'w node_host \<Rightarrow> string \<Rightarrow> string \<Rightarrow> s3Conn \<Rightarrow> bool \<Rightarrow> bool \<Rightarrow> ('w, rpc_error, unit) io" where
  "publish_mount h bucket target conn readonly notMnt = (\<lambda>w.
     if \<not> notMnt then io_return () w
     else (case RunCommand h mountCmd (mount_args bucket target conn readonly)
             (Environ h w @ [''AWS_ACCESS_KEY_ID='' @ AccessKey conn,
                             ''AWS_SECRET_ACCESS_KEY='' @ SecretKey conn]) w of
           ((out, Some err), w') \<Rightarrow>
             io_throw (errf Internal (mountCmd @ '' failed: '' @ os_text err @ '': '' @ out) None) w'
         | ((out, None), w') \<Rightarrow> io_return () w'))"

definition NodePublishVolume ::
  "'w node_host \<Rightarrow> NodePublishVolumeRequest \<Rightarrow> ('w, rpc_error, unit) io" where
  "NodePublishVolume h req = (\<lambda>w.
    let target = np_TargetPath req; vctx = np_VolumeContext req in
    if target = [] \<or> np_VolumeId req = [] then
      io_throw (errf InvalidArgument ''volume id and target path are required'' None) w
    else
      let bucket = (if map_get vctx ''bucket'' = [] then np_VolumeId req else map_get vctx ''bucket'')
      in case connFrom (np_Secrets req) vctx of
           Inl err \<Rightarrow> io_throw (errf InvalidArgument [] (Some err)) w
         | Inr conn \<Rightarrow>
            (case MkdirAll h target w of
               (Some err, w1) \<Rightarrow>
                 io_throw (errf Internal (''mkdir '' @ target @ '': '' @ os_text err) None) w1
             | (None, w1) \<Rightarrow>
                (case IsLikelyNotMountPoint h target w1 of
                   ((notMnt, Some e), w2) \<Rightarrow>
                     if \<not> IsNotExist e then
                       io_throw (errf Internal (''check mount '' @ target @ '': '' @ os_text e) None) w2
                     else publish_mount h bucket target conn (np_Readonly req) notMnt w2
                 | ((notMnt, None), w2) \<Rightarrow>
                     publish_mount h bucket target conn (np_Readonly req) notMnt w2)))"

definition NodeUnpublishVolume ::
  "'w node_host \<Rightarrow> string \<Rightarrow> string \<Rightarrow> ('w, rpc_error, unit) io" where
  "NodeUnpublishVolume h target volumeId = (\<lambda>w.
    if target = [] \<or> volumeId = [] then
      io_throw (errf InvalidArgument ''volume id and target path are required'' None) w
    else (case CleanupMountPoint h target True w of
        (Some err, w') \<Rightarrow>
          io_throw (errf Internal (''unmount '' @ target @ '': '' @ os_text err) None) w'
      | (None, w') \<Rightarrow> io_return () w'))"

section \<open>Names\<close>

lemma length_bucketName: "length (bucketName ul n) \<le> 63"
  by (simp add: bucketName_def Let_def)

lemma bucketName_ascii:
  "list_all is_ascii n \<Longrightarrow> bucketName ul n = take 63 (map ascii_lower n)"
  by (simp add: bucketName_def ToLower_ascii Let_def)

lemma snapshotBucket_ascii:
  assumes "list_all is_ascii n"
  shows "snapshotBucket ul n = ''snap-'' @ take 58 (map ascii_lower (TrimPrefix n ''snapshot-''))"
proof -
  have "list_all is_ascii (TrimPrefix n ''snapshot-'')"
    using assms set_drop_subset by (force simp: TrimPrefix_def list_all_iff)
  then show ?thesis by (simp add: snapshotBucket_def ToLower_ascii Let_def)
qed

section \<open>Connections\<close>

lemma connFrom_Inr:
  "connFrom sec par = Inr c \<longleftrightarrow>
     Endpoint c = pick sec par ''endpoint'' \<and> Endpoint c \<noteq> [] \<and>
     AccessKey c = pick sec par ''accessKeyID'' \<and> AccessKey c \<noteq> [] \<and>
     SecretKey c = pick sec par ''secretAccessKey'' \<and> SecretKey c \<noteq> [] \<and>
     Region c = (if pick sec par ''region'' = [] then ''us-east-1'' else pick sec par ''region'')"
  by (cases c) (auto simp: connFrom_def Let_def)

section \<open>The handlers as actions\<close>

text \<open>What a handler does when its request is well formed.\<close>

lemma CreateVolume_snapshot:
  assumes "cv_Name req \<noteq> []" "cv_VolumeCapabilities req \<noteq> []"
    and "connFrom (cv_Secrets req) (cv_Parameters req) = Inr conn"
    and "GetSnapshot (cv_ContentSource req) = Some snap"
  shows "CreateVolume s3_New ul req =
     io_try (copyAll (client s3_New conn) snap (bucketName ul (cv_Name req)))
       (\<lambda>err. io_throw (errf Internal (''restore from snapshot '' @ snap @ '': '') (Some err)))
       (\<lambda>_. io_return \<lparr>VolumeId = bucketName ul (cv_Name req), CapacityBytes = cv_RequiredBytes req,
           ContentSource = cv_ContentSource req,
           VolumeContext = [''bucket'' \<mapsto> bucketName ul (cv_Name req), ''endpoint'' \<mapsto> Endpoint conn,
                            ''region'' \<mapsto> Region conn]\<rparr>)"
  using assms by (simp add: CreateVolume_def Let_def)

lemma CreateVolume_plain:
  assumes "cv_Name req \<noteq> []" "cv_VolumeCapabilities req \<noteq> []"
    and "connFrom (cv_Secrets req) (cv_Parameters req) = Inr conn"
    and "GetSnapshot (cv_ContentSource req) = None"
  shows "CreateVolume s3_New ul req =
     io_try (createBucket (client s3_New conn) (bucketName ul (cv_Name req)))
       (\<lambda>err. io_throw (errf Internal [] (Some err)))
       (\<lambda>_. io_return \<lparr>VolumeId = bucketName ul (cv_Name req), CapacityBytes = cv_RequiredBytes req,
           ContentSource = cv_ContentSource req,
           VolumeContext = [''bucket'' \<mapsto> bucketName ul (cv_Name req), ''endpoint'' \<mapsto> Endpoint conn,
                            ''region'' \<mapsto> Region conn]\<rparr>)"
  using assms by (simp add: CreateVolume_def Let_def)

lemma CreateSnapshot_valid:
  assumes "cs_Name req \<noteq> []" "cs_SourceVolumeId req \<noteq> []"
    and "connFrom (cs_Secrets req) (cs_Parameters req) = Inr conn"
  shows "CreateSnapshot s3_New ul now req =
     io_try (copyAll (client s3_New conn) (cs_SourceVolumeId req) (snapshotBucket ul (cs_Name req)))
       (\<lambda>err. io_throw (errf Internal [] (Some err)))
       (\<lambda>size. io_return \<lparr>SnapshotId = snapshotBucket ul (cs_Name req),
          SourceVolumeId = cs_SourceVolumeId req, SizeBytes = size, CreationTime = now,
          ReadyToUse = True\<rparr>)"
  using assms by (simp add: CreateSnapshot_def Let_def)

lemma Delete_valid:
  assumes "del_Id req \<noteq> []" and "connFrom (del_Secrets req) Map.empty = Inr conn"
  shows "DeleteVolume s3_New req =
     io_try (deleteBucket (client s3_New conn) (del_Id req))
       (\<lambda>err. io_throw (errf Internal [] (Some err))) io_return"
    and "DeleteSnapshot s3_New req = DeleteVolume s3_New req"
  using assms by (simp_all add: DeleteVolume_def DeleteSnapshot_def)

section \<open>Properties\<close>

text \<open>A handler that rejects its request as invalid has not called the service.\<close>

lemma errf_code [simp]: "code_of (errf c m e) = c"
  by (simp add: errf_def)

lemma io_try_wrapped_code:
  assumes "io_try m (\<lambda>err. io_throw (errf c (msg err) (w err))) (\<lambda>x. io_return (k x)) s = Some (Inl e, t)"
  shows "code_of e = c"
  using assms by (auto simp: io_try_Some io_throw_def io_return_def)

lemma CreateVolume_invalid:
  "CreateVolume s3_New ul req s = Some (Inl e, t) \<Longrightarrow> code_of e = InvalidArgument \<Longrightarrow> t = s"
  by (auto simp: CreateVolume_def Let_def io_try_Some io_throw_def io_return_def
      split: if_splits sum.splits option.splits)

lemma CreateSnapshot_invalid:
  "CreateSnapshot s3_New ul now req s = Some (Inl e, t) \<Longrightarrow> code_of e = InvalidArgument \<Longrightarrow> t = s"
  by (auto simp: CreateSnapshot_def Let_def io_try_Some io_throw_def io_return_def
      split: if_splits sum.splits)

lemma Delete_invalid:
  "DeleteVolume s3_New req s = Some (Inl e, t) \<Longrightarrow> code_of e = InvalidArgument \<Longrightarrow> t = s"
  "DeleteSnapshot s3_New req s = Some (Inl e, t) \<Longrightarrow> code_of e = InvalidArgument \<Longrightarrow> t = s"
  by (auto simp: DeleteVolume_def DeleteSnapshot_def Let_def io_try_Some io_throw_def io_return_def
      split: if_splits sum.splits)

text \<open>
  A rejected controller request has no effect: when \<open>CreateVolume\<close>, \<open>DeleteVolume\<close>,
  \<open>CreateSnapshot\<close> or \<open>DeleteSnapshot\<close> answers \<open>InvalidArgument\<close>, the service is in the state it was
  in before, whatever client the SDK would have built.
\<close>

lemma invalid_request_no_effect:
  assumes "CreateVolume s3_New ul cv s = Some (Inl e, t) \<or> DeleteVolume s3_New dv s = Some (Inl e, t) \<or>
      CreateSnapshot s3_New ul now cs s = Some (Inl e, t) \<or> DeleteSnapshot s3_New ds s = Some (Inl e, t)"
    and "code_of e = InvalidArgument"
  shows "t = s"
  using assms(1)
  by (elim disjE)
    (erule CreateVolume_invalid [OF _ assms(2)] CreateSnapshot_invalid [OF _ assms(2)]
      Delete_invalid(1) [OF _ assms(2)] Delete_invalid(2) [OF _ assms(2)])+

text \<open>Bucket names of volumes and snapshots.\<close>

definition lower_ascii :: "string \<Rightarrow> bool" where
  "lower_ascii n \<longleftrightarrow> list_all (\<lambda>c. is_ascii c \<and> ascii_lower c = c) n"

lemma lower_ascii_map: "lower_ascii n \<Longrightarrow> list_all is_ascii n \<and> map ascii_lower n = n"
  by (induction n) (simp_all add: lower_ascii_def)

lemma bucketName_lower: "lower_ascii n \<Longrightarrow> bucketName ul n = take 63 n"
  using lower_ascii_map [of n] by (simp add: bucketName_ascii)

lemma lower_ascii_bucketName: "list_all is_ascii n \<Longrightarrow> lower_ascii (bucketName ul n)"
  by (auto simp: bucketName_ascii lower_ascii_def list_all_iff dest!: in_set_takeD)

text \<open>
  Bucket names of volumes: for an ASCII volume name the bucket name has at most 63 bytes and no
  upper-case letter, and deriving it again changes nothing (a volume id is its own bucket name);
  names that are already lower case and at most 63 bytes long never collide.
\<close>

lemma bucketName_wellformed:
  assumes "list_all is_ascii n"
  shows "length (bucketName ul n) \<le> 63 \<and> lower_ascii (bucketName ul n) \<and>
     bucketName ul (bucketName ul n) = bucketName ul n \<and>
     (\<forall>n'. lower_ascii n \<and> lower_ascii n' \<and> length n \<le> 63 \<and> length n' \<le> 63 \<and>
        bucketName ul n = bucketName ul n' \<longrightarrow> n = n')"
  using lower_ascii_bucketName [OF assms, of ul]
  by (auto simp: length_bucketName bucketName_lower)

text \<open>
  A snapshot never lands in a volume's bucket: the bucket of an ASCII-named volume that the
  external provisioner names \<open>pvc-...\<close> differs from every snapshot bucket.
\<close>

lemma snapshot_bucket_is_no_volume:
  assumes "list_all is_ascii n" and "HasPrefix n ''pvc-''"
  shows "bucketName ul n \<noteq> snapshotBucket ul m"
proof -
  from assms obtain r where "n = CHR ''p'' # r" by (cases n) auto
  then have "hd (bucketName ul n) = CHR ''p''" using assms(1)
    by (simp add: bucketName_ascii ascii_lower_def)
  moreover have "hd (snapshotBucket ul m) = CHR ''s''"
    by (simp add: snapshotBucket_def Let_def)
  ultimately show ?thesis by auto
qed

text \<open>Without flags the process exits at once: the default mode has the node service and no node id.\<close>

lemma csi_main_default: "csi_main url_Parse net_Listen srv default_options = ([], 1)"
  by (simp add: csi_main_def New_def default_options_def ModeController_def ModeNode_def ModeAll_def)

lemma Run_effects:
  assumes "Run url_Parse net_Listen srv d = (effs, r)" and "Serve \<in> set effs"
  shows "\<exists>scheme addr. effs = (if scheme = ''unix'' then [RemoveFile addr] else []) @
      [Listen scheme addr, Register IdentityServer] @
      (if opt_Mode d = ModeController \<or> opt_Mode d = ModeAll then [Register ControllerServer] else []) @
      (if opt_Mode d = ModeNode \<or> opt_Mode d = ModeAll then [Register NodeServer] else []) @ [Serve] \<and> r = srv"
proof -
  obtain scheme addr where p: "parseEndpoint url_Parse (opt_Endpoint d) = Inr (scheme, addr)"
    using assms by (auto simp: Run_def split: sum.splits)
  have l: "net_Listen scheme addr = None"
    using assms p by (auto simp: Run_def Let_def split: option.splits if_splits)
  show ?thesis using assms(1) p l by (intro exI [of _ scheme] exI [of _ addr]) (auto simp: Run_def Let_def)
qed

text \<open>
  C20: The options decide what the driver process does: if it gets as far as serving, it has registered
  the identity service always, the controller service exactly in the modes \<open>controller\<close> and
  \<open>all\<close>, the node service exactly in the modes \<open>node\<close> and \<open>all\<close>; the node service never runs
  without a node id; everything is registered before serving starts, a stale unix socket is
  removed before listening, and the exit status is zero exactly if serving ends without an error.
\<close>

theorem Run_services:
  assumes "csi_main url_Parse net_Listen srv opts = (effs, code)" and "Serve \<in> set effs"
  shows "Register IdentityServer \<in> set effs \<and>
     (Register ControllerServer \<in> set effs \<longleftrightarrow> opt_Mode opts \<in> {ModeController, ModeAll}) \<and>
     (Register NodeServer \<in> set effs \<longleftrightarrow> opt_Mode opts \<in> {ModeNode, ModeAll}) \<and>
     (Register NodeServer \<in> set effs \<longrightarrow> opt_NodeID opts \<noteq> []) \<and>
     last effs = Serve \<and> Serve \<notin> set (butlast effs) \<and>
     (\<forall>addr. Listen ''unix'' addr \<in> set effs \<longrightarrow> hd effs = RemoveFile addr) \<and>
     code = (if srv = None then 0 else 1)"
proof -
  have New: "New opts = Inr opts" using assms by (auto simp: csi_main_def New_def split: if_splits)
  then have id: "opt_Mode opts \<noteq> ModeController \<longrightarrow> opt_NodeID opts \<noteq> []" by (auto simp: New_def split: if_splits)
  have ne: "ModeController \<noteq> ModeNode" "ModeController \<noteq> ModeAll" "ModeNode \<noteq> ModeAll"
    by (simp_all add: ModeController_def ModeNode_def ModeAll_def)
  obtain r where run: "Run url_Parse net_Listen srv opts = (effs, r)" "code = (if r = None then 0 else 1)"
    using assms(1) New by (auto simp: csi_main_def split: prod.splits option.splits)
  from Run_effects [OF run(1) assms(2)] obtain scheme addr
    where effs: "effs = (if scheme = ''unix'' then [RemoveFile addr] else []) @
      [Listen scheme addr, Register IdentityServer] @
      (if opt_Mode opts = ModeController \<or> opt_Mode opts = ModeAll then [Register ControllerServer] else []) @
      (if opt_Mode opts = ModeNode \<or> opt_Mode opts = ModeAll then [Register NodeServer] else []) @ [Serve]"
    and "r = srv" by blast
  with run(2) id ne show ?thesis unfolding effs by (auto simp: butlast_append)
qed

theorem Run_services_witness:
  "Register NodeServer \<in> set (fst (csi_main (\<lambda>_. Inl []) (\<lambda>_ _. None) None
     (default_options\<lparr>opt_NodeID := ''n1'', opt_Endpoint := ''/csi.sock''\<rparr>)))"
  using Run_services [of "\<lambda>_. Inl []" "\<lambda>_ _. None" None "default_options\<lparr>opt_NodeID := ''n1'', opt_Endpoint := ''/csi.sock''\<rparr>"]
  by (simp add: csi_main_def New_def Run_def parseEndpoint_def default_options_def ModeController_def ModeNode_def ModeAll_def)

text \<open>
  Publishing is idempotent: when the target is a mount point already, \<open>NodePublishVolume\<close>
  succeeds without running the mount command.
\<close>

lemma NodePublishVolume_idempotent:
  assumes "np_TargetPath req \<noteq> []" "np_VolumeId req \<noteq> []"
    and "connFrom (np_Secrets req) (np_VolumeContext req) = Inr conn"
    and "MkdirAll h (np_TargetPath req) w = (None, w1)"
    and "IsLikelyNotMountPoint h (np_TargetPath req) w1 = ((False, None), w2)"
  shows "NodePublishVolume h req w = Some (Inr (), w2)"
  using assms by (simp add: NodePublishVolume_def publish_mount_def io_return_def Let_def)

text \<open>A host that counts the commands it runs, for evaluation.\<close>

definition counting_host :: "bool \<Rightarrow> nat node_host" where
  "counting_host mounted = \<lparr>MkdirAll = (\<lambda>p w. (None, w)),
     IsLikelyNotMountPoint = (\<lambda>p w. ((\<not> mounted, None), w)), Environ = (\<lambda>w. []),
     RunCommand = (\<lambda>c a e w. (([], None), Suc w)), CleanupMountPoint = (\<lambda>p f w. (None, w))\<rparr>"

definition sample_secrets :: "string \<rightharpoonup> string" where
  "sample_secrets = [''endpoint'' \<mapsto> ''http://d:8080'', ''accessKeyID'' \<mapsto> ''AK'', ''secretAccessKey'' \<mapsto> ''SK'']"

definition sample_conn :: s3Conn where
  "sample_conn = \<lparr>Endpoint = ''http://d:8080'', Region = ''us-east-1'', AccessKey = ''AK'', SecretKey = ''SK''\<rparr>"

lemma connFrom_sample: "connFrom sample_secrets Map.empty = Inr sample_conn"
  by (simp add: connFrom_Inr sample_secrets_def sample_conn_def pick_def)

text \<open>
  C19: The node mounts what the controller created: given the volume context and id that a
  successful \<open>CreateVolume\<close> returned, and the same secret holding the credentials, publishing to a
  target that is not mounted runs exactly one command, \<open>mount-s3\<close> on the volume's bucket at the
  endpoint and region the controller used, read-only exactly when the request says so (and only
  then without \<open>--allow-delete\<close>), with the credentials in the environment and not among the
  arguments; it succeeds exactly when the command does.
\<close>

theorem NodePublish_mounts_created_volume:
  assumes "CreateVolume s3_New ul req s = Some (Inr vol, t)"
    and "connFrom (cv_Secrets req) (cv_Parameters req) = Inr conn"
    and "cv_Secrets req ''accessKeyID'' = Some ak" "ak \<noteq> []"
    and "cv_Secrets req ''secretAccessKey'' = Some sk" "sk \<noteq> []"
    and "np = \<lparr>np_TargetPath = target, np_VolumeId = VolumeId vol, np_VolumeContext = VolumeContext vol,
           np_Secrets = cv_Secrets req, np_Readonly = ro\<rparr>" and "target \<noteq> []"
    and "bucketName ul (cv_Name req) \<noteq> []"
    and "MkdirAll h target w = (None, w1)"
    and "IsLikelyNotMountPoint h target w1 = ((True, None), w2)"
    and "RunCommand h ''mount-s3'' ([bucketName ul (cv_Name req), target, ''--endpoint-url'', Endpoint conn,
            ''--region'', Region conn, ''--allow-other'', ''--force-path-style''] @
            (if ro then [''--read-only''] else [''--allow-delete'']))
           (Environ h w2 @ [''AWS_ACCESS_KEY_ID='' @ ak, ''AWS_SECRET_ACCESS_KEY='' @ sk]) w2 = ((out, err), w3)"
  shows "\<exists>r. NodePublishVolume h np w = Some (r, w3) \<and> (r = Inr () \<longleftrightarrow> err = None)"
proof -
  have vol: "VolumeId vol = bucketName ul (cv_Name req)"
    "VolumeContext vol = [''bucket'' \<mapsto> bucketName ul (cv_Name req), ''endpoint'' \<mapsto> Endpoint conn,
       ''region'' \<mapsto> Region conn]"
    using assms(1,2) by (auto simp: CreateVolume_def Let_def io_try_Some io_throw_def io_return_def
        split: if_splits option.splits)
  have c: "Endpoint conn \<noteq> []" "Endpoint conn = pick (cv_Secrets req) (cv_Parameters req) ''endpoint''"
    "AccessKey conn = ak" "SecretKey conn = sk"
    "Region conn = (if pick (cv_Secrets req) (cv_Parameters req) ''region'' = [] then ''us-east-1''
       else pick (cv_Secrets req) (cv_Parameters req) ''region'')"
    using assms(2-6) by (auto simp: connFrom_Inr pick_def)
  have conn: "connFrom (cv_Secrets req) (VolumeContext vol) = Inr conn"
    using c assms(3-6) vol by (auto simp: connFrom_Inr pick_def map_get_def split: option.splits if_splits)
  show ?thesis
    using assms(7-12) conn vol c
    by (cases err)
      (simp_all add: NodePublishVolume_def publish_mount_def mount_args_def mountCmd_def map_get_def
        io_return_def io_throw_def Let_def)
qed

text \<open>A client that accepts every call, for evaluation.\<close>

definition yes_client :: "(nat, unit) s3_Client" where
  "yes_client = \<lparr>sdk_CreateBucket = (\<lambda>b s. (None, s)), sdk_DeleteBucket = (\<lambda>b s. (None, s)),
     sdk_DeleteObject = (\<lambda>b k s. (None, s)), sdk_CopyObject = (\<lambda>b k c s. (None, s)),
     sdk_NewPaginator = (\<lambda>b. ()), sdk_HasMorePages = (\<lambda>p. False), sdk_NextPage = (\<lambda>p s. (Inr [], p, s))\<rparr>"

definition sample_volume :: "unit CreateVolumeRequest" where
  "sample_volume = \<lparr>cv_Name = ''pvc-1'', cv_VolumeCapabilities = [()], cv_Secrets = sample_secrets,
     cv_Parameters = Map.empty, cv_ContentSource = None, cv_RequiredBytes = 0\<rparr>"

lemma bucketName_pvc_1: "bucketName (\<lambda>s. s) ''pvc-1'' = ''pvc-1''"
  by (simp add: bucketName_def ToLower_def is_ascii_def ascii_lower_def Let_def)

lemma CreateVolume_sample:
  "CreateVolume (\<lambda>_. yes_client) (\<lambda>s. s) sample_volume 0 = Some (Inr
     \<lparr>VolumeId = ''pvc-1'', CapacityBytes = 0, ContentSource = None,
      VolumeContext = [''bucket'' \<mapsto> ''pvc-1'', ''endpoint'' \<mapsto> ''http://d:8080'', ''region'' \<mapsto> ''us-east-1'']\<rparr>, 0)"
  by (simp add: CreateVolume_def sample_volume_def connFrom_sample GetSnapshot_def createBucket_def
      client_def yes_client_def bucketName_pvc_1 sample_conn_def io_defs Let_def)

theorem NodePublish_mounts_created_volume_witness:
  "\<exists>r. NodePublishVolume (counting_host False) \<lparr>np_TargetPath = ''/m'', np_VolumeId = ''pvc-1'',
     np_VolumeContext = [''bucket'' \<mapsto> ''pvc-1'', ''endpoint'' \<mapsto> ''http://d:8080'', ''region'' \<mapsto> ''us-east-1''],
     np_Secrets = sample_secrets, np_Readonly = True\<rparr> 0 = Some (r, 1) \<and> r = Inr ()"
  using NodePublish_mounts_created_volume [OF CreateVolume_sample, of sample_conn "''AK''" "''SK''" _ "''/m''" True
      "counting_host False" 0 0 0 "[]" None 1]
  by (simp add: sample_volume_def connFrom_sample bucketName_pvc_1 counting_host_def)
    (simp add: sample_secrets_def)

end
