(* ===== verification/S3_Reference.thy ===== *)
theory S3_Reference
  imports Csi_S3 "HOL-Library.AList"
begin

text \<open>
  A textbook S3 service in memory, with the documented reading of a copy source: the
  percent-decoded string up to its first slash is the bucket, the rest the key.  It keeps the
  contract \<open>s3_store\<close>, and decodes what \<open>url.PathEscape\<close> encodes: the hypotheses under which the
  driver's snapshots are faithful can be met together.
\<close>

section \<open>Percent-decoding\<close>

definition hex_value :: "char \<Rightarrow> nat" where
  "hex_value c = (let n = of_char c in if n \<le> 57 then n - 48 else n - 55)"

fun PathUnescape :: "string \<Rightarrow> string" where
  "PathUnescape [] = []"
| "PathUnescape (c # s) =
     (if c = CHR ''%'' then (case s of
          a # b # r \<Rightarrow> char_of (16 * hex_value a + hex_value b) # PathUnescape r
        | _ \<Rightarrow> [])
      else c # PathUnescape s)"

lemma hex_value_digit: "n < 16 \<Longrightarrow> hex_value (hex_digit n) = n"
  by (auto simp: hex_value_def hex_digit_def Let_def)

lemma path_plain_percent: "path_plain c \<Longrightarrow> c \<noteq> CHR ''%''"
  by (auto simp: path_plain_def Let_def)

lemma PathUnescape_escape_byte: "PathUnescape (escape_byte c @ s) = c # PathUnescape s"
proof (cases "path_plain c")
  case True
  then show ?thesis using path_plain_percent by (simp add: escape_byte_def)
next
  case False
  have "of_char c < (256 :: nat)" by simp
  then have "of_char c div 16 < (16 :: nat)" by (simp add: less_mult_imp_div_less)
  then have "16 * hex_value (hex_digit (of_char c div 16)) + hex_value (hex_digit (of_char c mod 16)) =
      (of_char c :: nat)"
    by (simp add: hex_value_digit)
  with False show ?thesis by (simp add: escape_byte_def)
qed

text \<open>Escaping a path segment loses nothing.\<close>

lemma PathUnescape_PathEscape: "PathUnescape (PathEscape s) = s"
proof (induction s)
  case (Cons c s)
  then show ?case using PathUnescape_escape_byte [of c "PathEscape s"] by (simp add: PathEscape_def)
qed (simp add: PathEscape_def)

section \<open>The service\<close>

type_synonym mem_s3 = "(string \<times> (string \<times> bytes) list) list"

definition mem_buckets :: "mem_s3 \<Rightarrow> string \<Rightarrow> (string \<Rightarrow> bytes option) option" where
  "mem_buckets s b = map_option map_of (map_of s b)"

definition mem_source :: "mem_s3 \<Rightarrow> string \<Rightarrow> bytes option" where
  "mem_source s cs = (let p = PathUnescape cs in
     case map_of s (takeWhile (\<lambda>c. c \<noteq> CHR ''/'') p) of
       None \<Rightarrow> None
     | Some os \<Rightarrow> map_of os (tl (dropWhile (\<lambda>c. c \<noteq> CHR ''/'') p)))"

definition mem_size :: "bytes \<Rightarrow> int64" where
  "mem_size x = of_nat (length x)"

definition mem_page :: "(string \<times> bytes) list \<Rightarrow> s3_object list" where
  "mem_page os = map (\<lambda>k. \<lparr>obj_Key = Some k, obj_Size = Some (mem_size (the (map_of os k)))\<rparr>)
     (remdups (map fst os))"

definition mem_client :: "(mem_s3, string \<times> bool) s3_Client" where
  "mem_client = \<lparr>
     sdk_CreateBucket = (\<lambda>b s. if map_of s b \<noteq> None then (Some BucketAlreadyOwnedByYou, s)
        else (None, AList.update b [] s)),
     sdk_DeleteBucket = (\<lambda>b s. case map_of s b of
          None \<Rightarrow> (Some NoSuchBucket, s)
        | Some os \<Rightarrow> if os = [] then (None, AList.delete b s) else (Some (OtherS3 ''BucketNotEmpty''), s)),
     sdk_DeleteObject = (\<lambda>b k s. case map_of s b of
          None \<Rightarrow> (Some NoSuchBucket, s)
        | Some os \<Rightarrow> (None, AList.update b (AList.delete k os) s)),
     sdk_CopyObject = (\<lambda>b k cs s. case (map_of s b, mem_source s cs) of
          (Some os, Some x) \<Rightarrow> (None, AList.update b (AList.update k x os) s)
        | (None, _) \<Rightarrow> (Some NoSuchBucket, s)
        | _ \<Rightarrow> (Some (OtherS3 ''NoSuchKey''), s)),
     sdk_NewPaginator = (\<lambda>b. (b, True)),
     sdk_HasMorePages = snd,
     sdk_NextPage = (\<lambda>p s. case map_of s (fst p) of
          None \<Rightarrow> (Inl NoSuchBucket, p, s)
        | Some os \<Rightarrow> (Inr (mem_page os), (fst p, False), s))\<rparr>"

lemma mem_drain:
  "drain mem_client n (b, True) s = Some (r, t) \<Longrightarrow> t = s \<and>
     (case map_of s b of None \<Rightarrow> r = Inl NoSuchBucket | Some os \<Rightarrow> r = Inr (mem_page os))"
proof (cases n)
  case (Suc m)
  assume "drain mem_client n (b, True) s = Some (r, t)"
  with Suc show ?thesis
    by (cases m) (auto simp: mem_client_def split: option.splits if_splits)
qed (simp add: mem_client_def)

interpretation ms: s3_store mem_client mem_buckets "\<lambda>s b. Map.empty" mem_size "\<lambda>m. True" mem_source
proof (unfold_locales, goal_cases)
  case (11 b s)
  have "drain mem_client 1 (sdk_NewPaginator mem_client b) s \<noteq> None"
    by (auto simp: mem_client_def split: option.splits)
  then show ?case by fast
next
  case (12 n b s os t)
  then obtain xs where "t = s" "map_of s b = Some xs" "os = mem_page xs"
    using mem_drain [of n b s "Inr os" t] by (auto simp: mem_client_def split: option.splits)
  moreover have "map (aws_ToString \<circ> obj_Key) (mem_page xs) = remdups (map fst xs)"
    by (simp add: mem_page_def comp_def aws_ToString_def)
  moreover have "map_of xs k = Some (the (map_of xs k))" if "k \<in> fst ` set xs" for k
    using that by (metis domIff dom_map_of_conv_image_fst option.collapse)
  then have "\<forall>ob\<in>set (mem_page xs). map_option mem_size (map_of xs (aws_ToString (obj_Key ob))) =
      Some (aws_ToInt64 (obj_Size ob))"
    by (auto simp: mem_page_def aws_ToString_def aws_ToInt64_def)
  ultimately show ?case by (simp add: mem_buckets_def dom_map_of_conv_image_fst)
next
  case (13 n b s e t)
  then show ?case
    using mem_drain [of n b s "Inl e" t]
    by (auto simp: mem_client_def mem_buckets_def split: option.splits)
qed (auto simp: mem_client_def mem_buckets_def update_conv' delete_conv' fun_eq_iff
    split: option.splits if_splits)

lemma mem_decodes:
  assumes "CHR ''/'' \<notin> set b"
  shows "ms.decodes b"
proof -
  have "takeWhile (\<lambda>c. c \<noteq> CHR ''/'') (b @ CHR ''/'' # k) = b"
    "dropWhile (\<lambda>c. c \<noteq> CHR ''/'') (b @ CHR ''/'' # k) = CHR ''/'' # k" for k
    using assms by (auto simp: takeWhile_append dropWhile_append)
  then show ?thesis
    by (simp add: ms.decodes_def mem_source_def PathUnescape_PathEscape object_at_def mem_buckets_def
        Let_def split: option.split)
qed

end
