(* ===== verification/Csi_Services.thy ===== *)
theory Csi_Services
  imports Csi_Driver S3_Reference
begin

text \<open>
  What the controller's RPCs guarantee on any S3 service that keeps the contract \<open>s3_store\<close>: every
  call returns, a success means what it says, and a failure leaves everything but the one bucket
  it was about alone.  The witnesses run on the in-memory service.
\<close>

section \<open>The handlers over the contract\<close>

context s3_store
begin

lemma DeleteVolume_wp:
  assumes "client s3_New conn = cl" and "connFrom (del_Secrets req) Map.empty = Inr conn"
    and "del_Id req \<noteq> []"
  shows "io_wp (DeleteVolume s3_New req) (\<lambda>_ t. buckets t = (buckets s)(del_Id req := None))
     (\<lambda>e t. code_of e = Internal \<and> shrunk (del_Id req) s t) s"
  unfolding Delete_valid(1) [OF assms(3,2)] assms(1) io_wp_try
  by (rule io_wp_mono [OF deleteBucket_wp]) (simp_all add: io_rules)

lemma CreateVolume_plain_wp:
  assumes "client s3_New conn = cl" and "connFrom (cv_Secrets req) (cv_Parameters req) = Inr conn"
    and "cv_Name req \<noteq> []" "cv_VolumeCapabilities req \<noteq> []"
    and "GetSnapshot (cv_ContentSource req) = None"
    and b: "b = bucketName ul (cv_Name req)"
  shows "io_wp (CreateVolume s3_New ul req)
     (\<lambda>vol t. VolumeId vol = b \<and>
        buckets t = (buckets s)(b \<mapsto> (case buckets s b of None \<Rightarrow> fresh s b | Some m \<Rightarrow> m)))
     (\<lambda>e t. code_of e = Internal \<and> (buckets t = buckets s \<or>
        buckets t = (buckets s)(b \<mapsto> (case buckets s b of None \<Rightarrow> fresh s b | Some m \<Rightarrow> m)))) s"
  unfolding CreateVolume_plain [OF assms(3,4,2,5)] assms(1) io_wp_try b
  by (rule io_wp_mono [OF createBucket_wp]) (simp_all add: io_rules)

lemma CreateVolume_snapshot_wp:
  assumes "client s3_New conn = cl" and "connFrom (cv_Secrets req) (cv_Parameters req) = Inr conn"
    and "cv_Name req \<noteq> []" "cv_VolumeCapabilities req \<noteq> []"
    and "GetSnapshot (cv_ContentSource req) = Some snap"
    and "decodes snap" and "snap \<noteq> bucketName ul (cv_Name req)"
    and b: "b = bucketName ul (cv_Name req)"
  shows "io_wp (CreateVolume s3_New ul req)
     (\<lambda>vol t. VolumeId vol = b \<and> (\<exists>m. buckets s snap = Some m \<and> (listable m \<longrightarrow>
        buckets t = (buckets s)(b \<mapsto> (case buckets s b of None \<Rightarrow> fresh s b | Some n \<Rightarrow> n) ++ m))))
     (\<lambda>e t. code_of e = Internal \<and> buckets t = (buckets s)(b := buckets t b)) s"
  unfolding CreateVolume_snapshot [OF assms(3,4,2,5)] assms(1) io_wp_try b
  by (rule io_wp_mono [OF copyAll_wp [OF assms(6,7)]]) (auto simp: io_rules)

lemma CreateSnapshot_wp:
  assumes "client s3_New conn = cl" and "connFrom (cs_Secrets req) (cs_Parameters req) = Inr conn"
    and "cs_Name req \<noteq> []" "cs_SourceVolumeId req \<noteq> []"
    and "decodes (cs_SourceVolumeId req)" and "cs_SourceVolumeId req \<noteq> snapshotBucket ul (cs_Name req)"
    and b: "src = cs_SourceVolumeId req" "snap = snapshotBucket ul (cs_Name req)"
  shows "io_wp (CreateSnapshot s3_New ul now req)
     (\<lambda>sn t. SnapshotId sn = snap \<and> SourceVolumeId sn = src \<and> ReadyToUse sn \<and>
        (\<exists>m. buckets s src = Some m \<and> (listable m \<longrightarrow>
          SizeBytes sn = (\<Sum>k\<in>dom m. size_of (the (m k))) \<and>
          buckets t = (buckets s)(snap \<mapsto> (case buckets s snap of None \<Rightarrow> fresh s snap | Some n \<Rightarrow> n) ++ m))))
     (\<lambda>e t. code_of e = Internal \<and> buckets t = (buckets s)(snap := buckets t snap)) s"
  unfolding CreateSnapshot_valid [OF assms(3,4,2)] assms(1) io_wp_try b
  by (rule io_wp_mono [OF copyAll_wp [OF assms(5,6)]]) (auto simp: io_rules)

end

text \<open>A call of the controller service, with any request and whatever outcome.\<close>

inductive csi_step ::
  "(s3_Options \<Rightarrow> ('s, 'p) s3_Client) \<Rightarrow> (string \<Rightarrow> string) \<Rightarrow> 's \<Rightarrow> 's \<Rightarrow> bool" for s3_New ul where
  create_volume: "CreateVolume s3_New ul (cv :: unit CreateVolumeRequest) s = Some (v, t) \<Longrightarrow> csi_step s3_New ul s t"
| delete_volume: "DeleteVolume s3_New req s = Some (r, t) \<Longrightarrow> csi_step s3_New ul s t"
| create_snapshot: "CreateSnapshot s3_New ul now cs s = Some (sn, t) \<Longrightarrow> csi_step s3_New ul s t"
| delete_snapshot: "DeleteSnapshot s3_New req s = Some (r, t) \<Longrightarrow> csi_step s3_New ul s t"

context s3_rel
begin

lemma CreateVolume_rel:
  assumes "\<And>c. client s3_New c = cl"
  shows "io_wlp (CreateVolume s3_New ul req) (\<lambda>_. rel s) (\<lambda>_. rel s) s"
  unfolding CreateVolume_def Let_def assms
  by (auto intro!: rel_intros createBucket_rel copyAll_rel split: if_split sum.split option.split)

lemma CreateSnapshot_rel:
  assumes "\<And>c. client s3_New c = cl"
  shows "io_wlp (CreateSnapshot s3_New ul now req) (\<lambda>_. rel s) (\<lambda>_. rel s) s"
  unfolding CreateSnapshot_def Let_def assms
  by (auto intro!: rel_intros copyAll_rel split: if_split sum.split)

lemma Delete_rel:
  assumes "\<And>c. client s3_New c = cl"
  shows "io_wlp (DeleteVolume s3_New req) (\<lambda>_. rel s) (\<lambda>_. rel s) s"
    and "io_wlp (DeleteSnapshot s3_New req) (\<lambda>_. rel s) (\<lambda>_. rel s) s"
  unfolding DeleteVolume_def DeleteSnapshot_def assms
  by (auto intro!: rel_intros deleteBucket_rel split: if_split sum.split)

lemma io_wlp_rel_run:
  "io_wlp m (\<lambda>_. rel s) (\<lambda>_. rel s) s \<Longrightarrow> m s = Some (r, t) \<Longrightarrow> rel s t"
  by (cases r) (simp_all add: io_wlp_def)

lemma csi_step_rel:
  assumes "\<And>c. client s3_New c = cl" and "csi_step s3_New ul s t"
  shows "rel s t"
  using assms(2)
  by (cases rule: csi_step.cases)
    (blast intro: io_wlp_rel_run CreateVolume_rel [OF assms(1)] CreateSnapshot_rel [OF assms(1)]
      Delete_rel [OF assms(1)])+

lemma csi_steps_rel:
  assumes "\<And>c. client s3_New c = cl" and "(csi_step s3_New ul)\<^sup>*\<^sup>* s t"
  shows "rel s t"
  using assms(2)
  by (induction rule: rtranclp_induct) (auto intro: rel_refl rel_trans csi_step_rel [OF assms(1)])

end

lemma io_wp_cases:
  "io_wp m Q E s \<Longrightarrow> \<exists>r t. m s = Some (r, t) \<and> (case r of Inl e \<Rightarrow> E e t | Inr x \<Rightarrow> Q x t)"
  by (auto simp: io_wp_def split: option.splits)

section \<open>Properties\<close>

text \<open>
  C2: \<open>DeleteVolume\<close> deletes the volume and nothing else.  On any service that keeps the S3 contract
  the call returns; if it reports success the volume's bucket is gone and every other bucket is
  unchanged, if it fails (code \<open>Internal\<close>) other buckets are unchanged too and the volume has at
  most lost objects: none appears or changes.
\<close>

theorem DeleteVolume_removes_exactly:
  assumes "s3_store (client s3_New conn) buckets fresh size_of listable source"
    and "connFrom (del_Secrets req) Map.empty = Inr conn" and "del_Id req \<noteq> []"
  shows "\<exists>r t. DeleteVolume s3_New req s = Some (r, t) \<and> (case r of
       Inr _ \<Rightarrow> buckets t = (buckets s)(del_Id req := None)
     | Inl e \<Rightarrow> code_of e = Internal \<and> buckets t = (buckets s)(del_Id req := buckets t (del_Id req)) \<and>
         (\<forall>m'. buckets t (del_Id req) = Some m' \<longrightarrow> (\<exists>m. buckets s (del_Id req) = Some m \<and> m' \<subseteq>\<^sub>m m)))"
  using io_wp_cases [OF s3_store.DeleteVolume_wp [OF assms(1) refl assms(2,3)]]
  unfolding s3_store.shrunk_def [OF assms(1)] .

text \<open>A service with one volume of two objects.\<close>

definition sample_s3 :: mem_s3 where
  "sample_s3 = [(''pvc-1'', [(''a'', ''xy''), (''d/b'', ''z'')]), (''other'', [(''k'', ''v'')])]"

lemma s3_store_mem: "s3_store (client (\<lambda>_. mem_client) conn) mem_buckets (\<lambda>s b. Map.empty) mem_size (\<lambda>m. True) mem_source"
  unfolding client_def by (rule ms.s3_store_axioms)

theorem DeleteVolume_removes_exactly_witness:
  "\<exists>r t. DeleteVolume (\<lambda>_. mem_client) \<lparr>del_Id = ''pvc-1'', del_Secrets = sample_secrets\<rparr> sample_s3 = Some (r, t) \<and>
     (case r of
       Inr _ \<Rightarrow> mem_buckets t = (mem_buckets sample_s3)(''pvc-1'' := None)
     | Inl e \<Rightarrow> code_of e = Internal \<and>
         mem_buckets t = (mem_buckets sample_s3)(''pvc-1'' := mem_buckets t ''pvc-1'') \<and>
         (\<forall>m'. mem_buckets t ''pvc-1'' = Some m' \<longrightarrow> (\<exists>m. mem_buckets sample_s3 ''pvc-1'' = Some m \<and> m' \<subseteq>\<^sub>m m)))"
  by (rule DeleteVolume_removes_exactly [OF s3_store_mem, of "\<lparr>del_Id = ''pvc-1'', del_Secrets = sample_secrets\<rparr>"
      sample_conn sample_s3, unfolded DeleteRequest.select_convs, OF connFrom_sample]) simp

text \<open>
  C3: A snapshot is a faithful copy.  On a service that keeps the S3 contract and decodes copy
  sources as S3 documents, when the snapshot's bucket is new, \<open>CreateSnapshot\<close> returns; success
  means that the snapshot holds exactly the objects the volume had, that its size is the sum of
  their sizes (as a 64-bit integer), and that nothing else changed; failure leaves everything but
  the snapshot's bucket unchanged.
\<close>

theorem CreateSnapshot_faithful:
  assumes "s3_store (client s3_New conn) buckets fresh size_of listable source"
    and "connFrom (cs_Secrets req) (cs_Parameters req) = Inr conn" and "cs_Name req \<noteq> []"
    and "src = cs_SourceVolumeId req" "src \<noteq> []" and "snap = snapshotBucket ul (cs_Name req)" "src \<noteq> snap"
    and "\<forall>s k. source s (PathEscape (src @ ''/'' @ k)) = object_at buckets s src k"
    and "buckets s src = Some m" "listable m" and "buckets s snap = None" "fresh s snap = Map.empty"
  shows "\<exists>r t. CreateSnapshot s3_New ul now req s = Some (r, t) \<and> (case r of
       Inr sn \<Rightarrow> buckets t = (buckets s)(snap \<mapsto> m) \<and> SnapshotId sn = snap \<and> SourceVolumeId sn = src \<and>
         SizeBytes sn = (\<Sum>k\<in>dom m. size_of (the (m k))) \<and> ReadyToUse sn
     | Inl e \<Rightarrow> code_of e = Internal \<and> buckets t = (buckets s)(snap := buckets t snap))"
proof -
  have "s3_store.decodes buckets source src"
    using assms(8) by (simp add: s3_store.decodes_def [OF assms(1)])
  note wp = s3_store.CreateSnapshot_wp [OF assms(1) refl assms(2,3) _ _ _ assms(4,6), of now s]
  from io_wp_cases [OF wp] \<open>s3_store.decodes _ _ _\<close> assms(4-7,9-12) show ?thesis
    by (auto split: sum.splits)
qed

theorem CreateSnapshot_faithful_witness:
  "\<exists>r t. CreateSnapshot (\<lambda>_. mem_client) (\<lambda>s. s) 7 \<lparr>cs_Name = ''snapshot-1'', cs_SourceVolumeId = ''pvc-1'',
        cs_Secrets = sample_secrets, cs_Parameters = Map.empty\<rparr> sample_s3 = Some (r, t) \<and> (case r of
       Inr sn \<Rightarrow> mem_buckets t = (mem_buckets sample_s3)(''snap-1'' \<mapsto> map_of [(''a'', ''xy''), (''d/b'', ''z'')]) \<and>
         SnapshotId sn = ''snap-1'' \<and> SourceVolumeId sn = ''pvc-1'' \<and>
         SizeBytes sn = (\<Sum>k\<in>dom (map_of [(''a'', ''xy''), (''d/b'', ''z'')]).
            mem_size (the (map_of [(''a'', ''xy''), (''d/b'', ''z'')] k))) \<and> ReadyToUse sn
     | Inl e \<Rightarrow> code_of e = Internal \<and> mem_buckets t = (mem_buckets sample_s3)(''snap-1'' := mem_buckets t ''snap-1''))"
proof (rule CreateSnapshot_faithful [OF s3_store_mem, where conn = sample_conn])
  show "\<forall>s k. mem_source s (PathEscape (''pvc-1'' @ ''/'' @ k)) = object_at mem_buckets s ''pvc-1'' k"
    using mem_decodes [of "''pvc-1''"] by (simp add: ms.decodes_def)
qed (simp_all add: connFrom_sample snapshotBucket_def TrimPrefix_def ToLower_def is_ascii_def
    ascii_lower_def Let_def mem_buckets_def sample_s3_def)


lemma mem_listKeys:
  assumes "map_of s b = Some os"
  shows "listKeys mem_client b s = Some (Inr (remdups (map fst os), list_total (mem_page os)), s)"
proof -
  have "drain mem_client 1 (sdk_NewPaginator mem_client b) s = Some (Inr (mem_page os), s)"
    using assms by (simp add: mem_client_def)
  from listKeys_drain [OF this] show ?thesis by (simp add: mem_page_def comp_def aws_ToString_def)
qed

lemma mem_source_escaped:
  "CHR ''/'' \<notin> set b \<Longrightarrow> mem_source s (PathEscape (b @ CHR ''/'' # k)) = object_at mem_buckets s b k"
  using mem_decodes [of b] by (simp add: ms.decodes_def)

definition snapshot_s3 :: mem_s3 where
  "snapshot_s3 = sample_s3 @ [(''snap-1'', [(''a'', ''xy''), (''d/b'', ''z'')])]"

definition restored_s3 :: mem_s3 where
  "restored_s3 = snapshot_s3 @ [(''pvc-2'', [(''a'', ''xy''), (''d/b'', ''z'')])]"

lemma mem_CreateBucket:
  "sdk_CreateBucket mem_client b s = (if map_of s b \<noteq> None then (Some BucketAlreadyOwnedByYou, s)
     else (None, AList.update b [] s))"
  by (simp add: mem_client_def)

lemma mem_CopyObject:
  assumes "CHR ''/'' \<notin> set src" and "map_of s src = Some xs" "map_of xs k = Some x" "map_of s b = Some os"
  shows "sdk_CopyObject mem_client b k (PathEscape (src @ ''/'' @ k)) s =
    (None, AList.update b (AList.update k x os) s)"
  using assms by (simp add: mem_client_def mem_source_escaped object_at_def mem_buckets_def)

lemma mem_copyAll_sample:
  "copyAll mem_client ''pvc-1'' ''snap-1'' sample_s3 = Some (Inr 3, snapshot_s3)"
  using mem_CopyObject [of "''pvc-1''"]
  by (simp add: copyAll_def createBucket_def mem_listKeys sample_s3_def snapshot_s3_def mem_CreateBucket
      io_defs mem_page_def mem_size_def list_total_def aws_ToInt64_def)

lemma mem_copyAll_restore:
  "copyAll mem_client ''snap-1'' ''pvc-2'' snapshot_s3 = Some (Inr 3, restored_s3)"
  using mem_CopyObject [of "''snap-1''"]
  by (simp add: copyAll_def createBucket_def mem_listKeys sample_s3_def snapshot_s3_def restored_s3_def
      mem_CreateBucket io_defs mem_page_def mem_size_def list_total_def aws_ToInt64_def)

definition snapshot_request :: CreateSnapshotRequest where
  "snapshot_request = \<lparr>cs_Name = ''snapshot-1'', cs_SourceVolumeId = ''pvc-1'', cs_Secrets = sample_secrets,
     cs_Parameters = Map.empty\<rparr>"

definition restore_request :: "unit CreateVolumeRequest" where
  "restore_request = \<lparr>cv_Name = ''pvc-2'', cv_VolumeCapabilities = [()], cv_Secrets = sample_secrets,
     cv_Parameters = Map.empty, cv_ContentSource = Some (SourceSnapshot ''snap-1''), cv_RequiredBytes = 0\<rparr>"

lemma sample_names:
  "snapshotBucket (\<lambda>s. s) ''snapshot-1'' = ''snap-1''" "bucketName (\<lambda>s. s) ''pvc-2'' = ''pvc-2''"
  by (simp_all add: snapshotBucket_def bucketName_def TrimPrefix_def ToLower_def is_ascii_def
      ascii_lower_def Let_def)

lemma CreateSnapshot_run:
  "CreateSnapshot (\<lambda>_. mem_client) (\<lambda>s. s) 7 snapshot_request sample_s3 =
     Some (Inr \<lparr>SnapshotId = ''snap-1'', SourceVolumeId = ''pvc-1'', SizeBytes = 3, CreationTime = 7,
       ReadyToUse = True\<rparr>, snapshot_s3)"
  by (simp add: CreateSnapshot_def snapshot_request_def connFrom_sample sample_names client_def
      mem_copyAll_sample io_defs Let_def)

lemma CreateVolume_restore_run:
  "\<exists>v. CreateVolume (\<lambda>_. mem_client) (\<lambda>s. s) restore_request snapshot_s3 = Some (Inr v, restored_s3) \<and>
     VolumeId v = ''pvc-2''"
  by (simp add: CreateVolume_def restore_request_def connFrom_sample sample_names client_def GetSnapshot_def
      mem_copyAll_restore io_defs Let_def)


text \<open>
  \<open>CreateVolume\<close> without a snapshot creates the bucket and keeps an existing one.  On any service
  that keeps the S3 contract the call returns; success means that the volume's bucket exists with
  the contents it had before, or those of a new bucket, and failure (code \<open>Internal\<close>) leaves it
  either as it was or so; no other bucket changes.
\<close>

lemma CreateVolume_creates_bucket:
  assumes "s3_store (client s3_New conn) buckets fresh size_of listable source"
    and "connFrom (cv_Secrets req) (cv_Parameters req) = Inr conn"
    and "cv_Name req \<noteq> []" "cv_VolumeCapabilities req \<noteq> []"
    and "GetSnapshot (cv_ContentSource req) = None" and "b = bucketName ul (cv_Name req)"
  shows "\<exists>r t. CreateVolume s3_New ul req s = Some (r, t) \<and> (case r of
       Inr vol \<Rightarrow> VolumeId vol = b \<and>
         buckets t = (buckets s)(b \<mapsto> (case buckets s b of None \<Rightarrow> fresh s b | Some m \<Rightarrow> m))
     | Inl e \<Rightarrow> code_of e = Internal \<and> (buckets t = buckets s \<or>
         buckets t = (buckets s)(b \<mapsto> (case buckets s b of None \<Rightarrow> fresh s b | Some m \<Rightarrow> m))))"
  using io_wp_cases [OF s3_store.CreateVolume_plain_wp [OF assms(1) refl assms(2-6)]] .

text \<open>
  A volume content source is ignored: a request to clone an existing volume runs exactly like a
  request without a content source (an empty bucket is created and nothing is copied), and the
  answer still names the volume as the content source.
\<close>

lemma CreateVolume_ignores_clone_source:
  "CreateVolume s3_New ul (req\<lparr>cv_ContentSource := Some (SourceVolume src)\<rparr>) s =
     map_option (apfst (map_sum id (\<lambda>v. v\<lparr>ContentSource := Some (SourceVolume src)\<rparr>)))
       (CreateVolume s3_New ul (req\<lparr>cv_ContentSource := None\<rparr>) s)"
  by (auto simp: CreateVolume_def GetSnapshot_def Let_def io_try_def io_throw_def io_return_def
      split: option.split sum.split)

end
