(* ===== verification/Retention.thy ===== *)
theory Retention
  imports Prelude
begin

text \<open>
  The retention state machine of the trusted core,
  \<open>src/trusted_core/src/dezhan-trusted_core-retention.ads\<close> and \<open>.adb\<close>, over the trusted time of
  \<open>dezhan-trusted_core-times.ads\<close> (a range \<open>0 .. 2**63 - 1\<close>; \<open>time_ok\<close> is membership in it).
  The package is pure; an Ada precondition is a hypothesis here.

  Beyond the per-operation postconditions, the life of a lock under any sequence of requests is
  an inductive step relation: what holds of one step is lifted to every reachable lock.
\<close>

type_synonym Trusted_Time = nat

definition Time_Last :: Trusted_Time where
  "Time_Last = 2 ^ 63 - 1"

datatype Lock_Mode = Unlocked | Governance | Compliance

record Authorization =
  Bypass_Governance :: bool

record Retention_Lock =
  Lock_Mode_Of :: Lock_Mode
  Retain_Until :: Trusted_Time
  Created_At :: Trusted_Time
  Legal_Hold :: bool

definition Create_Lock :: "Lock_Mode \<Rightarrow> Trusted_Time \<Rightarrow> Trusted_Time \<Rightarrow> Retention_Lock" where
  "Create_Lock mode until now =
     \<lparr>Lock_Mode_Of = mode, Retain_Until = until, Created_At = now, Legal_Hold = False\<rparr>"

definition Set_Hold :: "Retention_Lock \<Rightarrow> Retention_Lock" where
  "Set_Hold l = l\<lparr>Legal_Hold := True\<rparr>"

definition Release_Hold :: "Retention_Lock \<Rightarrow> Retention_Lock" where
  "Release_Hold l = l\<lparr>Legal_Hold := False\<rparr>"

definition Extend_Retention :: "Retention_Lock \<Rightarrow> Trusted_Time \<Rightarrow> Retention_Lock" where
  "Extend_Retention l new_until =
     (if new_until > Retain_Until l then l\<lparr>Retain_Until := new_until\<rparr> else l)"

record Extension_Result =
  Lock_Of :: Retention_Lock
  Accepted :: bool

definition Request_Extension :: "Retention_Lock \<Rightarrow> Trusted_Time \<Rightarrow> Extension_Result" where
  "Request_Extension l new_until =
     \<lparr>Lock_Of = Extend_Retention l new_until, Accepted = (new_until > Retain_Until l)\<rparr>"

definition Can_Delete :: "Retention_Lock \<Rightarrow> Trusted_Time \<Rightarrow> Authorization \<Rightarrow> bool" where
  "Can_Delete l now auth =
     (if Legal_Hold l then False
      else (case Lock_Mode_Of l of
          Unlocked \<Rightarrow> True
        | Compliance \<Rightarrow> now \<ge> Retain_Until l
        | Governance \<Rightarrow> now \<ge> Retain_Until l \<or> Bypass_Governance auth))"

section \<open>The life of a lock\<close>

inductive lock_step :: "Retention_Lock \<Rightarrow> Retention_Lock \<Rightarrow> bool" where
  hold: "lock_step l (Set_Hold l)"
| release: "lock_step l (Release_Hold l)"
| extend: "lock_step l (Extend_Retention l u)"

inductive_cases lock_stepE: "lock_step l l'"

lemma lock_step_mono:
  "lock_step l l' \<Longrightarrow> Lock_Mode_Of l' = Lock_Mode_Of l \<and> Retain_Until l \<le> Retain_Until l' \<and>
     Created_At l' = Created_At l"
  by (auto elim!: lock_stepE simp: Set_Hold_def Release_Hold_def Extend_Retention_def)

lemma lock_steps_mono:
  "lock_step\<^sup>*\<^sup>* l l' \<Longrightarrow> Lock_Mode_Of l' = Lock_Mode_Of l \<and> Retain_Until l \<le> Retain_Until l' \<and>
     Created_At l' = Created_At l"
  by (induction rule: rtranclp_induct) (auto dest: lock_step_mono)

lemma Can_Delete_compliance:
  "Lock_Mode_Of l = Compliance \<Longrightarrow> now < Retain_Until l \<Longrightarrow> \<not> Can_Delete l now auth"
  by (simp add: Can_Delete_def)

lemma Can_Delete_held: "Legal_Hold l \<Longrightarrow> \<not> Can_Delete l now auth"
  by (simp add: Can_Delete_def)

lemma Can_Delete_mono:
  "Can_Delete l now auth \<Longrightarrow> now \<le> now' \<Longrightarrow> Can_Delete l now' auth"
  by (auto simp: Can_Delete_def split: if_splits Lock_Mode.splits)

section \<open>Properties\<close>



end
