(* ===== verification/Clock_Guard.thy ===== *)
theory Clock_Guard
  imports Retention
begin

text \<open>
  The clock integrity guard of the trusted core,
  \<open>src/trusted_core/src/dezhan-trusted_core-clock_guard.ads\<close> and \<open>.adb\<close>: trusted time advances by
  the monotonic clock only, saturating at the end of the range; the realtime clock raises
  anomalies and latches the seal.

  One reading is \<open>Tick\<close>; \<open>ticks\<close> is a run over a list of readings with the tolerance used for
  each, and the facts of one reading are lifted to runs.
\<close>

datatype Anomaly_Kind = No_Anomaly | Monotonic_Reset | Rollback | Forward_Jump

record Guard_State =
  Floor :: Trusted_Time
  Last_Mono :: Trusted_Time
  Last_Real :: Trusted_Time
  Anomaly :: Anomaly_Kind
  Sealed :: bool

record Clock_Sample =
  Mono :: Trusted_Time
  Realtime :: Trusted_Time
  Boot_Changed :: bool

definition Mono_Delta :: "Guard_State \<Rightarrow> Clock_Sample \<Rightarrow> Trusted_Time" where
  "Mono_Delta s x = (if Boot_Changed x \<or> Mono x < Last_Mono s then 0 else Mono x - Last_Mono s)"

definition Advanced_Floor :: "Guard_State \<Rightarrow> Clock_Sample \<Rightarrow> Trusted_Time" where
  "Advanced_Floor s x = (if Floor s \<le> Time_Last - Mono_Delta s x
     then Floor s + Mono_Delta s x else Time_Last)"

definition Init :: "Clock_Sample \<Rightarrow> Guard_State" where
  "Init x = \<lparr>Floor = 0, Last_Mono = Mono x, Last_Real = Realtime x, Anomaly = No_Anomaly,
     Sealed = False\<rparr>"

definition Tick :: "Guard_State \<Rightarrow> Clock_Sample \<Rightarrow> Trusted_Time \<Rightarrow> Guard_State" where
  "Tick s x tolerance =
    (let delta_t = Mono_Delta s x;
         result = s\<lparr>Floor := (if Floor s \<le> Time_Last - delta_t then Floor s + delta_t else Time_Last),
                    Last_Mono := Mono x, Last_Real := Realtime x\<rparr>;
         expected = (if Last_Real s \<le> Time_Last - delta_t then Last_Real s + delta_t else Time_Last);
         anomaly = (if Boot_Changed x then Monotonic_Reset
            else if Mono x < Last_Mono s then Rollback
            else if Realtime x > expected \<and> Realtime x - expected > tolerance then Forward_Jump
            else if Realtime x < expected \<and> expected - Realtime x > tolerance then Rollback
            else No_Anomaly);
         result = result\<lparr>Anomaly := anomaly\<rparr>;
         result = (if anomaly = Rollback \<or> anomaly = Forward_Jump then result\<lparr>Sealed := True\<rparr> else result)
     in if Sealed s then result\<lparr>Sealed := True\<rparr> else result)"

definition Now :: "Guard_State \<Rightarrow> Trusted_Time" where
  "Now s = Floor s"

definition Is_Sealed :: "Guard_State \<Rightarrow> bool" where
  "Is_Sealed s = Sealed s"

section \<open>One reading\<close>

text \<open>Readings and states within the range of the Ada type.\<close>

definition sample_ok :: "Clock_Sample \<Rightarrow> bool" where
  "sample_ok x \<longleftrightarrow> Mono x \<le> Time_Last \<and> Realtime x \<le> Time_Last"

definition guard_ok :: "Guard_State \<Rightarrow> bool" where
  "guard_ok s \<longleftrightarrow> Floor s \<le> Time_Last \<and> Last_Mono s \<le> Time_Last \<and> Last_Real s \<le> Time_Last"

lemma Tick_fields:
  "Floor (Tick s x tol) = Advanced_Floor s x"
  "Last_Mono (Tick s x tol) = Mono x"
  "Last_Real (Tick s x tol) = Realtime x"
  "Sealed s \<Longrightarrow> Sealed (Tick s x tol)"
  by (simp_all add: Tick_def Let_def Advanced_Floor_def)

lemma Mono_Delta_le: "sample_ok x \<Longrightarrow> Mono_Delta s x \<le> Time_Last"
  by (auto simp: Mono_Delta_def sample_ok_def)

lemma guard_ok_Init: "sample_ok x \<Longrightarrow> guard_ok (Init x)"
  by (simp add: guard_ok_def Init_def sample_ok_def)

lemma guard_ok_Tick: "guard_ok s \<Longrightarrow> sample_ok x \<Longrightarrow> guard_ok (Tick s x tol)"
  using Mono_Delta_le [of x s]
  by (auto simp: guard_ok_def Tick_fields Advanced_Floor_def sample_ok_def)

lemma Floor_Tick_mono: "guard_ok s \<Longrightarrow> Floor s \<le> Floor (Tick s x tol)"
  by (simp add: Tick_fields Advanced_Floor_def guard_ok_def)

lemma Floor_Tick_bound: "Floor (Tick s x tol) \<le> Floor s + Mono_Delta s x"
  by (auto simp: Tick_fields Advanced_Floor_def)

section \<open>Runs\<close>

primrec ticks :: "Guard_State \<Rightarrow> (Clock_Sample \<times> Trusted_Time) list \<Rightarrow> Guard_State" where
  "ticks s [] = s"
| "ticks s (x # xs) = ticks (Tick s (fst x) (snd x)) xs"

lemma guard_ok_ticks:
  "guard_ok s \<Longrightarrow> list_all (sample_ok \<circ> fst) xs \<Longrightarrow> guard_ok (ticks s xs)"
  by (induction xs arbitrary: s) (auto simp: guard_ok_Tick)

lemma Floor_ticks_mono:
  "guard_ok s \<Longrightarrow> list_all (sample_ok \<circ> fst) xs \<Longrightarrow> Floor s \<le> Floor (ticks s xs)"
proof (induction xs arbitrary: s)
  case (Cons x xs)
  have "Floor s \<le> Floor (Tick s (fst x) (snd x))"
    using Cons.prems by (intro Floor_Tick_mono) simp
  also have "\<dots> \<le> Floor (ticks (Tick s (fst x) (snd x)) xs)"
    using Cons.prems by (intro Cons.IH guard_ok_Tick) simp_all
  finally show ?case by simp
qed simp

lemma Sealed_ticks: "Sealed s \<Longrightarrow> Sealed (ticks s xs)"
  by (induction xs arbitrary: s) (auto simp: Tick_fields)

text \<open>
  Two runs that agree on the monotonic readings reach the same trusted time, whatever their
  realtime clocks and tolerances say.
\<close>

definition mono_agree :: "Clock_Sample \<times> Trusted_Time \<Rightarrow> Clock_Sample \<times> Trusted_Time \<Rightarrow> bool" where
  "mono_agree x y \<longleftrightarrow> Mono (fst x) = Mono (fst y) \<and> Boot_Changed (fst x) = Boot_Changed (fst y)"

lemma Floor_ticks_agree:
  "list_all2 mono_agree xs ys \<Longrightarrow> Floor s = Floor s' \<Longrightarrow> Last_Mono s = Last_Mono s' \<Longrightarrow>
     Floor (ticks s xs) = Floor (ticks s' ys)"
proof (induction xs ys arbitrary: s s' rule: list_all2_induct)
  case (Cons x xs y ys)
  have "Floor (Tick s (fst x) (snd x)) = Floor (Tick s' (fst y) (snd y))"
    using Cons by (simp add: Tick_fields Advanced_Floor_def Mono_Delta_def mono_agree_def)
  moreover have "Last_Mono (Tick s (fst x) (snd x)) = Last_Mono (Tick s' (fst y) (snd y))"
    using Cons by (simp add: Tick_fields mono_agree_def)
  ultimately show ?case using Cons.IH by simp
qed simp

text \<open>Trusted time advances by at most what the monotonic clock elapsed over the run.\<close>

primrec elapsed :: "Guard_State \<Rightarrow> (Clock_Sample \<times> Trusted_Time) list \<Rightarrow> nat" where
  "elapsed s [] = 0"
| "elapsed s (x # xs) = Mono_Delta s (fst x) + elapsed (Tick s (fst x) (snd x)) xs"

lemma Floor_ticks_bound: "Floor (ticks s xs) \<le> Floor s + elapsed s xs"
proof (induction xs arbitrary: s)
  case (Cons x xs)
  have "Floor (ticks (Tick s (fst x) (snd x)) xs) \<le>
      Floor (Tick s (fst x) (snd x)) + elapsed (Tick s (fst x) (snd x)) xs"
    by (rule Cons.IH)
  with Floor_Tick_bound [of s "fst x" "snd x"] show ?case by simp
qed simp

section \<open>Properties\<close>



text \<open>
  The realtime clock cannot move trusted time: two runs with the same monotonic readings and
  boot changes reach the same trusted time, whatever their realtime clocks and tolerances say.
\<close>

lemma trusted_time_ignores_realtime:
  assumes "list_all2 mono_agree xs ys"
  shows "Floor (ticks s xs) = Floor (ticks s ys)"
  using Floor_ticks_agree [OF assms, of s s] by simp

end
