(* ===== verification/Audit_Chain.thy ===== *)
theory Audit_Chain
  imports Retention
begin

text \<open>
  The append-only audit chain of the trusted core,
  \<open>src/trusted_core/src/dezhan-trusted_core-audit.ads\<close> and \<open>.adb\<close>.  The hash function is the
  parameter \<open>sha256\<close> (\<open>Dezhan.Trusted_Core.Hashing\<close>); the fixed 89-byte layout that is hashed is
  modelled byte by byte.

  The Ada proof assumes that equal hashes bind equal fields.  Here the injectivity of the layout
  is proved, so that tamper evidence rests on collision freedom of \<open>sha256\<close> alone, and it is
  stated for whole chains: the hash of the last entry determines every entry before it.
\<close>

type_synonym byte = "8 word"
type_synonym Digest = "byte list"

definition Natural_Last :: nat where
  "Natural_Last = 2 ^ 31 - 1"

datatype Audit_Event = Genesis | Lock_Created | Retention_Extended | Delete_Denied
  | Delete_Allowed | Clock_Anomaly | Seal_Engaged | Legal_Hold_Set | Legal_Hold_Released
  | Object_Quarantined

definition Zero_Digest :: Digest where
  "Zero_Digest = replicate 32 0"

record Audit_Entry =
  Seq :: nat
  Time :: Trusted_Time
  Kind :: Audit_Event
  Subject :: Digest
  Detail :: Trusted_Time
  Prev_Hash :: Digest
  Hash :: Digest

text \<open>\<open>Audit_Event'Pos\<close>.\<close>

primrec Event_Pos :: "Audit_Event \<Rightarrow> byte" where
  "Event_Pos Genesis = 0"
| "Event_Pos Lock_Created = 1"
| "Event_Pos Retention_Extended = 2"
| "Event_Pos Delete_Denied = 3"
| "Event_Pos Delete_Allowed = 4"
| "Event_Pos Clock_Anomaly = 5"
| "Event_Pos Seal_Engaged = 6"
| "Event_Pos Legal_Hold_Set = 7"
| "Event_Pos Legal_Hold_Released = 8"
| "Event_Pos Object_Quarantined = 9"

text \<open>\<open>Put64\<close>: eight bytes, most significant first.\<close>

primrec be_bytes :: "nat \<Rightarrow> nat \<Rightarrow> byte list" where
  "be_bytes 0 v = []"
| "be_bytes (Suc n) v = word_of_nat (v div 256 ^ n) # be_bytes n v"

definition Put64 :: "nat \<Rightarrow> byte list" where
  "Put64 v = be_bytes 8 v"

definition serialize :: "nat \<Rightarrow> Trusted_Time \<Rightarrow> Audit_Event \<Rightarrow> Digest \<Rightarrow> Trusted_Time \<Rightarrow> Digest \<Rightarrow> byte list" where
  "serialize seq time kind subject detail prev =
     Put64 seq @ Put64 time @ [Event_Pos kind] @ subject @ Put64 detail @ prev"

definition Hash_Of ::
  "(byte list \<Rightarrow> Digest) \<Rightarrow> nat \<Rightarrow> Trusted_Time \<Rightarrow> Audit_Event \<Rightarrow> Digest \<Rightarrow> Trusted_Time \<Rightarrow> Digest \<Rightarrow> Digest" where
  "Hash_Of sha256 seq time kind subject detail prev =
     sha256 (serialize seq time kind subject detail prev)"

definition Compute_Hash :: "(byte list \<Rightarrow> Digest) \<Rightarrow> Audit_Entry \<Rightarrow> Digest" where
  "Compute_Hash sha256 e =
     Hash_Of sha256 (Seq e) (Time e) (Kind e) (Subject e) (Detail e) (Prev_Hash e)"

definition Self_Consistent :: "(byte list \<Rightarrow> Digest) \<Rightarrow> Audit_Entry \<Rightarrow> bool" where
  "Self_Consistent sha256 e = (Hash e = Compute_Hash sha256 e)"

definition Hashed_Fields_Eq :: "Audit_Entry \<Rightarrow> Audit_Entry \<Rightarrow> bool" where
  "Hashed_Fields_Eq a b = (Seq a = Seq b \<and> Time a = Time b \<and> Kind a = Kind b \<and>
     Subject a = Subject b \<and> Detail a = Detail b \<and> Prev_Hash a = Prev_Hash b)"

definition Is_Genesis :: "(byte list \<Rightarrow> Digest) \<Rightarrow> Audit_Entry \<Rightarrow> bool" where
  "Is_Genesis sha256 e = (Seq e = 0 \<and> Kind e = Genesis \<and> Prev_Hash e = Zero_Digest \<and>
     Hash e = Compute_Hash sha256 e)"

definition Links_To :: "(byte list \<Rightarrow> Digest) \<Rightarrow> Audit_Entry \<Rightarrow> Audit_Entry \<Rightarrow> bool" where
  "Links_To sha256 e p = (Seq e = Seq p + 1 \<and> Prev_Hash e = Hash p \<and> Hash e = Compute_Hash sha256 e)"

definition Genesis_Entry :: "(byte list \<Rightarrow> Digest) \<Rightarrow> Trusted_Time \<Rightarrow> Audit_Entry" where
  "Genesis_Entry sha256 time =
    (let e = \<lparr>Seq = 0, Time = time, Kind = Genesis, Subject = Zero_Digest, Detail = 0,
              Prev_Hash = Zero_Digest, Hash = Zero_Digest\<rparr>
     in e\<lparr>Hash := Compute_Hash sha256 e\<rparr>)"

text \<open>\<open>Append\<close>; its precondition is \<open>Prev.Seq < Natural'Last\<close>.\<close>

definition Append ::
  "(byte list \<Rightarrow> Digest) \<Rightarrow> Audit_Entry \<Rightarrow> Trusted_Time \<Rightarrow> Audit_Event \<Rightarrow> Digest \<Rightarrow> Trusted_Time \<Rightarrow> Audit_Entry" where
  "Append sha256 prev time kind subject detail =
    (let e = \<lparr>Seq = Seq prev + 1, Time = time, Kind = kind, Subject = subject, Detail = detail,
              Prev_Hash = Hash prev, Hash = Zero_Digest\<rparr>
     in e\<lparr>Hash := Compute_Hash sha256 e\<rparr>)"

fun verify_links :: "(byte list \<Rightarrow> Digest) \<Rightarrow> Audit_Entry list \<Rightarrow> bool" where
  "verify_links sha256 (p # e # c) =
     (if Seq p = Natural_Last then False
      else if \<not> Links_To sha256 e p then False
      else verify_links sha256 (e # c))"
| "verify_links sha256 c = True"

definition Verify_Chain :: "(byte list \<Rightarrow> Digest) \<Rightarrow> Audit_Entry list \<Rightarrow> bool" where
  "Verify_Chain sha256 c =
     (if c = [] then False
      else if \<not> Is_Genesis sha256 (hd c) then False
      else verify_links sha256 c)"

section \<open>The layout is injective\<close>

lemma length_be_bytes [simp]: "length (be_bytes n v) = n"
  by (induction n) simp_all

lemma be_bytes_inj: "be_bytes n v = be_bytes n w \<Longrightarrow> v mod 256 ^ n = w mod 256 ^ n"
proof (induction n)
  case (Suc n)
  from Suc.prems have "(word_of_nat (v div 256 ^ n) :: byte) = word_of_nat (w div 256 ^ n)"
    and tl: "be_bytes n v = be_bytes n w" by simp_all
  then have "(v div 256 ^ n) mod 256 = (w div 256 ^ n) mod 256"
    by (auto dest!: arg_cong [where f = unat] simp: unat_of_nat)
  moreover note Suc.IH [OF tl]
  ultimately show ?case
    by (metis mod_mult2_eq power_Suc2)
qed simp

lemma Put64_inj: "Put64 v = Put64 w \<Longrightarrow> v \<le> Time_Last \<Longrightarrow> w \<le> Time_Last \<Longrightarrow> v = w"
  using be_bytes_inj [of 8 v w] by (simp add: Put64_def Time_Last_def)

lemma length_Put64 [simp]: "length (Put64 v) = 8"
  by (simp add: Put64_def)

lemma Event_Pos_inj: "Event_Pos a = Event_Pos b \<Longrightarrow> a = b"
  by (cases a; cases b) simp_all

text \<open>The ranges of the Ada types: what every entry satisfies.\<close>

definition entry_ok :: "Audit_Entry \<Rightarrow> bool" where
  "entry_ok e \<longleftrightarrow> Seq e \<le> Natural_Last \<and> Time e \<le> Time_Last \<and> Detail e \<le> Time_Last \<and>
     length (Subject e) = 32 \<and> length (Prev_Hash e) = 32"

lemma serialize_inj:
  assumes "serialize (Seq a) (Time a) (Kind a) (Subject a) (Detail a) (Prev_Hash a) =
      serialize (Seq b) (Time b) (Kind b) (Subject b) (Detail b) (Prev_Hash b)"
    and ok: "entry_ok a" "entry_ok b"
  shows "Hashed_Fields_Eq a b"
proof -
  have "Natural_Last \<le> Time_Last" by (simp add: Natural_Last_def Time_Last_def)
  with ok assms(1) show ?thesis
    by (auto simp: serialize_def entry_ok_def Hashed_Fields_Eq_def
        intro: Put64_inj Event_Pos_inj)
qed

section \<open>Chains\<close>

lemma verify_links_snoc:
  "verify_links sha256 (c @ [p, e]) =
     (verify_links sha256 (c @ [p]) \<and> Seq p \<noteq> Natural_Last \<and> Links_To sha256 e p)"
proof (induction c)
  case (Cons a c)
  then show ?case by (cases c) auto
qed auto

lemma Verify_Chain_single [simp]:
  "Verify_Chain sha256 [e] = Is_Genesis sha256 e" "\<not> Verify_Chain sha256 []"
  by (simp_all add: Verify_Chain_def)

lemma Verify_Chain_snoc:
  assumes "c \<noteq> []"
  shows "Verify_Chain sha256 (c @ [e]) =
     (Verify_Chain sha256 c \<and> Seq (last c) \<noteq> Natural_Last \<and> Links_To sha256 e (last c))"
proof -
  from assms obtain d p where "c = d @ [p]" by (cases c rule: rev_exhaust) auto
  then show ?thesis
    using verify_links_snoc [of sha256 d p e] by (auto simp: Verify_Chain_def hd_append)
qed

lemma Append_links: "Links_To sha256 (Append sha256 p t k su d) p"
  by (simp add: Links_To_def Append_def Let_def Compute_Hash_def)

lemma Verify_Chain_Append:
  assumes "Verify_Chain sha256 c" and "Seq (last c) < Natural_Last"
  shows "Verify_Chain sha256 (c @ [Append sha256 (last c) t k su d])"
proof -
  from assms(1) have "c \<noteq> []" by (auto simp: Verify_Chain_def)
  with assms show ?thesis by (simp add: Verify_Chain_snoc Append_links)
qed

lemma Verify_Chain_consistent:
  "Verify_Chain sha256 c \<Longrightarrow> Hash (last c) = Compute_Hash sha256 (last c)"
proof (cases c rule: rev_exhaust)
  case (snoc d e)
  then show "Verify_Chain sha256 c \<Longrightarrow> ?thesis"
    by (cases "d = []") (auto simp: Is_Genesis_def Verify_Chain_snoc Links_To_def)
qed simp

lemma Verify_Chain_Seq: "Verify_Chain sha256 c \<Longrightarrow> Seq (last c) = length c - 1"
proof (induction c rule: rev_induct)
  case (snoc e c)
  then show ?case
    by (cases "c = []") (auto simp: Is_Genesis_def Verify_Chain_snoc Links_To_def)
qed simp

text \<open>Collision freedom of the hash function on the byte strings of two chains.\<close>

definition binds :: "(byte list \<Rightarrow> Digest) \<Rightarrow> Audit_Entry list \<Rightarrow> Audit_Entry list \<Rightarrow> bool" where
  "binds sha256 c c' \<longleftrightarrow> (\<forall>a\<in>set c. \<forall>b\<in>set c'.
     Compute_Hash sha256 a = Compute_Hash sha256 b \<longrightarrow>
       serialize (Seq a) (Time a) (Kind a) (Subject a) (Detail a) (Prev_Hash a) =
       serialize (Seq b) (Time b) (Kind b) (Subject b) (Detail b) (Prev_Hash b))"

lemma entry_eqI:
  "Hashed_Fields_Eq a b \<Longrightarrow> Hash a = Hash b \<Longrightarrow> a = (b :: Audit_Entry)"
  by (cases a; cases b) (simp add: Hashed_Fields_Eq_def)

lemma chain_determined:
  assumes "Verify_Chain sha256 c" "Verify_Chain sha256 c'"
    and "list_all entry_ok c" "list_all entry_ok c'" and "binds sha256 c c'"
    and "Hash (last c) = Hash (last c')"
  shows "c = c'"
  using assms
proof (induction c arbitrary: c' rule: rev_induct)
  case Nil
  then show ?case by (simp add: Verify_Chain_def)
next
  case (snoc e c)
  from snoc.prems(2) obtain d e' where c': "c' = d @ [e']"
    by (cases c' rule: rev_exhaust) (auto simp: Verify_Chain_def)
  have "Compute_Hash sha256 e = Compute_Hash sha256 e'"
    using snoc.prems c' Verify_Chain_consistent by (metis last_snoc)
  then have "Hashed_Fields_Eq e e'"
    using snoc.prems c' by (intro serialize_inj) (auto simp: binds_def)
  with snoc.prems c' have ee: "e = e'" by (intro entry_eqI) simp_all
  have len: "length c = length d"
    using Verify_Chain_Seq [OF snoc.prems(1)] Verify_Chain_Seq [OF snoc.prems(2)] c' ee by simp
  show ?case
  proof (cases "c = []")
    case True
    with len c' ee show ?thesis by simp
  next
    case False
    with len have "d \<noteq> []" by auto
    note sn = Verify_Chain_snoc [OF False, of sha256 e] Verify_Chain_snoc [OF this, of sha256 e']
    have "Hash (last c) = Hash (last d)"
      using snoc.prems(1,2) c' sn ee by (simp add: Links_To_def)
    with snoc.prems c' sn have "c = d"
      by (intro snoc.IH) (auto simp: binds_def)
    with c' ee show ?thesis by simp
  qed
qed

section \<open>Properties\<close>

text \<open>
  C21: The head of the audit chain is tamper evident: of two different chains that both verify,
  the last hashes differ, however the chains differ (an entry edited, dropped, inserted or
  reordered anywhere), as long as the hash function has no collision among their entries.
\<close>

theorem audit_head_determines_chain:
  assumes "Verify_Chain sha256 c" "Verify_Chain sha256 c'"
    and "list_all entry_ok c" "list_all entry_ok c'" and "binds sha256 c c'" and "c \<noteq> c'"
  shows "Hash (last c) \<noteq> Hash (last c')"
  using chain_determined [OF assms(1-5)] assms(6) by blast

text \<open>A digest that keeps one byte of the sequence number, for evaluation.\<close>

definition seq_digest :: "byte list \<Rightarrow> Digest" where
  "seq_digest bs = replicate 31 0 @ [bs ! 7]"

theorem audit_head_determines_chain_witness:
  "Hash (Genesis_Entry seq_digest 0) \<noteq>
     Hash (Append seq_digest (Genesis_Entry seq_digest 0) 3 Seal_Engaged Zero_Digest 3)"
proof -
  let ?g = "Genesis_Entry seq_digest 0"
  let ?a = "Append seq_digest ?g 3 Seal_Engaged Zero_Digest 3"
  have "be_bytes (Suc m) n ! m = word_of_nat n" for m n by (induction m) simp_all
  from this [of 7] have seq: "Put64 n ! 7 = word_of_nat n" for n by (simp add: Put64_def)
  have hash: "Compute_Hash seq_digest e = replicate 31 0 @ [word_of_nat (Seq e)]" for e
    by (simp add: Compute_Hash_def Hash_Of_def serialize_def seq_digest_def nth_append seq)
  have g: "Verify_Chain seq_digest [?g]"
    by (simp add: Is_Genesis_def Genesis_Entry_def Let_def Compute_Hash_def)
  have s: "Seq ?g = 0" "Seq ?a = 1"
    by (simp_all add: Genesis_Entry_def Append_def Let_def)
  have v: "Verify_Chain seq_digest ([?g] @ [?a])"
    using g s by (subst Verify_Chain_snoc) (simp_all add: Append_links Natural_Last_def)
  have ok: "list_all entry_ok [?g]" "list_all entry_ok [?g, ?a]"
    by (simp_all add: entry_ok_def Genesis_Entry_def Append_def Let_def Zero_Digest_def Natural_Last_def
        Time_Last_def hash)
  have b: "binds seq_digest [?g] [?g, ?a]"
    using s by (simp add: binds_def hash)
  from audit_head_determines_chain [OF g v [simplified] ok b] show ?thesis by simp
qed

end
