(* ===== verification/Vault.thy ===== *)
theory Vault
  imports Clock_Guard Audit_Chain Go_Strings "HOL-Library.AList"
begin

text \<open>
  The vault, \<open>src/vault/src/dezhan-vault.adb\<close>: the object index with its retention locks, the
  buckets, trusted time, the audit log and the operator modes.  Each operation is an action on
  the vault's state that may raise an Ada exception, with the effects that precede the raise
  kept.

  Parameters (\<open>vault_env\<close>): the content-addressed store \<open>Dezhan.Storage.Cas\<close> (\<open>cas_Put\<close>,
  \<open>cas_Get\<close> over its own state), the hash function, the order in which an
  \<open>Indefinite_Hashed_Maps\<close> container is iterated (\<open>rank\<close> gives each key of the container its
  position, so that any permutation of the keys is possible), and the contents of uninitialised
  storage.
  The journal and snapshot writes of the operations are in \<open>Vault_Persist\<close> and \<open>Vault_Journal\<close>, the operations on
  versions in \<open>Vault_Versions\<close>.
\<close>

datatype ada_exn = Not_Found | Invalid_Mode | Vault_Sealed | Egress_Denied | Sync_Closed
  | Object_Quarantined_Exn | Auth_Failed | Bucket_Exists_Error | Bucket_Not_Empty
  | Object_Too_Large | No_Such_Upload | Constraint_Error | Cas_Error string

record 'd vault_env =
  cas_Put :: "bytes \<Rightarrow> 'd \<Rightarrow> (ada_exn + string) \<times> 'd"
  cas_Get :: "string \<Rightarrow> 'd \<Rightarrow> ada_exn + bytes"
  sha256 :: "byte list \<Rightarrow> Digest"
  rank :: "string list \<Rightarrow> string \<Rightarrow> nat"
  uninit :: "nat \<Rightarrow> bytes"

record Meta =
  Id :: string
  Lock :: Retention_Lock
  Composite :: bool
  Quarantined :: bool
  Size :: nat
  User_Meta :: string

record Version_Entry =
  Vid :: string
  Ver_Id :: string
  Ver_Size :: nat
  Ver_Meta :: string
  Deleted :: bool

record 'd vault =
  Clock :: Guard_State
  Started :: bool
  Op_Sealed :: bool
  Last_Boot :: string
  Ingest_Only :: bool
  Sync_Shut :: bool
  Index :: "(string \<times> Meta) list"
  Log :: "Audit_Entry list"
  Buckets :: "(string \<times> bool) list"
  Versioned :: "(string \<times> bool) list"
  Versions :: "(string \<times> Version_Entry list) list"
  Ver_Seq :: nat
  Store :: 'd

definition Clock_Tolerance :: Trusted_Time where
  "Clock_Tolerance = 2"

text \<open>
  A container is an association list: \<open>lookup\<close> is \<open>Contains\<close> and \<open>Element\<close>, \<^const>\<open>AList.update\<close>
  is \<open>Include\<close> and \<open>Replace\<close>, \<^const>\<open>AList.delete\<close> is \<open>Delete\<close>, \<open>keys_of\<close> are its keys.
\<close>

definition keys_of :: "('k \<times> 'v) list \<Rightarrow> 'k list" where
  "keys_of m = remdups (map fst m)"

abbreviation lookup :: "('k \<times> 'v) list \<Rightarrow> 'k \<Rightarrow> 'v option" where
  "lookup \<equiv> map_of"

text \<open>
  \<open>Trusted_Time'Value\<close> on a plain decimal numeral; \<open>vi\<close> is what the attribute makes of any other text
  (underscores, bases, exponents, blanks), \<^term>\<open>None\<close> being \<open>Constraint_Error\<close>.
\<close>

definition Time_Value :: "(string \<Rightarrow> Trusted_Time option) \<Rightarrow> string \<Rightarrow> Trusted_Time option" where
  "Time_Value vi s = (if s \<noteq> [] \<and> list_all is_digit s
     then (if nat_of_digits s \<le> Time_Last then Some (nat_of_digits s) else None) else vi s)"

text \<open>\<open>Natural'Value\<close>: the same syntax, a smaller range.\<close>

definition Natural_Value :: "(string \<Rightarrow> Trusted_Time option) \<Rightarrow> string \<Rightarrow> nat option" where
  "Natural_Value vi s = (case Time_Value vi s of
     Some n \<Rightarrow> if n \<le> Natural_Last then Some n else None | None \<Rightarrow> None)"

definition Read_Only :: "'d vault \<Rightarrow> bool" where
  "Read_Only v = Op_Sealed v"

definition Check_Ingest :: "('d vault, ada_exn, unit) io" where
  "Check_Ingest = (\<lambda>v. if Op_Sealed v then io_throw Vault_Sealed v
     else if Sync_Shut v then io_throw Sync_Closed v else io_return () v)"

definition Name_Digest :: "'d vault_env \<Rightarrow> string \<Rightarrow> Digest" where
  "Name_Digest env name = sha256 env (map of_char name)"

definition Add_Audit ::
  "'d vault_env \<Rightarrow> Audit_Event \<Rightarrow> Digest \<Rightarrow> Trusted_Time \<Rightarrow> ('d vault, ada_exn, unit) io" where
  "Add_Audit env kind subject detail = (\<lambda>v.
     if Log v = [] \<or> Seq (last (Log v)) = Natural_Last then io_throw Constraint_Error v
     else io_modify (\<lambda>v. v\<lparr>Log := Log v @
       [Append (sha256 env) (last (Log v)) (Now (Clock v)) kind subject detail]\<rparr>) v)"

section \<open>Storing and reading objects\<close>

definition Part_Size :: nat where "Part_Size = 900000"
definition Max_Single :: nat where "Max_Single = 2000000"

text \<open>\<open>Put\<close> of the store, on the vault's state.\<close>

definition store_put :: "'d vault_env \<Rightarrow> bytes \<Rightarrow> ('d vault, ada_exn, string) io" where
  "store_put env data = (\<lambda>v. case cas_Put env data (Store v) of
       (r, d) \<Rightarrow> Some (r, v\<lparr>Store := d\<rparr>))"

primrec store_parts :: "'d vault_env \<Rightarrow> bytes list \<Rightarrow> ('d vault, ada_exn, bytes) io" where
  "store_parts env [] = io_return []"
| "store_parts env (p # ps) = io_bind (store_put env p) (\<lambda>pid.
     io_bind (store_parts env ps) (\<lambda>rest. io_return (pid @ rest)))"

definition parts_of :: "bytes \<Rightarrow> bytes list" where
  "parts_of data = map (\<lambda>p. take Part_Size (drop (p * Part_Size) data))
     [0 ..< (length data + Part_Size - 1) div Part_Size]"

definition Store_Composite :: "'d vault_env \<Rightarrow> bytes \<Rightarrow> ('d vault, ada_exn, string) io" where
  "Store_Composite env data = io_bind (store_parts env (parts_of data)) (store_put env)"

definition store_object :: "'d vault_env \<Rightarrow> bytes \<Rightarrow> ('d vault, ada_exn, bool \<times> string) io" where
  "store_object env data =
     (if length data \<le> Max_Single then
        io_try (store_put env data)
          (\<lambda>e. if e = Object_Too_Large
             then io_bind (Store_Composite env data) (\<lambda>i. io_return (True, i)) else io_throw e)
          (\<lambda>i. io_return (False, i))
      else io_bind (Store_Composite env data) (\<lambda>i. io_return (True, i)))"

definition Put_Object ::
  "'d vault_env \<Rightarrow> string \<Rightarrow> bytes \<Rightarrow> Lock_Mode \<Rightarrow> Trusted_Time \<Rightarrow> string \<Rightarrow>
     ('d vault, ada_exn, unit) io" where
  "Put_Object env name data mode retain_for user_meta =
    io_bind Check_Ingest (\<lambda>_.
    if mode = Unlocked then io_throw Invalid_Mode else
    io_bind (io_gets (\<lambda>v. Now (Clock v))) (\<lambda>at_time.
    if at_time + retain_for > Time_Last then io_throw Constraint_Error else
    let lock = Create_Lock mode (at_time + retain_for) at_time in
    io_bind (store_object env data) (\<lambda>(comp, obj_id).
    io_bind (io_modify (\<lambda>v. v\<lparr>Index := AList.update name
        \<lparr>Id = obj_id, Lock = lock, Composite = comp, Quarantined = False, Size = length data,
         User_Meta = user_meta\<rparr> (Index v)\<rparr>)) (\<lambda>_.
    Add_Audit env Lock_Created (Name_Digest env name) (at_time + retain_for)))))"

fun get_parts :: "'d vault_env \<Rightarrow> 'd \<Rightarrow> bytes \<Rightarrow> nat \<Rightarrow> ada_exn + bytes" where
  "get_parts env d ids 0 = Inr []"
| "get_parts env d ids (Suc n) = (case cas_Get env (take 64 ids) d of
       Inl e \<Rightarrow> Inl e
     | Inr part \<Rightarrow> (case get_parts env d (drop 64 ids) n of
           Inl e \<Rightarrow> Inl e
         | Inr rest \<Rightarrow> Inr (part @ rest)))"

definition read_object :: "'d vault_env \<Rightarrow> 'd \<Rightarrow> Meta \<Rightarrow> ada_exn + bytes" where
  "read_object env d m =
     (if \<not> Composite m then cas_Get env (Id m) d
      else (case cas_Get env (Id m) d of
          Inl e \<Rightarrow> Inl e
        | Inr ids \<Rightarrow> (case get_parts env d ids (length ids div 64) of
              Inl e \<Rightarrow> Inl e
            | Inr r \<Rightarrow> if length r > Size m then Inl Constraint_Error
                else Inr (r @ take (Size m - length r) (uninit env (Size m - length r))))))"

definition Get_Object :: "'d vault_env \<Rightarrow> string \<Rightarrow> ('d vault, ada_exn, bytes) io" where
  "Get_Object env name = (\<lambda>v.
     if Ingest_Only v then io_throw Egress_Denied v
     else (case lookup (Index v) name of
         None \<Rightarrow> io_throw Not_Found v
       | Some m \<Rightarrow> if Quarantined m then io_throw Object_Quarantined_Exn v
           else (case read_object env (Store v) m of
               Inl e \<Rightarrow> io_throw e v
             | Inr r \<Rightarrow> io_return r v)))"

definition Contains :: "'d vault \<Rightarrow> string \<Rightarrow> bool" where
  "Contains v name = (lookup (Index v) name \<noteq> None)"

definition Object_Count :: "'d vault \<Rightarrow> nat" where
  "Object_Count v = length (keys_of (Index v))"

definition Object_Etag :: "'d vault \<Rightarrow> string \<Rightarrow> string" where
  "Object_Etag v name = (case lookup (Index v) name of None \<Rightarrow> [] | Some m \<Rightarrow> Id m)"

text \<open>The names in the container's iteration order (the source joins them with line feeds).\<close>

definition Object_Names :: "'d vault_env \<Rightarrow> 'd vault \<Rightarrow> string list" where
  "Object_Names env v = (let ks = keys_of (Index v) in sort_key (rank env ks) ks)"

definition Object_Size :: "'d vault \<Rightarrow> string \<Rightarrow> nat" where
  "Object_Size v name = (case lookup (Index v) name of None \<Rightarrow> 0 | Some m \<Rightarrow> Size m)"

definition Object_Deletable :: "'d vault \<Rightarrow> string \<Rightarrow> bool" where
  "Object_Deletable v name = (case lookup (Index v) name of
       None \<Rightarrow> False
     | Some m \<Rightarrow> Can_Delete (Lock m) (Now (Clock v)) \<lparr>Bypass_Governance = False\<rparr>)"

section \<open>Buckets\<close>

definition Create_Bucket :: "string \<Rightarrow> bool \<Rightarrow> ('d vault, ada_exn, unit) io" where
  "Create_Bucket name object_lock = io_bind Check_Ingest (\<lambda>_ v.
     if lookup (Buckets v) name \<noteq> None then io_throw Bucket_Exists_Error v
     else io_modify (\<lambda>v. v\<lparr>Buckets := AList.update name object_lock (Buckets v)\<rparr>) v)"

definition Bucket_Exists :: "'d vault \<Rightarrow> string \<Rightarrow> bool" where
  "Bucket_Exists v name = (lookup (Buckets v) name \<noteq> None)"

definition Bucket_Object_Lock :: "'d vault \<Rightarrow> string \<Rightarrow> bool" where
  "Bucket_Object_Lock v name = (lookup (Buckets v) name = Some True)"

definition Delete_Bucket :: "string \<Rightarrow> ('d vault, ada_exn, unit) io" where
  "Delete_Bucket name = io_bind Check_Ingest (\<lambda>_ v.
     if lookup (Buckets v) name = None then io_throw Not_Found v
     else if list_ex (\<lambda>k. HasPrefix k (name @ ''/'')) (keys_of (Index v)) then
       io_throw Bucket_Not_Empty v
     else io_modify (\<lambda>v. v\<lparr>Buckets := AList.delete name (Buckets v)\<rparr>) v)"

definition Set_Versioning :: "string \<Rightarrow> bool \<Rightarrow> ('d vault, ada_exn, unit) io" where
  "Set_Versioning bucket on = io_modify (\<lambda>v. v\<lparr>Versioned := AList.update bucket on (Versioned v)\<rparr>)"

definition Bucket_Versioned :: "'d vault \<Rightarrow> string \<Rightarrow> bool" where
  "Bucket_Versioned v bucket = (lookup (Versioned v) bucket = Some True)"

section \<open>Deletion\<close>

definition Delete_Object ::
  "'d vault_env \<Rightarrow> string \<Rightarrow> bool \<Rightarrow> ('d vault, ada_exn, bool) io" where
  "Delete_Object env name bypass = (\<lambda>v.
     if Read_Only v then io_throw Vault_Sealed v
     else (case lookup (Index v) name of
         None \<Rightarrow> io_throw Not_Found v
       | Some m \<Rightarrow>
          (let at_time = Now (Clock v) in
           if Can_Delete (Lock m) at_time \<lparr>Bypass_Governance = bypass\<rparr> then
             io_bind (io_modify (\<lambda>v. v\<lparr>Index := AList.delete name (Index v)\<rparr>)) (\<lambda>_.
             io_bind (Add_Audit env Delete_Allowed (Name_Digest env name) at_time) (\<lambda>_.
             io_return True)) v
           else
             io_bind (Add_Audit env Delete_Denied (Name_Digest env name) at_time) (\<lambda>_.
             io_return False) v)))"

text \<open>A plain DELETE on a versioned bucket; the result is the marker's version id.\<close>

definition Delete_Marker :: "'d vault_env \<Rightarrow> string \<Rightarrow> ('d vault, ada_exn, string) io" where
  "Delete_Marker env name = (\<lambda>v.
     if Ver_Seq v = Natural_Last then io_throw Constraint_Error v
     else
      (let vid = digits_of_nat (Ver_Seq v + 1);
           vec = (case lookup (Versions v) name of None \<Rightarrow> [] | Some xs \<Rightarrow> xs);
           e = \<lparr>Vid = vid, Ver_Id = replicate 64 (CHR ''0''), Ver_Size = 0, Ver_Meta = [], Deleted = True\<rparr>
       in io_bind (io_modify (\<lambda>v. v\<lparr>Ver_Seq := Ver_Seq v + 1,
              Versions := AList.update name (vec @ [e]) (Versions v),
              Index := AList.delete name (Index v)\<rparr>)) (\<lambda>_.
          io_bind (Add_Audit env Delete_Allowed (Name_Digest env name) (Now (Clock v))) (\<lambda>_.
          io_return vid)) v))"

section \<open>Time, holds and modes\<close>

definition Tick_Clock ::
  "'d vault_env \<Rightarrow> Trusted_Time \<Rightarrow> Trusted_Time \<Rightarrow> bool \<Rightarrow> ('d vault, ada_exn, unit) io" where
  "Tick_Clock env mono_t realtime boot_changed = (\<lambda>v.
     let sample = \<lparr>Mono = mono_t, Realtime = realtime, Boot_Changed = boot_changed\<rparr> in
     if \<not> Started v then io_modify (\<lambda>v. v\<lparr>Clock := Init sample, Started := True\<rparr>) v
     else
       let before = Is_Sealed (Clock v) in
       io_bind (io_modify (\<lambda>v. v\<lparr>Clock := Tick (Clock v) sample Clock_Tolerance\<rparr>)) (\<lambda>_ v.
         io_when (Is_Sealed (Clock v) \<and> \<not> before)
           (Add_Audit env Seal_Engaged Zero_Digest (Now (Clock v))) v) v)"

definition Tick_From_System ::
  "'d vault_env \<Rightarrow> Clock_Sample \<Rightarrow> string \<Rightarrow> ('d vault, ada_exn, unit) io" where
  "Tick_From_System env sample boot = (\<lambda>v.
     let old = Last_Boot v; rebooted = (old \<noteq> [] \<and> old \<noteq> boot) in
     io_bind (io_modify (\<lambda>v. v\<lparr>Last_Boot := boot\<rparr>)) (\<lambda>_.
       Tick_Clock env (Mono sample) (Realtime sample) rebooted) v)"

definition Set_Legal_Hold :: "'d vault_env \<Rightarrow> string \<Rightarrow> ('d vault, ada_exn, unit) io" where
  "Set_Legal_Hold env name = (\<lambda>v. case lookup (Index v) name of
       None \<Rightarrow> io_throw Not_Found v
     | Some m \<Rightarrow>
         io_bind (io_modify (\<lambda>v. v\<lparr>Index := AList.update name (m\<lparr>Lock := Set_Hold (Lock m)\<rparr>) (Index v)\<rparr>)) (\<lambda>_ v.
           Add_Audit env Legal_Hold_Set (Name_Digest env name) (Now (Clock v)) v) v)"

definition Release_Legal_Hold :: "'d vault_env \<Rightarrow> string \<Rightarrow> ('d vault, ada_exn, unit) io" where
  "Release_Legal_Hold env name = (\<lambda>v. case lookup (Index v) name of
       None \<Rightarrow> io_throw Not_Found v
     | Some m \<Rightarrow>
         io_bind (io_modify (\<lambda>v. v\<lparr>Index := AList.update name (m\<lparr>Lock := Release_Hold (Lock m)\<rparr>) (Index v)\<rparr>)) (\<lambda>_ v.
           Add_Audit env Legal_Hold_Released (Name_Digest env name) (Now (Clock v)) v) v)"

definition Seal :: "'d vault_env \<Rightarrow> ('d vault, ada_exn, unit) io" where
  "Seal env = (\<lambda>v. if \<not> Op_Sealed v then
       io_bind (io_modify (\<lambda>v. v\<lparr>Op_Sealed := True\<rparr>)) (\<lambda>_ v.
         Add_Audit env Seal_Engaged Zero_Digest (Now (Clock v)) v) v
     else io_return () v)"

definition Set_One_Way_Ingest :: "bool \<Rightarrow> ('d vault, ada_exn, unit) io" where
  "Set_One_Way_Ingest enabled = io_modify (\<lambda>v. v\<lparr>Ingest_Only := enabled\<rparr>)"

definition Open_Sync_Window :: "('d vault, ada_exn, unit) io" where
  "Open_Sync_Window = io_modify (\<lambda>v. v\<lparr>Sync_Shut := False\<rparr>)"

definition Close_Sync_Window :: "('d vault, ada_exn, unit) io" where
  "Close_Sync_Window = io_modify (\<lambda>v. v\<lparr>Sync_Shut := True\<rparr>)"

definition Vault_Sealed_State :: "'d vault \<Rightarrow> bool" where
  "Vault_Sealed_State v = (Op_Sealed v \<or> Is_Sealed (Clock v))"

definition Audit_Verifies :: "'d vault_env \<Rightarrow> 'd vault \<Rightarrow> bool" where
  "Audit_Verifies env v = Verify_Chain (sha256 env) (Log v)"

section \<open>What each operation leaves alone\<close>

lemma io_wp_Add_Audit [io_rules]:
  "io_wp (Add_Audit env kind subject detail) Q E v =
     (if Log v = [] \<or> Seq (last (Log v)) = Natural_Last then E Constraint_Error v
      else Q () (v\<lparr>Log := Log v @
        [Append (sha256 env) (last (Log v)) (Now (Clock v)) kind subject detail]\<rparr>))"
  by (simp add: Add_Audit_def io_wp_def io_throw_def io_modify_def)

lemma io_wp_Check_Ingest [io_rules]:
  "io_wp Check_Ingest Q E v =
     (if Op_Sealed v then E Vault_Sealed v else if Sync_Shut v then E Sync_Closed v else Q () v)"
  by (simp add: Check_Ingest_def io_wp_def io_throw_def io_return_def)

text \<open>
  An action that reads and writes the content store only: its result and the new store are a
  function of the old store.
\<close>

definition on_store :: "('d vault, ada_exn, 'a) io \<Rightarrow> bool" where
  "on_store m \<longleftrightarrow> (\<exists>g. \<forall>v. m v = Some (fst (g (Store v)), v\<lparr>Store := snd (g (Store v))\<rparr>))"

lemma on_storeI: "(\<And>v. m v = Some (fst (g (Store v)), v\<lparr>Store := snd (g (Store v))\<rparr>)) \<Longrightarrow> on_store m"
  by (auto simp: on_store_def)

lemma on_store_return [simp]: "on_store (io_return x)"
  by (rule on_storeI [where g = "\<lambda>d. (Inr x, d)"]) (simp add: io_return_def)

lemma on_store_throw [simp]: "on_store (io_throw e)"
  by (rule on_storeI [where g = "\<lambda>d. (Inl e, d)"]) (simp add: io_throw_def)

lemma on_store_put [simp]: "on_store (store_put env data)"
  by (rule on_storeI [where g = "cas_Put env data"]) (simp add: store_put_def split: prod.split)

lemma on_store_try:
  assumes "on_store m" and "\<And>e. on_store (h e)" and "\<And>x. on_store (k x)"
  shows "on_store (io_try m h k)"
proof -
  from assms obtain f g j where "\<And>v. m v = Some (fst (f (Store v)), v\<lparr>Store := snd (f (Store v))\<rparr>)"
    and "\<And>e v. h e v = Some (fst (g e (Store v)), v\<lparr>Store := snd (g e (Store v))\<rparr>)"
    and "\<And>x v. k x v = Some (fst (j x (Store v)), v\<lparr>Store := snd (j x (Store v))\<rparr>)"
    unfolding on_store_def by metis
  then show ?thesis
    by (intro on_storeI [where g = "\<lambda>d. case fst (f d) of
         Inl e \<Rightarrow> g e (snd (f d)) | Inr x \<Rightarrow> j x (snd (f d))"])
      (simp add: io_try_def split: sum.split)
qed

lemma on_store_bind:
  "on_store m \<Longrightarrow> (\<And>x. on_store (k x)) \<Longrightarrow> on_store (io_bind m k)"
  by (simp add: io_bind_def on_store_try)

lemma on_store_parts [simp]: "on_store (store_parts env ps)"
  by (induction ps) (simp_all add: on_store_return on_store_bind on_store_put)

lemma on_store_object: "on_store (store_object env data)"
  by (simp add: store_object_def Store_Composite_def on_store_return on_store_throw on_store_try
      on_store_bind on_store_put on_store_parts)

lemma on_store_wp:
  assumes "on_store m" and "\<And>x d. m v = Some (Inr x, v\<lparr>Store := d\<rparr>) \<Longrightarrow> Q x (v\<lparr>Store := d\<rparr>)"
    and "\<And>e d. m v = Some (Inl e, v\<lparr>Store := d\<rparr>) \<Longrightarrow> E e (v\<lparr>Store := d\<rparr>)"
  shows "io_wp m Q E v"
proof -
  from assms(1) obtain r d where "m v = Some (r, v\<lparr>Store := d\<rparr>)"
    unfolding on_store_def by blast
  then show ?thesis using assms(2) [of "projr r" d] assms(3) [of "projl r" d]
    by (cases r) (simp_all add: io_wp_def)
qed

lemma on_store_cong:
  assumes "on_store m" and "Store v = Store v'"
  shows "map_option fst (m v) = map_option fst (m v')"
  using assms by (auto simp: on_store_def)

text \<open>The clock part of a reading: the guard state, whether it has started, and the boot id.\<close>

definition tick_view ::
  "Guard_State \<times> bool \<times> string \<Rightarrow> Clock_Sample \<times> string \<Rightarrow> Guard_State \<times> bool \<times> string" where
  "tick_view vw x = (case vw of (c, started, old) \<Rightarrow>
     let sample = \<lparr>Mono = Mono (fst x), Realtime = Realtime (fst x),
                   Boot_Changed = (old \<noteq> [] \<and> old \<noteq> snd x)\<rparr>
     in (if started then Tick c sample Clock_Tolerance else Init sample, True, snd x))"

definition clock_view :: "'d vault \<Rightarrow> Guard_State \<times> bool \<times> string" where
  "clock_view v = (Clock v, Started v, Last_Boot v)"

definition ticked :: "'d vault \<Rightarrow> Clock_Sample \<times> string \<Rightarrow> 'd vault \<Rightarrow> bool" where
  "ticked v x v' \<longleftrightarrow> clock_view v' = tick_view (clock_view v) x \<and>
     v' = v\<lparr>Clock := Clock v', Started := Started v', Last_Boot := Last_Boot v', Log := Log v'\<rparr>"

lemma ticked_same:
  assumes "ticked v x v'"
  shows "Index v' = Index v" "Buckets v' = Buckets v" "Versioned v' = Versioned v"
    "Store v' = Store v" "Ingest_Only v' = Ingest_Only v"
proof -
  have eq: "v' = v\<lparr>Clock := Clock v', Started := Started v', Last_Boot := Last_Boot v', Log := Log v'\<rparr>"
    using assms unfolding ticked_def by (rule conjunct2)
  show "Index v' = Index v" by (subst eq) simp
  show "Buckets v' = Buckets v" by (subst eq) simp
  show "Versioned v' = Versioned v" by (subst eq) simp
  show "Store v' = Store v" by (subst eq) simp
  show "Ingest_Only v' = Ingest_Only v" by (subst eq) simp
qed

lemma Tick_From_System_ticked:
  "io_wp (Tick_From_System env (fst x) (snd x)) (\<lambda>_. ticked v x) (\<lambda>_. ticked v x) v"
  by (simp add: Tick_From_System_def Tick_Clock_def Add_Audit_def Let_def io_defs io_wp_def ticked_def
      clock_view_def tick_view_def)

section \<open>The audit log only grows, and verifies\<close>

definition logged :: "'d vault_env \<Rightarrow> 'd vault \<Rightarrow> 'd vault \<Rightarrow> bool" where
  "logged env v v' \<longleftrightarrow> (\<exists>es. Log v' = Log v @ es) \<and> (Audit_Verifies env v \<longrightarrow> Audit_Verifies env v')"

lemma logged_same: "Log v' = Log v \<Longrightarrow> logged env v v'"
  by (simp add: logged_def Audit_Verifies_def)

lemma logged_trans: "logged env u v \<Longrightarrow> logged env v w \<Longrightarrow> logged env u w"
  by (auto simp: logged_def)

text \<open>Of an action's run at \<open>v\<close>: whatever it returns or raises, the log has only grown.\<close>

definition logs :: "'d vault_env \<Rightarrow> 'd vault \<Rightarrow> ((ada_exn + 'a) \<times> 'd vault) option \<Rightarrow> bool" where
  "logs env v r \<longleftrightarrow> (case r of None \<Rightarrow> True | Some (x, v') \<Rightarrow> logged env v v')"

lemma logs_return: "logs env v (io_return x v)"
  and logs_throw: "logs env v (io_throw e v)"
  and logs_gets: "logs env v (io_gets g v)"
  and logs_modify: "Log (f v) = Log v \<Longrightarrow> logs env v (io_modify f v)"
  by (simp_all add: logs_def io_defs logged_same)

lemma logs_try:
  assumes "logs env v (m v)" and "\<And>e v'. logs env v' (h e v')" and "\<And>x v'. logs env v' (k x v')"
  shows "logs env v (io_try m h k v)"
proof (cases "m v")
  case None
  then show ?thesis by (simp add: logs_def io_try_def)
next
  case (Some r)
  obtain x v1 where r: "r = (x, v1)" by fastforce
  with assms(1) Some have v1: "logged env v v1" by (simp add: logs_def)
  have run: "io_try m h k v = (case x of Inl e \<Rightarrow> h e v1 | Inr y \<Rightarrow> k y v1)"
    by (simp add: io_try_def Some r)
  have "logs env v1 (io_try m h k v)"
    unfolding run using assms(2,3) by (cases x) simp_all
  with v1 show ?thesis
    by (auto simp: logs_def split: option.splits intro: logged_trans)
qed

lemma logs_bind:
  "logs env v (m v) \<Longrightarrow> (\<And>x v'. logs env v' (k x v')) \<Longrightarrow> logs env v (io_bind m k v)"
  unfolding io_bind_def by (rule logs_try) (auto intro: logs_throw)

lemma logs_when: "logs env v (m v) \<Longrightarrow> logs env v (io_when b m v)"
  by (simp add: io_when_def logs_return)

lemma logs_store_object: "logs env v (store_object env' data v)"
  using on_store_object [of env' data] by (auto simp: on_store_def logs_def intro!: logged_same)

lemma logs_Check_Ingest: "logs env v (Check_Ingest v)"
  by (simp add: Check_Ingest_def logs_return logs_throw)

lemma logs_Add_Audit: "logs env v (Add_Audit env kind subject detail v)"
proof (cases "Audit_Verifies env v \<and> Seq (last (Log v)) \<noteq> Natural_Last")
  case True
  then have "Seq (last (Log v)) = length (Log v) - 1" "Log v \<noteq> []"
    by (auto simp: Audit_Verifies_def Verify_Chain_Seq)
  then show ?thesis using True
    by (simp add: Add_Audit_def logs_def logged_def io_defs Audit_Verifies_def Verify_Chain_snoc Append_links)
qed (auto simp: Add_Audit_def logs_def logged_def io_defs)

lemmas logs_rules = logs_return logs_throw logs_gets logs_modify logs_try logs_bind logs_when
  logs_store_object logs_Check_Ingest logs_Add_Audit

lemma logs_Put_Object: "logs env v (Put_Object env name data mode retain_for user_meta v)"
  unfolding Put_Object_def Let_def
  by (auto intro!: logs_rules split: prod.split if_split)

lemma logs_Get_Object: "logs env v (Get_Object env name v)"
  unfolding Get_Object_def by (auto intro!: logs_rules split: option.split sum.split)

lemma logs_Create_Bucket: "logs env v (Create_Bucket name lk v)"
  unfolding Create_Bucket_def by (auto intro!: logs_rules)

lemma logs_Delete_Bucket: "logs env v (Delete_Bucket name v)"
  unfolding Delete_Bucket_def by (auto intro!: logs_rules)

lemma logs_Delete_Object: "logs env v (Delete_Object env name bypass v)"
  unfolding Delete_Object_def Let_def by (auto intro!: logs_rules split: option.split)

lemma logs_Delete_Marker: "logs env v (Delete_Marker env name v)"
  unfolding Delete_Marker_def Let_def by (auto intro!: logs_rules)

lemma logs_Tick_Clock: "logs env v (Tick_Clock env m r b v)"
  unfolding Tick_Clock_def Let_def by (auto intro!: logs_rules)

lemma logs_Tick_From_System: "logs env v (Tick_From_System env sample boot v)"
  unfolding Tick_From_System_def Let_def by (auto intro!: logs_rules logs_Tick_Clock)

lemma logs_holds:
  "logs env v (Set_Legal_Hold env name v)" "logs env v (Release_Legal_Hold env name v)"
  unfolding Set_Legal_Hold_def Release_Legal_Hold_def by (auto intro!: logs_rules split: option.split)

lemma logs_Seal: "logs env v (Seal env v)"
  unfolding Seal_def by (auto intro!: logs_rules)

text \<open>A step of the vault: any operation with any arguments, whatever its outcome.\<close>

inductive vault_step :: "'d vault_env \<Rightarrow> 'd vault \<Rightarrow> 'd vault \<Rightarrow> bool" for env where
  put: "Put_Object env n d m r u v = Some (x, v') \<Longrightarrow> vault_step env v v'"
| get: "Get_Object env n v = Some (y, v') \<Longrightarrow> vault_step env v v'"
| create: "Create_Bucket n l v = Some (z, v') \<Longrightarrow> vault_step env v v'"
| drop_bucket: "Delete_Bucket n v = Some (z, v') \<Longrightarrow> vault_step env v v'"
| versioning: "Set_Versioning n on v = Some (z, v') \<Longrightarrow> vault_step env v v'"
| delete: "Delete_Object env n by v = Some (w, v') \<Longrightarrow> vault_step env v v'"
| marker: "Delete_Marker env n v = Some (i, v') \<Longrightarrow> vault_step env v v'"
| tick: "Tick_From_System env smp boot v = Some (z, v') \<Longrightarrow> vault_step env v v'"
| hold: "Set_Legal_Hold env n v = Some (z, v') \<Longrightarrow> vault_step env v v'"
| release: "Release_Legal_Hold env n v = Some (z, v') \<Longrightarrow> vault_step env v v'"
| seal: "Seal env v = Some (z, v') \<Longrightarrow> vault_step env v v'"
| ingest: "Set_One_Way_Ingest on v = Some (z, v') \<Longrightarrow> vault_step env v v'"
| open_sync: "Open_Sync_Window v = Some (z, v') \<Longrightarrow> vault_step env v v'"
| close_sync: "Close_Sync_Window v = Some (z, v') \<Longrightarrow> vault_step env v v'"

lemma logs_modes:
  "logs env v (Set_Versioning n on v)" "logs env v (Set_One_Way_Ingest on v)"
  "logs env v (Open_Sync_Window v)" "logs env v (Close_Sync_Window v)"
  unfolding Set_Versioning_def Set_One_Way_Ingest_def Open_Sync_Window_def Close_Sync_Window_def
  by (auto intro!: logs_rules)

lemma logs_run: "logs env v (Some (x, v')) \<Longrightarrow> logged env v v'"
  by (simp add: logs_def)

lemmas logs_operations = logs_Put_Object logs_Get_Object logs_Create_Bucket logs_Delete_Bucket
  logs_Delete_Object logs_Delete_Marker logs_Tick_From_System logs_holds logs_Seal logs_modes

lemma vault_step_logged: "vault_step env v v' \<Longrightarrow> logged env v v'"
  by (cases rule: vault_step.cases, assumption) (metis logs_run logs_operations)+

lemma vault_steps_logged: "(vault_step env)\<^sup>*\<^sup>* v v' \<Longrightarrow> logged env v v'"
  by (induction rule: rtranclp_induct) (auto intro: logged_same logged_trans dest: vault_step_logged)

section \<open>Storing and reading back\<close>

text \<open>
  What the vault relies on of the content-addressed store: an id is 64 characters, a stored
  object is read back under its id, and storing never changes what another id reads.
\<close>

definition cas_spec :: "'d vault_env \<Rightarrow> bool" where
  "cas_spec env \<longleftrightarrow>
     (\<forall>data d i d'. cas_Put env data d = (Inr i, d') \<longrightarrow> length i = 64 \<and> cas_Get env i d' = Inr data) \<and>
     (\<forall>data d r d' j x. cas_Put env data d = (r, d') \<longrightarrow> cas_Get env j d = Inr x \<longrightarrow> cas_Get env j d' = Inr x)"

definition preserves :: "'d vault_env \<Rightarrow> 'd \<Rightarrow> 'd \<Rightarrow> bool" where
  "preserves env d d' \<longleftrightarrow> (\<forall>j x. cas_Get env j d = Inr x \<longrightarrow> cas_Get env j d' = Inr x)"

lemma preserves_refl [simp]: "preserves env d d"
  by (simp add: preserves_def)

lemma preserves_trans: "preserves env d d' \<Longrightarrow> preserves env d' d'' \<Longrightarrow> preserves env d d''"
  by (simp add: preserves_def)

lemma store_put_spec:
  assumes "cas_spec env" and "store_put env data v = Some (r, v')"
  shows "preserves env (Store v) (Store v')"
    and "r = Inr i \<Longrightarrow> length i = 64 \<and> cas_Get env i (Store v') = Inr data"
  using assms by (auto simp: cas_spec_def preserves_def store_put_def split: prod.splits)

lemma get_parts_preserves:
  "preserves env d d' \<Longrightarrow> get_parts env d ids n = Inr r \<Longrightarrow> get_parts env d' ids n = Inr r"
proof (induction n arbitrary: ids r)
  case (Suc n)
  then obtain part rest where "cas_Get env (take 64 ids) d = Inr part"
    "get_parts env d (drop 64 ids) n = Inr rest" "r = part @ rest"
    by (auto split: sum.splits)
  with Suc show ?case by (simp add: preserves_def)
qed simp

lemma store_parts_spec:
  assumes "cas_spec env" and "store_parts env ps v = Some (Inr ids, v')"
  shows "length ids = 64 * length ps \<and> get_parts env (Store v') ids (length ps) = Inr (concat ps) \<and>
     preserves env (Store v) (Store v')"
  using assms(2)
proof (induction ps arbitrary: v ids)
  case Nil
  then show ?case by (simp add: io_return_def)
next
  case (Cons p ps)
  then obtain pid v1 rest where st: "store_put env p v = Some (Inr pid, v1)"
    "store_parts env ps v1 = Some (Inr rest, v')" "ids = pid @ rest"
    by (auto simp: io_defs split: option.splits sum.splits prod.splits)
  note p = store_put_spec [OF assms(1) st(1)] and ps = Cons.IH [OF st(2)]
  from p have pid: "length pid = 64" "cas_Get env pid (Store v1) = Inr p" by simp_all
  with ps have "cas_Get env pid (Store v') = Inr p" by (simp add: preserves_def)
  with pid ps p(1) st(3) show ?case by (auto intro: preserves_trans)
qed

lemma concat_parts_of: "concat (parts_of data) = data"
proof -
  have "concat (map (\<lambda>p. take n (drop (p * n) xs)) [0 ..< k]) = take (k * n) xs" for n k and xs :: bytes
    by (induction k) (simp_all add: take_add [symmetric] add.commute [of n])
  moreover have "length data \<le> (length data + Part_Size - 1) div Part_Size * Part_Size"
    using div_mult_mod_eq [of "length data + Part_Size - 1" Part_Size]
      mod_less_divisor [of Part_Size "length data + Part_Size - 1"] by (simp add: Part_Size_def)
  ultimately show ?thesis by (simp add: parts_of_def)
qed

lemma Store_Composite_spec:
  assumes "cas_spec env" and "Store_Composite env data v = Some (Inr i, v')"
  shows "\<exists>ids. cas_Get env i (Store v') = Inr ids \<and>
     get_parts env (Store v') ids (length ids div 64) = Inr data \<and> preserves env (Store v) (Store v')"
proof -
  from assms(2) obtain ids v1 where st: "store_parts env (parts_of data) v = Some (Inr ids, v1)"
    "store_put env ids v1 = Some (Inr i, v')"
    by (auto simp: Store_Composite_def io_defs split: option.splits sum.splits prod.splits)
  note a = store_parts_spec [OF assms(1) st(1)] and b = store_put_spec [OF assms(1) st(2)]
  from a have "get_parts env (Store v1) ids (length ids div 64) = Inr data"
    by (simp add: concat_parts_of)
  with b(1) have "get_parts env (Store v') ids (length ids div 64) = Inr data"
    by (rule get_parts_preserves)
  with a b show ?thesis by (auto intro: preserves_trans)
qed

lemma store_put_preserves:
  "cas_spec env \<Longrightarrow> store_put env data v = Some (r, v') \<Longrightarrow> preserves env (Store v) (Store v')"
  by (rule store_put_spec(1))

text \<open>What \<open>store_object\<close> returns is enough to read the object back.\<close>

lemma store_object_spec:
  assumes "cas_spec env" and "store_object env data v = Some (Inr (c, i), v')"
    and "Composite m = c" "Id m = i" "Size m = length data"
  shows "read_object env (Store v') m = Inr data" and "preserves env (Store v) (Store v')"
proof -
  have comp: "read_object env (Store v') m = Inr data \<and> preserves env (Store v1) (Store v')"
    if "Store_Composite env data v1 = Some (Inr i, v')" "c" for v1
    using Store_Composite_spec [OF assms(1) that(1)] that(2) assms(3-5)
    by (auto simp: read_object_def)
  have single: "read_object env (Store v') m = Inr data" if "store_put env data v = Some (Inr i, v')" "\<not> c"
    using store_put_spec(2) [OF assms(1) that(1)] that(2) assms(3,4) by (simp add: read_object_def)
  have "(store_put env data v = Some (Inr i, v') \<and> \<not> c) \<or>
      (\<exists>v1. preserves env (Store v) (Store v1) \<and> Store_Composite env data v1 = Some (Inr i, v') \<and> c)"
  proof (cases "length data \<le> Max_Single")
    case False
    with assms(2) have "Store_Composite env data v = Some (Inr i, v') \<and> c"
      by (auto simp: store_object_def io_bind_Inr io_return_def)
    then show ?thesis by (intro disjI2 exI [of _ v]) simp
  next
    case True
    obtain r v1 where p: "store_put env data v = Some (r, v1)"
      by (cases "cas_Put env data (Store v)") (simp add: store_put_def)
    from True assms(2) p have "(r = Inr i \<and> v1 = v' \<and> \<not> c) \<or>
        (Store_Composite env data v1 = Some (Inr i, v') \<and> c)"
      by (cases r) (auto simp: store_object_def io_try_Some io_bind_Inr io_return_def io_throw_def
          split: if_splits)
    then show ?thesis
    proof
      assume "r = Inr i \<and> v1 = v' \<and> \<not> c"
      with p show ?thesis by simp
    next
      assume "Store_Composite env data v1 = Some (Inr i, v') \<and> c"
      with store_put_preserves [OF assms(1) p] show ?thesis by (intro disjI2 exI [of _ v1]) simp
    qed
  qed
  then show "read_object env (Store v') m = Inr data" "preserves env (Store v) (Store v')"
    using comp single store_put_preserves [OF assms(1)] by (blast intro: preserves_trans)+
qed

lemma Put_Object_run:
  assumes "Put_Object env name data mode retain_for um v = Some (Inr (), v')"
  shows "\<exists>c i v1 l.
     store_object env data v = Some (Inr (c, i), v1) \<and>
     v' = v1\<lparr>Index := AList.update name
        \<lparr>Id = i, Lock = Create_Lock mode (Now (Clock v) + retain_for) (Now (Clock v)), Composite = c,
         Quarantined = False, Size = length data, User_Meta = um\<rparr> (Index v1), Log := l\<rparr>"
  using assms
  by (auto simp: Put_Object_def Let_def io_bind_Inr io_gets_def io_modify_def
      Check_Ingest_def Add_Audit_def io_return_def io_throw_def split: if_splits prod.splits)

lemma store_object_frame:
  assumes "store_object env data v = Some (r, v')"
  shows "\<exists>d. v' = v\<lparr>Store := d\<rparr>"
proof -
  obtain g where "\<And>v. store_object env data v = Some (fst (g (Store v)), v\<lparr>Store := snd (g (Store v))\<rparr>)"
    using on_store_object [of env data] unfolding on_store_def by blast
  with assms show ?thesis by auto
qed

lemma Put_Object_readback:
  assumes "cas_spec env" and "Put_Object env name data mode retain_for um v = Some (Inr (), v')"
    and "\<not> Ingest_Only v"
  shows "Get_Object env name v' = Some (Inr data, v')"
proof -
  obtain c i v1 l where st: "store_object env data v = Some (Inr (c, i), v1)"
    and v': "v' = v1\<lparr>Index := AList.update name
        \<lparr>Id = i, Lock = Create_Lock mode (Now (Clock v) + retain_for) (Now (Clock v)), Composite = c,
         Quarantined = False, Size = length data, User_Meta = um\<rparr> (Index v1), Log := l\<rparr>"
    using Put_Object_run [OF assms(2)] by blast
  obtain d where "v1 = v\<lparr>Store := d\<rparr>" using store_object_frame [OF st] by blast
  with assms(3) v' have "\<not> Ingest_Only v'" by simp
  moreover have "read_object env (Store v1)
      \<lparr>Id = i, Lock = Create_Lock mode (Now (Clock v) + retain_for) (Now (Clock v)), Composite = c,
       Quarantined = False, Size = length data, User_Meta = um\<rparr> = Inr data"
    by (rule store_object_spec(1) [OF assms(1) st]) simp_all
  ultimately show ?thesis
    by (simp add: Get_Object_def v' update_conv' io_return_def)
qed

lemma Put_Object_modes:
  assumes "Put_Object env name data mode retain_for um v = Some (Inr (), v')"
  shows "Ingest_Only v' = Ingest_Only v"
  using Put_Object_run [OF assms] store_object_frame by fastforce

text \<open>No operation gets stuck.\<close>

lemma store_object_None: "store_object env data v \<noteq> None"
  using on_store_object [of env data] by (auto simp: on_store_def)

lemma Put_Object_None: "Put_Object env name data mode retain_for um v \<noteq> None"
  by (rule notI)
    (auto simp: Put_Object_def Let_def io_bind_None store_object_None Check_Ingest_def Add_Audit_def
      io_gets_def io_modify_def io_throw_def io_return_def split: prod.splits if_splits)

lemma Delete_Object_None: "Delete_Object env name bypass v \<noteq> None"
  by (rule notI)
    (auto simp: Delete_Object_def Let_def io_bind_None Add_Audit_def io_modify_def io_throw_def io_return_def
      split: option.splits if_splits)

lemma Get_Object_None: "Get_Object env name v \<noteq> None"
  by (rule notI)
    (auto simp: Get_Object_def io_throw_def io_return_def split: option.splits sum.splits if_splits)

lemma Delete_Object_kept:
  assumes "map_of (Index v) name = Some m"
    and "\<not> Can_Delete (Lock m) (Now (Clock v)) \<lparr>Bypass_Governance = bypass\<rparr>"
  shows "\<exists>r l. Delete_Object env name bypass v = Some (r, v\<lparr>Log := l\<rparr>) \<and> r \<noteq> Inr True \<and>
     (\<not> Op_Sealed v \<and> Log v \<noteq> [] \<and> Seq (last (Log v)) \<noteq> Natural_Last \<longrightarrow>
        r = Inr False \<and> Kind (last l) = Delete_Denied \<and> Subject (last l) = Name_Digest env name)"
  using assms
  by (simp add: Delete_Object_def Read_Only_def Add_Audit_def io_defs Let_def)
    (auto intro: exI [of _ "Log v"] simp: Append_def Let_def)

lemma read_object_preserves:
  "preserves env d d' \<Longrightarrow> read_object env d m = Inr r \<Longrightarrow> read_object env d' m = Inr r"
  by (auto simp: read_object_def preserves_def get_parts_preserves [unfolded preserves_def]
      split: if_splits sum.splits)

text \<open>A store that numbers its objects, for evaluation on concrete inputs.\<close>

definition list_env :: "(string \<times> bytes) list vault_env" where
  "list_env = \<lparr>cas_Put = (\<lambda>data d. let i = replicate 64 (char_of (length d)) in
       if map_of d i = None then (Inr i, (i, data) # d) else (Inl (Cas_Error ''full''), d)),
     cas_Get = (\<lambda>i d. case map_of d i of None \<Rightarrow> Inl Not_Found | Some x \<Rightarrow> Inr x),
     sha256 = (\<lambda>bs. [of_nat (length bs)]), rank = (\<lambda>ks k. 0), uninit = (\<lambda>n. replicate n (CHR ''?''))\<rparr>"

definition empty_vault :: "(string \<times> bytes) list vault" where
  "empty_vault = \<lparr>Clock = Init \<lparr>Mono = 0, Realtime = 0, Boot_Changed = False\<rparr>, Started = False,
     Op_Sealed = False, Last_Boot = [], Ingest_Only = False, Sync_Shut = False, Index = [],
     Log = [Genesis_Entry (sha256 list_env) 0], Buckets = [], Versioned = [], Versions = [],
     Ver_Seq = 0, Store = []\<rparr>"

lemma cas_spec_list_env: "cas_spec list_env"
  by (auto simp: cas_spec_def list_env_def Let_def split: if_splits option.splits)

definition vault_a :: "(string \<times> bytes) list vault" where
  "vault_a = empty_vault\<lparr>Store := [(replicate 64 (char_of (0::nat)), ''hi'')],
     Index := [(''a'', \<lparr>Id = replicate 64 (char_of (0::nat)), Lock = Create_Lock Compliance 5 0,
        Composite = False, Quarantined = False, Size = 2, User_Meta = []\<rparr>)],
     Log := Log empty_vault @ [Append (sha256 list_env) (last (Log empty_vault)) 0 Lock_Created
        (Name_Digest list_env ''a'') 5]\<rparr>"

lemma Put_Object_empty_vault:
  "Put_Object list_env ''a'' ''hi'' Compliance 5 [] empty_vault = Some (Inr (), vault_a)"
  by (simp add: Put_Object_def Check_Ingest_def store_object_def store_put_def Add_Audit_def empty_vault_def
      vault_a_def list_env_def io_defs Init_def Now_def Time_Last_def Max_Single_def Genesis_Entry_def
      Natural_Last_def Let_def)

lemma Put_Object_vault_a:
  "\<exists>v'. Put_Object list_env ''b'' ''yo'' Governance 0 [] vault_a = Some (Inr (), v')"
  by (simp add: Put_Object_def Check_Ingest_def store_object_def store_put_def Add_Audit_def empty_vault_def
      vault_a_def list_env_def io_defs Init_def Now_def Time_Last_def Max_Single_def Genesis_Entry_def
      Natural_Last_def Let_def Append_def replicate_eq_replicate eq_char_of)

lemma Get_Object_vault_a: "Get_Object list_env ''a'' vault_a = Some (Inr ''hi'', vault_a)"
  by (simp add: Get_Object_def vault_a_def empty_vault_def read_object_def list_env_def io_return_def)

lemma Audit_Verifies_empty_vault: "Audit_Verifies list_env empty_vault"
  by (simp add: Audit_Verifies_def empty_vault_def Is_Genesis_def Genesis_Entry_def Let_def
      Compute_Hash_def)

section \<open>Properties\<close>

text \<open>
  What is stored is read back: after a successful \<open>Put_Object\<close> of any size (objects above
  two million bytes are split into parts and reassembled), and unless one-way ingest blocks
  reads, \<open>Get_Object\<close> returns exactly the bytes, provided the content store keeps its contract.
\<close>

lemma Put_Get_Object:
  assumes "cas_spec env" and "Put_Object env name data mode retain_for um v = Some (Inr (), v')"
    and "\<not> Ingest_Only v"
  shows "Get_Object env name v' = Some (Inr data, v')"
  using assms by (rule Put_Object_readback)

text \<open>
  Storing an object leaves every other object readable with the same bytes.
\<close>

lemma Put_Object_others:
  assumes "cas_spec env" and "Put_Object env name data mode retain_for um v = Some (Inr (), v')"
    and "name' \<noteq> name" and "Get_Object env name' v = Some (Inr r, v)"
  shows "Get_Object env name' v' = Some (Inr r, v')"
proof -
  obtain c i v1 l where st: "store_object env data v = Some (Inr (c, i), v1)"
    and v': "v' = v1\<lparr>Index := AList.update name
        \<lparr>Id = i, Lock = Create_Lock mode (Now (Clock v) + retain_for) (Now (Clock v)), Composite = c,
         Quarantined = False, Size = length data, User_Meta = um\<rparr> (Index v1), Log := l\<rparr>"
    using Put_Object_run [OF assms(2)] by blast
  obtain d where v1: "v1 = v\<lparr>Store := d\<rparr>" using store_object_frame [OF st] by blast
  from assms(4) obtain m where m: "map_of (Index v) name' = Some m" "\<not> Quarantined m"
    "read_object env (Store v) m = Inr r" "\<not> Ingest_Only v"
    by (auto simp: Get_Object_def io_defs split: if_splits option.splits sum.splits)
  have "preserves env (Store v) (Store v1)"
    by (rule store_object_spec(2) [OF assms(1) st, of "\<lparr>Id = i, Lock = undefined, Composite = c,
       Quarantined = False, Size = length data, User_Meta = um\<rparr>"]) simp_all
  from read_object_preserves [OF this m(3)] m assms(3) v' v1 show ?thesis
    by (simp add: Get_Object_def update_conv' io_return_def)
qed



text \<open>
  C8: A protected object cannot be deleted: while an object is under legal hold or inside a
  compliance retention, \<open>Delete_Object\<close> returns false or raises, with or without bypass, and the
  index, the buckets and the clock are as before; a vault with room in its log records the
  denial.
\<close>

theorem Delete_Object_protected:
  assumes "map_of (Index v) name = Some m"
    and "Legal_Hold (Lock m) \<or> Lock_Mode_Of (Lock m) = Compliance \<and> Now (Clock v) < Retain_Until (Lock m)"
  shows "\<exists>r l. Delete_Object env name bypass v = Some (r, v\<lparr>Log := l\<rparr>) \<and> r \<noteq> Inr True \<and>
     (\<not> Op_Sealed v \<and> Log v \<noteq> [] \<and> Seq (last (Log v)) \<noteq> Natural_Last \<longrightarrow>
        r = Inr False \<and> Kind (last l) = Delete_Denied \<and> Subject (last l) = Name_Digest env name)"
proof (rule Delete_Object_kept [OF assms(1)])
  show "\<not> Can_Delete (Lock m) (Now (Clock v)) \<lparr>Bypass_Governance = bypass\<rparr>"
    using assms(2) Can_Delete_held Can_Delete_compliance by blast
qed

theorem Delete_Object_protected_witness:
  "\<exists>l. Delete_Object list_env ''a'' True vault_a = Some (Inr False, vault_a\<lparr>Log := l\<rparr>)"
  using Delete_Object_protected [of vault_a "''a''" "\<lparr>Id = replicate 64 (char_of (0::nat)),
      Lock = Create_Lock Compliance 5 0, Composite = False, Quarantined = False, Size = 2,
      User_Meta = []\<rparr>" list_env True]
  by (auto simp: vault_a_def empty_vault_def Create_Lock_def Now_def Init_def Append_def Let_def
      Genesis_Entry_def Natural_Last_def)

text \<open>
  Storing over an existing name replaces its retention: a successful \<open>Put_Object\<close> leaves the
  name with the new object's lock, whatever lock the name had before (a compliance retention that
  is still running included), so the former object is gone before its retention ends.
\<close>

lemma Put_Object_replaces_lock:
  assumes "Put_Object env name data mode retain_for um v = Some (Inr (), v')"
  shows "\<exists>m. map_of (Index v') name = Some m \<and> Size m = length data \<and>
     Lock m = Create_Lock mode (Now (Clock v) + retain_for) (Now (Clock v))"
  using Put_Object_run [OF assms] by (auto simp: update_conv')

end
