(* ===== verification/Dezhan_S3.thy ===== *)
theory Dezhan_S3
  imports Vault S3_Api
begin

text \<open>
  The S3 routes of the server, \<open>Handle_S3\<close> and \<open>List_Objects_V2\<close> of
  \<open>src/server/src/dezhan_server.adb\<close>, that the CSI driver exercises: create, delete and list a
  bucket, delete and copy an object.  A request first advances trusted time from a clock reading
  (\<open>Handle\<close> calls \<open>Tick_From_System\<close>); the readings still to come are part of the server's state.
  Exceptions become the responses of \<open>Handle\<close>'s exception part.

  \<open>dezhan_client\<close> is the SDK client pointed at this server; \<open>Dezhan_Contract\<close> proves that it keeps
  the contracts \<open>s3_store\<close> and \<open>s3_worm\<close>, for every storage engine and every container order.
\<close>

section \<open>Responses\<close>

datatype resp = Ok | S3_Error string | Text_Error nat string | Dropped

text \<open>\<open>Handle\<close>'s exception part; an exception it does not name ends the connection.\<close>

fun exn_resp :: "ada_exn \<Rightarrow> resp" where
  "exn_resp Vault_Sealed = Text_Error 503 ''vault is sealed (read-only)''"
| "exn_resp Not_Found = Text_Error 404 ''no such object''"
| "exn_resp No_Such_Upload = Text_Error 404 ''no such upload''"
| "exn_resp Egress_Denied = Text_Error 403 ''reads are blocked (one-way ingest)''"
| "exn_resp Sync_Closed = Text_Error 409 ''sync window is closed''"
| "exn_resp Object_Quarantined_Exn = Text_Error 410 ''object quarantined: unrepairable data loss''"
| "exn_resp Auth_Failed = Text_Error 403 ''authentication failed (wrong key or tampering)''"
| "exn_resp Bucket_Not_Empty = Text_Error 409 ''bucket not empty''"
| "exn_resp Bucket_Exists_Error = Text_Error 409 ''bucket already exists''"
| "exn_resp e = Dropped"

section \<open>Handlers\<close>

definition reserved_buckets :: "string list" where
  "reserved_buckets = [''v'', ''ui'', ''admin'', ''metrics'', ''healthz'']"

definition s3_put_bucket :: "string \<Rightarrow> bool \<Rightarrow> ('d vault, ada_exn, resp) io" where
  "s3_put_bucket bucket lock_enabled = (\<lambda>v.
     if bucket \<in> set reserved_buckets then io_return (S3_Error ''InvalidBucketName'') v
     else if Bucket_Exists v bucket then io_return (S3_Error ''BucketAlreadyOwnedByYou'') v
     else io_bind (Create_Bucket bucket lock_enabled) (\<lambda>_. io_return Ok) v)"

definition s3_delete_bucket :: "string \<Rightarrow> ('d vault, ada_exn, resp) io" where
  "s3_delete_bucket bucket = io_bind (Delete_Bucket bucket) (\<lambda>_. io_return Ok)"

text \<open>
  \<open>List_Objects_V2\<close> without a delimiter: scan the names in container order, keep those of the
  bucket that match the prefix and are after the continuation token, up to \<open>mx\<close> of them.  The
  accumulator is the list of keys emitted and the \<open>Truncated\<close> flag.
\<close>

definition listed_key :: "string \<Rightarrow> string \<Rightarrow> string \<Rightarrow> string \<Rightarrow> string option" where
  "listed_key bucket pfx token nm =
    (let bprefix = bucket @ ''/'' in
     if length nm > length bprefix \<and> HasPrefix nm bprefix then
       (let k = drop (length bprefix) nm in
        if (pfx = [] \<or> HasPrefix k pfx) \<and> (token = [] \<or> k > token) then Some k else None)
     else None)"

primrec list_scan ::
  "string \<Rightarrow> string \<Rightarrow> string \<Rightarrow> nat \<Rightarrow> string list \<Rightarrow> string list \<times> bool \<Rightarrow> string list \<times> bool" where
  "list_scan bucket pfx token mx [] acc = acc"
| "list_scan bucket pfx token mx (nm # nms) acc =
     list_scan bucket pfx token mx nms
       (case listed_key bucket pfx token nm of
          None \<Rightarrow> acc
        | Some k \<Rightarrow> if length (fst acc) \<ge> mx then (fst acc, True) else (fst acc @ [k], snd acc))"

record list_result =
  lr_Contents :: "(string \<times> nat) list"
  lr_Next :: "string option"

definition List_Objects_V2 ::
  "'d vault_env \<Rightarrow> 'd vault \<Rightarrow> string \<Rightarrow> string \<Rightarrow> string \<Rightarrow> nat \<Rightarrow> list_result" where
  "List_Objects_V2 env v bucket pfx token mx =
    (let (ks, truncated) = list_scan bucket pfx token mx (Object_Names env v) ([], False)
     in \<lparr>lr_Contents = map (\<lambda>k. (k, Object_Size v (bucket @ ''/'' @ k))) ks,
         lr_Next = (if truncated then Some (if ks = [] then [] else last ks) else None)\<rparr>)"

definition s3_list ::
  "'d vault_env \<Rightarrow> string \<Rightarrow> string \<Rightarrow> ('d vault, ada_exn, resp + list_result) io" where
  "s3_list env bucket token = (\<lambda>v.
     if \<not> Bucket_Exists v bucket then io_return (Inl (S3_Error ''NoSuchBucket'')) v
     else io_return (Inr (List_Objects_V2 env v bucket [] token 1000)) v)"

definition s3_delete_object ::
  "'d vault_env \<Rightarrow> string \<Rightarrow> string \<Rightarrow> bool \<Rightarrow> ('d vault, ada_exn, resp) io" where
  "s3_delete_object env bucket key bypass = (\<lambda>v.
     let name = bucket @ ''/'' @ key in
     if \<not> Bucket_Exists v bucket then io_return (S3_Error ''NoSuchBucket'') v
     else if Bucket_Versioned v bucket then
       io_bind (Delete_Marker env name) (\<lambda>_. io_return Ok) v
     else if \<not> Contains v name then io_return Ok v
     else io_bind (Delete_Object env name bypass) (\<lambda>deleted.
       io_return (if deleted then Ok else S3_Error ''AccessDenied'')) v)"

text \<open>
  PUT of an object whose \<open>x-amz-copy-source\<close> is \<open>src\<close>.  \<open>retain\<close> and \<open>governance\<close> are the
  request's \<open>X-Dezhan-Retain\<close> and \<open>x-amz-object-lock-mode\<close> headers, used in lock-enabled
  buckets only.
\<close>

definition copy_source_name :: "string \<Rightarrow> string" where
  "copy_source_name src = (case src of c # rest \<Rightarrow> if c = CHR ''/'' then rest else src | [] \<Rightarrow> src)"

definition s3_copy_object ::
  "'d vault_env \<Rightarrow> string \<Rightarrow> string \<Rightarrow> string \<Rightarrow> Trusted_Time option \<Rightarrow> bool \<Rightarrow> string \<Rightarrow>
     ('d vault, ada_exn, resp) io" where
  "s3_copy_object env bucket key src retain governance meta = (\<lambda>v.
     let name = bucket @ ''/'' @ key;
         locked = Bucket_Object_Lock v bucket;
         mode = (if \<not> locked then Governance else if governance then Governance else Compliance);
         ret = (if \<not> locked then 0 else case retain of Some r \<Rightarrow> r | None \<Rightarrow> 3600)
     in if \<not> Bucket_Exists v bucket then io_return (S3_Error ''NoSuchBucket'') v
        else if locked \<and> Bucket_Exists v bucket \<and> Contains v name \<and> \<not> Object_Deletable v name then
          io_return (S3_Error ''AccessDenied'') v
        else io_bind (Get_Object env (copy_source_name src)) (\<lambda>bytes.
          io_bind (Put_Object env name bytes mode ret meta) (\<lambda>_. io_return Ok)) v)"

section \<open>Serving a request\<close>

record 'd server =
  Vlt :: "'d vault"
  Samples :: "(Clock_Sample \<times> string) list"

text \<open>The exception part of \<open>Handle\<close> around the clock reading and the handler.\<close>

definition serve ::
  "'d vault_env \<Rightarrow> ('d vault, ada_exn, 'r) io \<Rightarrow> 'd server \<Rightarrow> (resp + 'r) \<times> 'd server" where
  "serve env h s =
    (let (tick, rest) = (case Samples s of
           [] \<Rightarrow> (io_return (), [])
         | x # xs \<Rightarrow> (Tick_From_System env (fst x) (snd x), xs))
     in case io_bind tick (\<lambda>_. h) (Vlt s) of
          None \<Rightarrow> (Inl Dropped, s\<lparr>Samples := rest\<rparr>)
        | Some (Inl e, v) \<Rightarrow> (Inl (exn_resp e), s\<lparr>Vlt := v, Samples := rest\<rparr>)
        | Some (Inr r, v) \<Rightarrow> (Inr r, s\<lparr>Vlt := v, Samples := rest\<rparr>))"

section \<open>The SDK client of this server\<close>

text \<open>
  The SDK reads the error code of an S3 error document; any other failure is a generic error.
  It refuses an empty or slash-bearing bucket name and an empty key before sending.
\<close>

definition sdk_error :: "resp \<Rightarrow> s3_err option" where
  "sdk_error r = (case r of
       Ok \<Rightarrow> None
     | S3_Error c \<Rightarrow> Some (if c = ''BucketAlreadyOwnedByYou'' then BucketAlreadyOwnedByYou
         else if c = ''NoSuchBucket'' then NoSuchBucket else OtherS3 c)
     | Text_Error n t \<Rightarrow> Some (OtherS3 t)
     | Dropped \<Rightarrow> Some (OtherS3 ''connection closed''))"

definition valid_bucket :: "string \<Rightarrow> bool" where
  "valid_bucket b \<longleftrightarrow> b \<noteq> [] \<and> CHR ''/'' \<notin> set b"

definition request ::
  "'d vault_env \<Rightarrow> bool \<Rightarrow> ('d vault, ada_exn, resp) io \<Rightarrow> 'd server \<Rightarrow> s3_err option \<times> 'd server" where
  "request env valid h s =
     (if \<not> valid then (Some (OtherS3 ''invalid parameter''), s)
      else (case serve env h s of
          (Inl r, t) \<Rightarrow> (Some (case sdk_error r of Some e \<Rightarrow> e | None \<Rightarrow> OtherS3 []), t)
        | (Inr r, t) \<Rightarrow> (sdk_error r, t)))"

record paginator =
  pg_bucket :: string
  pg_first :: bool
  pg_token :: "string option"

definition dezhan_page ::
  "'d vault_env \<Rightarrow> paginator \<Rightarrow> 'd server \<Rightarrow> (s3_err + s3_object list) \<times> paginator \<times> 'd server" where
  "dezhan_page env p s =
     (if \<not> valid_bucket (pg_bucket p) then (Inl (OtherS3 ''invalid parameter''), p, s)
      else (case serve env (s3_list env (pg_bucket p) (aws_ToString (pg_token p))) s of
          (Inr (Inr l), t) \<Rightarrow>
            (Inr (map (\<lambda>(k, n). \<lparr>obj_Key = Some k, obj_Size = Some (of_nat n)\<rparr>) (lr_Contents l)),
             p\<lparr>pg_first := False, pg_token := lr_Next l\<rparr>, t)
        | (Inr (Inl r), t) \<Rightarrow> (Inl (case sdk_error r of Some e \<Rightarrow> e | None \<Rightarrow> OtherS3 []), p, t)
        | (Inl r, t) \<Rightarrow> (Inl (OtherS3 ''request failed''), p, t)))"

definition dezhan_client :: "'d vault_env \<Rightarrow> ('d server, paginator) s3_Client" where
  "dezhan_client env =
     \<lparr>sdk_CreateBucket = (\<lambda>b. request env (valid_bucket b) (s3_put_bucket b False)),
      sdk_DeleteBucket = (\<lambda>b. request env (valid_bucket b) (s3_delete_bucket b)),
      sdk_DeleteObject = (\<lambda>b k. request env (valid_bucket b \<and> k \<noteq> []) (s3_delete_object env b k False)),
      sdk_CopyObject = (\<lambda>b k cs. request env (valid_bucket b \<and> k \<noteq> [])
         (s3_copy_object env b k cs None False [])),
      sdk_NewPaginator = (\<lambda>b. \<lparr>pg_bucket = b, pg_first = True, pg_token = None\<rparr>),
      sdk_HasMorePages = (\<lambda>p. pg_first p \<or> (case pg_token p of None \<Rightarrow> False | Some t \<Rightarrow> t \<noteq> [])),
      sdk_NextPage = dezhan_page env\<rparr>"

section \<open>The bucket view of the vault\<close>

text \<open>What the S3 interface shows of an object: the stored content's id and its size.\<close>

definition entry_of :: "Meta \<Rightarrow> bool \<times> string \<times> nat" where
  "entry_of m = (Composite m, Id m, Size m)"

definition vault_bucket :: "'d vault \<Rightarrow> string \<Rightarrow> (string \<Rightarrow> (bool \<times> string \<times> nat) option) option" where
  "vault_bucket v b =
     (if valid_bucket b \<and> Bucket_Exists v b then
        Some (\<lambda>k. if k = [] then None else map_option entry_of (lookup (Index v) (b @ ''/'' @ k)))
      else None)"

abbreviation dezhan_buckets :: "'d server \<Rightarrow> string \<Rightarrow> (string \<Rightarrow> (bool \<times> string \<times> nat) option) option" where
  "dezhan_buckets s \<equiv> vault_bucket (Vlt s)"

definition dezhan_size :: "bool \<times> string \<times> nat \<Rightarrow> int64" where
  "dezhan_size e = of_nat (snd (snd e))"

text \<open>One page holds a bucket whole when it has at most a thousand objects.\<close>

definition dezhan_listable :: "(string \<Rightarrow> (bool \<times> string \<times> nat) option) \<Rightarrow> bool" where
  "dezhan_listable m \<longleftrightarrow> finite (dom m) \<and> card (dom m) \<le> 1000"

section \<open>What serving a request does\<close>

text \<open>The vault a handler starts from: the server's, after the clock reading.\<close>

definition advanced :: "'d server \<Rightarrow> 'd vault \<Rightarrow> bool" where
  "advanced s v \<longleftrightarrow> (case Samples s of [] \<Rightarrow> v = Vlt s | x # xs \<Rightarrow> ticked (Vlt s) x v)"

lemma advanced_same:
  assumes "advanced s v"
  shows "Index v = Index (Vlt s)" "Buckets v = Buckets (Vlt s)" "Versioned v = Versioned (Vlt s)"
    "Store v = Store (Vlt s)" "Ingest_Only v = Ingest_Only (Vlt s)"
  using assms by (auto simp: advanced_def ticked_same split: list.splits)

lemma serve_cases:
  assumes "serve env h s = (r, t)" and returns: "\<And>v. h v \<noteq> None"
  obtains (raised_by_tick) e where "r = Inl (exn_resp e)" "advanced s (Vlt t)" "Samples t = tl (Samples s)"
  | (raised) v e where "advanced s v" "h v = Some (Inl e, Vlt t)" "r = Inl (exn_resp e)"
      "Samples t = tl (Samples s)"
  | (answered) v x where "advanced s v" "h v = Some (Inr x, Vlt t)" "r = Inr x" "Samples t = tl (Samples s)"
proof (cases "Samples s")
  case Nil
  obtain y v' where h: "h (Vlt s) = Some (y, v')" using returns [of "Vlt s"] by auto
  have adv: "advanced s (Vlt s)" by (simp add: advanced_def Nil)
  show thesis
  proof (cases y)
    case (Inl e)
    with assms(1) h Nil show thesis
      by (intro raised [OF adv]) (auto simp: serve_def io_defs)
  next
    case (Inr x)
    with assms(1) h Nil show thesis
      by (intro answered [OF adv]) (auto simp: serve_def io_defs)
  qed
next
  case (Cons x xs)
  have tick: "io_wp (Tick_From_System env (fst x) (snd x)) (\<lambda>_. advanced s) (\<lambda>_. advanced s) (Vlt s)"
    by (rule io_wp_mono [OF Tick_From_System_ticked]) (simp_all add: advanced_def Cons)
  from io_wp_returns [OF this] obtain z v where z: "Tick_From_System env (fst x) (snd x) (Vlt s) = Some (z, v)"
    by blast
  with tick have adv: "advanced s v" by (cases z) (simp_all add: io_wp_def)
  show thesis
  proof (cases z)
    case (Inl e)
    with assms(1) z Cons adv show thesis
      by (intro raised_by_tick [of e]) (auto simp: serve_def io_defs)
  next
    case (Inr u)
    obtain y v' where h: "h v = Some (y, v')" using returns [of v] by auto
    show thesis
    proof (cases y)
      case (Inl e)
      with assms(1) h z Inr Cons show thesis
        by (intro raised [OF adv]) (auto simp: serve_def io_defs)
    next
      case (Inr w)
      with assms(1) h z \<open>z = Inr u\<close> Cons show thesis
        by (intro answered [OF adv]) (auto simp: serve_def io_defs)
    qed
  qed
qed

text \<open>An answer comes from the handler, run after the clock reading.\<close>

lemma serve_Inr:
  assumes "serve env h s = (Inr x, t)"
  shows "\<exists>v. advanced s v \<and> h v = Some (Inr x, Vlt t) \<and> Samples t = tl (Samples s)"
proof (cases "Samples s")
  case Nil
  with assms show ?thesis
    by (auto simp: serve_def advanced_def io_defs split: option.splits sum.splits prod.splits)
next
  case (Cons y ys)
  obtain z v where z: "Tick_From_System env (fst y) (snd y) (Vlt s) = Some (z, v)"
    using io_wp_returns [OF Tick_From_System_ticked] by blast
  with Tick_From_System_ticked [of env y "Vlt s"] have "advanced s v"
    by (cases z) (simp_all add: io_wp_def advanced_def Cons)
  with assms z Cons show ?thesis
    by (auto simp: serve_def io_defs split: option.splits sum.splits prod.splits)
qed

lemma serve_Nil:
  "Samples s = [] \<Longrightarrow> h (Vlt s) = Some (Inr x, v) \<Longrightarrow> serve env h s = (Inr x, s\<lparr>Vlt := v\<rparr>)"
  by (simp add: serve_def io_defs)

end
