(* ===== verification/Dezhan_Contract.thy ===== *)
theory Dezhan_Contract
  imports Dezhan_S3 Csi_Services
begin

text \<open>
  The server keeps the contracts \<open>s3_store\<close> and \<open>s3_worm\<close> that the CSI driver relies on: the
  laws are proved of \<open>dezhan_client\<close>, for every storage engine, hash function and container
  order, and the two locales are interpreted on it.

  A copy source is read as the server reads it (\<open>dezhan_source\<close>), which is not how the driver
  writes it: \<open>Csi_Dezhan\<close> draws the consequences.
\<close>

section \<open>Names\<close>

lemma bucket_key_inj:
  assumes "valid_bucket b" and "valid_bucket b'"
  shows "b @ CHR ''/'' # k = b' @ CHR ''/'' # k' \<longleftrightarrow> b = b' \<and> k = k'"
proof
  assume eq: "b @ CHR ''/'' # k = b' @ CHR ''/'' # k'"
  have "takeWhile (\<lambda>c. c \<noteq> CHR ''/'') (b @ CHR ''/'' # k) = b"
    using assms(1) by (subst takeWhile_append2) (auto simp: valid_bucket_def)
  moreover have "takeWhile (\<lambda>c. c \<noteq> CHR ''/'') (b' @ CHR ''/'' # k') = b'"
    using assms(2) by (subst takeWhile_append2) (auto simp: valid_bucket_def)
  ultimately have "b = b'" using eq by simp
  with eq show "b = b' \<and> k = k'" by simp
qed simp

section \<open>The bucket view under changes of the vault\<close>

lemma vault_bucket_cong:
  "Index v = Index v' \<Longrightarrow> Buckets v = Buckets v' \<Longrightarrow> vault_bucket v = vault_bucket v'"
  by (simp add: vault_bucket_def Bucket_Exists_def fun_eq_iff)

lemma vault_bucket_delete:
  assumes "valid_bucket b" and "map_of (Index v') = (map_of (Index v))(b @ CHR ''/'' # k := None)"
    and "Buckets v' = Buckets v"
  shows "vault_bucket v' = (vault_bucket v)(b := map_option (\<lambda>m. m(k := None)) (vault_bucket v b))"
  using assms by (auto simp: vault_bucket_def Bucket_Exists_def fun_eq_iff bucket_key_inj)

lemma vault_bucket_drop:
  assumes "map_of (Buckets v') = (map_of (Buckets v))(b := None)" and "Index v' = Index v"
  shows "vault_bucket v' = (vault_bucket v)(b := None)"
  using assms by (auto simp: vault_bucket_def Bucket_Exists_def fun_eq_iff)

text \<open>What a new bucket shows: the objects already stored under its name.\<close>

definition vault_fresh :: "'d vault \<Rightarrow> string \<Rightarrow> string \<Rightarrow> (bool \<times> string \<times> nat) option" where
  "vault_fresh v b k = (if k = [] then None else map_option entry_of (lookup (Index v) (b @ ''/'' @ k)))"

abbreviation dezhan_fresh :: "'d server \<Rightarrow> string \<Rightarrow> string \<Rightarrow> (bool \<times> string \<times> nat) option" where
  "dezhan_fresh s \<equiv> vault_fresh (Vlt s)"

lemma vault_bucket_Some:
  "valid_bucket b \<Longrightarrow> Bucket_Exists v b \<Longrightarrow> vault_bucket v b = Some (vault_fresh v b)"
  by (simp add: vault_bucket_def vault_fresh_def fun_eq_iff)

lemma vault_bucket_put:
  assumes "valid_bucket b" "k \<noteq> []" "Bucket_Exists v b"
    and "map_of (Index v') = (map_of (Index v))(b @ CHR ''/'' # k \<mapsto> m)" and "Buckets v' = Buckets v"
  shows "vault_bucket v' = (vault_bucket v)(b \<mapsto> (vault_fresh v b)(k \<mapsto> entry_of m))"
  using assms
  by (auto simp: vault_bucket_def vault_fresh_def Bucket_Exists_def fun_eq_iff bucket_key_inj)

lemma vault_bucket_create:
  assumes "valid_bucket b" and "map_of (Buckets v') = (map_of (Buckets v))(b \<mapsto> l)"
    and "Index v' = Index v"
  shows "vault_bucket v' = (vault_bucket v)(b \<mapsto>
     (case vault_bucket v b of None \<Rightarrow> vault_fresh v b | Some m \<Rightarrow> m))"
  using assms by (auto simp: vault_bucket_def vault_fresh_def Bucket_Exists_def fun_eq_iff)

section \<open>Serving\<close>

lemma advanced_bucket: "advanced s v \<Longrightarrow> vault_bucket v = vault_bucket (Vlt s)"
  by (rule vault_bucket_cong) (simp_all add: advanced_same)

lemma sdk_error_exn: "\<exists>m. sdk_error (exn_resp e) = Some (OtherS3 m)"
  by (cases e) (simp_all add: sdk_error_def)

lemma request_cases:
  assumes "request env valid h s = (e, t)" and wp: "\<And>v. io_wp h (Q v) (E v) v"
  obtains (refused) "e = Some (OtherS3 ''invalid parameter'')" "t = s"
  | (failed) v m where "valid" "advanced s v" "Vlt t = v \<or> (\<exists>x. E v x (Vlt t))"
      "e = Some (OtherS3 m)" "Samples t = tl (Samples s)"
  | (answered) v r where "valid" "advanced s v" "Q v r (Vlt t)" "e = sdk_error r"
      "Samples t = tl (Samples s)"
proof (cases valid)
  case False
  with assms(1) show thesis by (intro refused) (simp_all add: request_def)
next
  case True
  obtain r u where sv: "serve env h s = (r, u)" by fastforce
  have hn: "h v \<noteq> None" for v using io_wp_returns [OF wp [of v]] by auto
  have t: "t = u" "\<And>q. r = Inl q \<Longrightarrow> e = Some (case sdk_error q of Some e \<Rightarrow> e | None \<Rightarrow> OtherS3 [])"
    "\<And>q. r = Inr q \<Longrightarrow> e = sdk_error q"
    using assms(1) True sv by (auto simp: request_def split: sum.splits)
  from sv hn show thesis
  proof (cases rule: serve_cases)
    case (raised_by_tick x)
    obtain m where "sdk_error (exn_resp x) = Some (OtherS3 m)" using sdk_error_exn by blast
    with raised_by_tick t show thesis by (intro failed [OF True, of "Vlt t" m]) simp_all
  next
    case (raised v x)
    obtain m where "sdk_error (exn_resp x) = Some (OtherS3 m)" using sdk_error_exn by blast
    moreover have "E v x (Vlt t)" using wp [of v] raised t by (simp add: io_wp_def)
    ultimately show thesis using raised t by (intro failed [OF True, of v m]) auto
  next
    case (answered v x)
    moreover have "Q v x (Vlt t)" using wp [of v] answered t by (simp add: io_wp_def)
    ultimately show thesis using t by (intro that(3) [OF True, of v x]) auto
  qed
qed

section \<open>What each handler does to the vault\<close>

text \<open>Nothing but the store and the audit log.\<close>

definition kept :: "'d vault \<Rightarrow> 'd vault \<Rightarrow> bool" where
  "kept v v' \<longleftrightarrow> Index v' = Index v \<and> Buckets v' = Buckets v \<and> Versioned v' = Versioned v \<and>
     clock_view v' = clock_view v"

text \<open>Besides, the index at one name.\<close>

definition reindexed :: "'d vault \<Rightarrow> string \<Rightarrow> Meta option \<Rightarrow> 'd vault \<Rightarrow> bool" where
  "reindexed v name m v' \<longleftrightarrow> map_of (Index v') = (map_of (Index v))(name := m) \<and>
     Buckets v' = Buckets v \<and> Versioned v' = Versioned v \<and> clock_view v' = clock_view v"

lemma s3_put_bucket_wp:
  "io_wp (s3_put_bucket b l)
     (\<lambda>r v'. r = Ok \<and> \<not> Bucket_Exists v b \<and> v' = v\<lparr>Buckets := AList.update b l (Buckets v)\<rparr> \<or>
        r = S3_Error ''BucketAlreadyOwnedByYou'' \<and> v' = v \<and> Bucket_Exists v b \<or>
        r = S3_Error ''InvalidBucketName'' \<and> v' = v)
     (\<lambda>_ v'. v' = v) v"
  by (auto simp: s3_put_bucket_def Create_Bucket_def Check_Ingest_def Bucket_Exists_def io_wp_def io_defs)

lemma s3_delete_bucket_wp:
  "io_wp (s3_delete_bucket b)
     (\<lambda>r v'. r = Ok \<and> Bucket_Exists v b \<and> v' = v\<lparr>Buckets := AList.delete b (Buckets v)\<rparr> \<and>
        (\<forall>name. lookup (Index v) name \<noteq> None \<longrightarrow> \<not> HasPrefix name (b @ ''/'')))
     (\<lambda>_ v'. v' = v) v"
  by (auto simp: s3_delete_bucket_def Delete_Bucket_def Check_Ingest_def Bucket_Exists_def io_wp_def io_defs
      list_ex_iff keys_of_def dest!: map_of_SomeD intro: rev_image_eqI)

definition erasable :: "'d vault \<Rightarrow> string \<Rightarrow> bool" where
  "erasable v name \<longleftrightarrow> (\<forall>m. lookup (Index v) name = Some m \<longrightarrow>
     Can_Delete (Lock m) (Now (Clock v)) \<lparr>Bypass_Governance = False\<rparr>)"

lemma s3_delete_object_wp:
  "io_wp (s3_delete_object env b k False)
     (\<lambda>r v'. r = Ok \<and> reindexed v (b @ ''/'' @ k) None v' \<and>
          (\<not> Bucket_Versioned v b \<longrightarrow> erasable v (b @ ''/'' @ k)) \<or>
        r \<in> {S3_Error ''NoSuchBucket'', S3_Error ''AccessDenied''} \<and> kept v v')
     (\<lambda>_ v'. kept v v' \<or> reindexed v (b @ ''/'' @ k) None v' \<and>
          (\<not> Bucket_Versioned v b \<longrightarrow> erasable v (b @ ''/'' @ k))) v"
  by (auto simp: s3_delete_object_def Let_def Delete_Marker_def Delete_Object_def Add_Audit_def io_wp_def
      io_defs kept_def reindexed_def erasable_def clock_view_def Contains_def delete_conv'
      split: option.split)

definition vault_source :: "'d vault_env \<Rightarrow> 'd vault \<Rightarrow> string \<Rightarrow> (bool \<times> string \<times> nat) option" where
  "vault_source env v cs = (case Get_Object env (copy_source_name cs) v of
       Some (Inr data, v1) \<Rightarrow> (case store_object env data v1 of
           Some (Inr (c, i), v2) \<Rightarrow> Some (c, i, length data)
         | _ \<Rightarrow> None)
     | _ \<Rightarrow> None)"

lemma reindexed_simps:
  "reindexed v name (Some m) (v\<lparr>Store := d, Index := AList.update name m (Index v)\<rparr>)"
  "reindexed v name (Some m) (v\<lparr>Store := d, Index := AList.update name m (Index v), Log := l\<rparr>)"
  by (simp_all add: reindexed_def update_conv' clock_view_def)

definition stored :: "'d vault_env \<Rightarrow> 'd vault \<Rightarrow> string \<Rightarrow> bytes \<Rightarrow> 'd vault \<Rightarrow> bool" where
  "stored env v name data v' \<longleftrightarrow> (\<exists>m v2.
     store_object env data v = Some (Inr (Composite m, Id m), v2) \<and>
     Size m = length data \<and> reindexed v name (Some m) v')"

lemma Put_Object_wp:
  "io_wp (Put_Object env name data mode retain_for um) (\<lambda>_. (stored env v name data))
     (\<lambda>_ v'. kept v v' \<or> (stored env v name data) v') v"
proof -
  let ?at = "Now (Clock v)"
  let ?m = "\<lambda>c i. \<lparr>Id = i, Lock = Create_Lock mode (?at + retain_for) ?at, Composite = c,
     Quarantined = False, Size = length data, User_Meta = um\<rparr>"
  let ?then = "\<lambda>c i. io_bind (io_modify (\<lambda>v. v\<lparr>Index := AList.update name (?m c i) (Index v)\<rparr>))
     (\<lambda>_. Add_Audit env Lock_Created (Name_Digest env name) (?at + retain_for))"
  have cont: "io_wp (?then c i) (\<lambda>_. (stored env v name data)) (\<lambda>_ v'. kept v v' \<or> (stored env v name data) v') (v\<lparr>Store := d\<rparr>)"
    if "store_object env data v = Some (Inr (c, i), v\<lparr>Store := d\<rparr>)" for c i d
  proof -
    have "(stored env v name data) v'" if "reindexed v name (Some (?m c i)) v'" for v'
      unfolding stored_def using that \<open>store_object env data v = _\<close>
      by (intro exI [of _ "?m c i"] exI [of _ "v\<lparr>Store := d\<rparr>"]) simp
    then show ?thesis by (simp add: io_rules reindexed_simps)
  qed
  have "io_wp (store_object env data) (\<lambda>(c, i). io_wp (?then c i) (\<lambda>_. (stored env v name data))
      (\<lambda>_ v'. kept v v' \<or> (stored env v name data) v')) (\<lambda>_ v'. kept v v' \<or> (stored env v name data) v') v"
    using cont by (intro on_store_wp [OF on_store_object]) (auto simp: kept_def clock_view_def)
  then show ?thesis
    by (simp add: Put_Object_def Let_def io_rules kept_def case_prod_unfold)
qed

lemma Get_Object_state: "Get_Object env name v = Some (r, v') \<Longrightarrow> v' = v"
  by (auto simp: Get_Object_def io_defs split: if_splits option.splits sum.splits)

lemma Get_Object_returns: "\<exists>r. Get_Object env name v = Some (r, v)"
  by (auto simp: Get_Object_def io_defs split: option.splits sum.splits)

definition copied :: "'d vault_env \<Rightarrow> 'd vault \<Rightarrow> string \<Rightarrow> string \<Rightarrow> string \<Rightarrow> 'd vault \<Rightarrow> bool" where
  "copied env v b k cs v' \<longleftrightarrow> Bucket_Exists v b \<and>
     (Bucket_Object_Lock v b \<longrightarrow> erasable v (b @ ''/'' @ k)) \<and>
     (\<exists>m. vault_source env v cs = Some (entry_of m) \<and> reindexed v (b @ ''/'' @ k) (Some m) v')"

lemma s3_copy_object_wp:
  "io_wp (s3_copy_object env b k cs retain gov meta)
     (\<lambda>r v'. r = Ok \<and> (copied env v b k cs) v' \<or>
        r \<in> {S3_Error ''NoSuchBucket'', S3_Error ''AccessDenied''} \<and> kept v v')
     (\<lambda>_ v'. kept v v' \<or> (copied env v b k cs) v') v"
proof -
  obtain r where g: "Get_Object env (copy_source_name cs) v = Some (r, v)"
    using Get_Object_returns by blast
  let ?Q = "\<lambda>r v'. r = Ok \<and> (copied env v b k cs) v' \<or>
    r \<in> {S3_Error ''NoSuchBucket'', S3_Error ''AccessDenied''} \<and> kept v v'"
  have main: "io_wp (io_bind (Get_Object env (copy_source_name cs)) (\<lambda>data.
      io_bind (Put_Object env (b @ ''/'' @ k) data mode ret meta) (\<lambda>_. io_return Ok)))
      ?Q (\<lambda>_ v'. kept v v' \<or> (copied env v b k cs) v') v"
    if "Bucket_Exists v b" and "Bucket_Object_Lock v b \<longrightarrow> erasable v (b @ ''/'' @ k)" for mode ret
  proof (cases r)
    case (Inl e)
    with g show ?thesis by (simp add: io_wp_bind io_wp_def [of "Get_Object _ _"] kept_def)
  next
    case (Inr data)
    have "(copied env v b k cs) v'" if "store_object env data v = Some (Inr (Composite m, Id m), v2)"
      "Size m = length data" "reindexed v (b @ ''/'' @ k) (Some m) v'" for m v2 v'
      using that g Inr \<open>Bucket_Exists v b\<close> \<open>Bucket_Object_Lock v b \<longrightarrow> _\<close>
      by (auto simp: copied_def vault_source_def entry_of_def)
    then have "io_wp (Put_Object env (b @ ''/'' @ k) data mode ret meta)
        (\<lambda>_. ?Q Ok) (\<lambda>_ v'. kept v v' \<or> (copied env v b k cs) v') v"
      by (intro io_wp_mono [OF Put_Object_wp]) (auto simp: stored_def)
    with g Inr show ?thesis by (simp add: io_rules io_wp_def [of "Get_Object _ _"]
          io_wp_return [THEN ext])
  qed
  show ?thesis
  proof (cases "Bucket_Exists v b \<and> (Bucket_Object_Lock v b \<longrightarrow> erasable v (b @ ''/'' @ k))")
    case True
    then have nd: "\<not> (Bucket_Object_Lock v b \<and> Contains v (b @ ''/'' @ k) \<and>
        \<not> Object_Deletable v (b @ ''/'' @ k))"
      by (auto simp: erasable_def Contains_def Object_Deletable_def split: option.splits)
    show ?thesis using main True nd unfolding s3_copy_object_def Let_def io_wp_def by auto
  next
    case False
    then show ?thesis
      by (auto simp: s3_copy_object_def Let_def io_wp_def io_return_def kept_def erasable_def Contains_def
          Object_Deletable_def)
  qed
qed

lemma vault_source_cong:
  assumes "advanced s v"
  shows "vault_source env v cs = vault_source env (Vlt s) cs"
proof -
  have "map_option fst (Get_Object env n v) = map_option fst (Get_Object env n (Vlt s))" for n
    using assms by (simp add: Get_Object_def advanced_same io_defs split: option.split sum.split)
  then obtain r where r: "Get_Object env (copy_source_name cs) v = Some (r, v)"
    "Get_Object env (copy_source_name cs) (Vlt s) = Some (r, Vlt s)"
    using Get_Object_returns by (metis fst_conv option.inject option.simps(9))
  show ?thesis
  proof (cases r)
    case (Inl e)
    with r show ?thesis by (simp add: vault_source_def)
  next
    case (Inr data)
    have "map_option fst (store_object env data v) = map_option fst (store_object env data (Vlt s))"
      using assms by (intro on_store_cong on_store_object) (simp add: advanced_same)
    with r Inr show ?thesis
      by (cases "store_object env data v"; cases "store_object env data (Vlt s)")
        (auto simp: vault_source_def split: sum.splits)
  qed
qed

section \<open>Listing\<close>

lemma list_scan_filter:
  "list_scan b pfx token mx nms acc =
    (let new = List.map_filter (listed_key b pfx token) nms
     in (fst acc @ take (mx - length (fst acc)) new,
         snd acc \<or> length (fst acc) + length new > mx \<and> new \<noteq> []))"
proof (induction nms arbitrary: acc)
  case Nil
  then show ?case by (simp add: List.map_filter_simps)
next
  case (Cons nm nms)
  show ?case
  proof (cases "listed_key b pfx token nm")
    case None
    then show ?thesis by (simp add: Cons.IH List.map_filter_simps)
  next
    case (Some k)
    then show ?thesis
      by (cases "length (fst acc) < mx") (auto simp: Cons.IH List.map_filter_simps Let_def take_Cons')
  qed
qed

lemma set_Object_Names: "set (Object_Names env v) = dom (map_of (Index v))"
  by (auto simp: Object_Names_def keys_of_def Let_def dom_map_of_conv_image_fst)

lemma distinct_Object_Names: "distinct (Object_Names env v)"
  by (simp add: Object_Names_def keys_of_def Let_def)

lemma listed_key_Some:
  "listed_key b [] token nm = Some k \<longleftrightarrow> nm = b @ CHR ''/'' # k \<and> k \<noteq> [] \<and> (token = [] \<or> k > token)"
  by (auto simp: listed_key_def Let_def HasPrefix_conv split: if_splits)

definition bucket_keys :: "'d vault_env \<Rightarrow> 'd vault \<Rightarrow> string \<Rightarrow> string \<Rightarrow> string list" where
  "bucket_keys env v b token = List.map_filter (listed_key b [] token) (Object_Names env v)"

lemma set_bucket_keys:
  "set (bucket_keys env v b token) = {k \<in> dom (vault_fresh v b). token = [] \<or> k > token}"
  by (auto simp: bucket_keys_def set_map_filter_Some set_Object_Names listed_key_Some vault_fresh_def
      split: if_splits)

lemma distinct_bucket_keys: "distinct (bucket_keys env v b token)"
  unfolding bucket_keys_def
  by (rule distinct_map_filter [OF distinct_Object_Names]) (simp add: listed_key_Some)

lemma List_Objects_V2_eq:
  "List_Objects_V2 env v b [] token mx =
    (let ks = bucket_keys env v b token
     in \<lparr>lr_Contents = map (\<lambda>k. (k, Object_Size v (b @ ''/'' @ k))) (take mx ks),
         lr_Next = (if length ks > mx then Some (if mx = 0 then [] else last (take mx ks)) else None)\<rparr>)"
  by (auto simp: List_Objects_V2_def list_scan_filter bucket_keys_def Let_def)

definition page_of :: "'d vault \<Rightarrow> string \<Rightarrow> string list \<Rightarrow> s3_object list" where
  "page_of v b ks =
     map (\<lambda>k. \<lparr>obj_Key = Some k, obj_Size = Some (of_nat (Object_Size v (b @ ''/'' @ k)))\<rparr>) ks"

lemma s3_list_returns: "s3_list env b token v \<noteq> None"
  by (simp add: s3_list_def io_return_def)

lemma dezhan_page_state:
  assumes "dezhan_page env p s = (x, p', t)"
  shows "t = s \<or> advanced s (Vlt t) \<and> Samples t = tl (Samples s)"
proof (cases "valid_bucket (pg_bucket p)")
  case False
  with assms show ?thesis by (simp add: dezhan_page_def)
next
  case True
  obtain r u where sv: "serve env (s3_list env (pg_bucket p) (aws_ToString (pg_token p))) s = (r, u)"
    by fastforce
  then have "u = t" using assms True by (auto simp: dezhan_page_def split: sum.splits)
  from sv s3_list_returns have "advanced s (Vlt u) \<and> Samples u = tl (Samples s)"
    by (cases rule: serve_cases) (auto simp: s3_list_def io_return_def split: if_splits)
  with \<open>u = t\<close> show ?thesis by simp
qed

lemma dezhan_page_Inr:
  assumes "dezhan_page env p s = (Inr page, p', t)"
  defines "ks \<equiv> bucket_keys env (Vlt s) (pg_bucket p) (aws_ToString (pg_token p))"
  shows "valid_bucket (pg_bucket p) \<and> Bucket_Exists (Vlt s) (pg_bucket p) \<and>
     page = page_of (Vlt s) (pg_bucket p) (take 1000 ks) \<and>
     p' = p\<lparr>pg_first := False, pg_token := if length ks > 1000 then Some (last (take 1000 ks)) else None\<rparr>"
proof -
  let ?b = "pg_bucket p"
  from assms(1) have valid: "valid_bucket ?b" by (simp add: dezhan_page_def split: if_splits)
  obtain r u where sv: "serve env (s3_list env ?b (aws_ToString (pg_token p))) s = (r, u)" by fastforce
  with assms(1) valid obtain l where l: "r = Inr (Inr l)" "u = t"
    "page = map (\<lambda>(k, n). \<lparr>obj_Key = Some k, obj_Size = Some (of_nat n)\<rparr>) (lr_Contents l)"
    "p' = p\<lparr>pg_first := False, pg_token := lr_Next l\<rparr>"
    by (auto simp: dezhan_page_def split: sum.splits)
  from sv s3_list_returns have "Bucket_Exists (Vlt s) ?b \<and>
      l = List_Objects_V2 env (Vlt s) ?b [] (aws_ToString (pg_token p)) 1000"
  proof (cases rule: serve_cases)
    case (answered v y)
    then have "Bucket_Exists (Vlt s) ?b = Bucket_Exists v ?b"
      "List_Objects_V2 env v = List_Objects_V2 env (Vlt s)"
      using advanced_same [OF answered(1)]
      by (auto simp: Bucket_Exists_def List_Objects_V2_def Object_Names_def Object_Size_def fun_eq_iff)
    with answered l show ?thesis by (auto simp: s3_list_def io_return_def split: if_splits)
  qed (use l in simp_all)
  with valid l show ?thesis
    by (simp add: List_Objects_V2_eq ks_def page_of_def Let_def comp_def)
qed

lemma dezhan_page_Inl:
  assumes "dezhan_page env p s = (Inl NoSuchBucket, p', t)"
  shows "\<not> Bucket_Exists (Vlt s) (pg_bucket p)"
proof -
  let ?b = "pg_bucket p"
  from assms have valid: "valid_bucket ?b" by (simp add: dezhan_page_def split: if_splits)
  obtain r u where sv: "serve env (s3_list env ?b (aws_ToString (pg_token p))) s = (r, u)" by fastforce
  with assms valid obtain q where r: "r = Inr (Inl q)"
    by (cases r; cases "projr r") (auto simp: dezhan_page_def)
  from sv s3_list_returns show ?thesis
  proof (cases rule: serve_cases)
    case (answered v y)
    with r advanced_same [OF answered(1)] show ?thesis
      by (auto simp: s3_list_def io_return_def Bucket_Exists_def split: if_splits)
  qed (use r in simp_all)
qed

lemma dezhan_page_same:
  assumes "dezhan_page env p s = (x, p', t)"
  shows "Index (Vlt t) = Index (Vlt s)" "Buckets (Vlt t) = Buckets (Vlt s)"
    "vault_bucket (Vlt t) = vault_bucket (Vlt s)"
  using dezhan_page_state [OF assms] by (auto simp: advanced_same advanced_bucket)

lemma Object_Size_cong: "Index v = Index v' \<Longrightarrow> Object_Size v = Object_Size v'"
  by (simp add: Object_Size_def fun_eq_iff)

lemma bucket_keys_cong: "Index v = Index v' \<Longrightarrow> bucket_keys env v = bucket_keys env v'"
  by (simp add: bucket_keys_def Object_Names_def fun_eq_iff)

abbreviation more_pages :: "paginator \<Rightarrow> bool" where
  "more_pages p \<equiv> pg_first p \<or> (case pg_token p of None \<Rightarrow> False | Some t \<Rightarrow> t \<noteq> [])"

lemma dezhan_client_simps [simp]:
  "sdk_HasMorePages (dezhan_client env) = more_pages"
  "sdk_NextPage (dezhan_client env) = dezhan_page env"
  "sdk_NewPaginator (dezhan_client env) b = \<lparr>pg_bucket = b, pg_first = True, pg_token = None\<rparr>"
  "sdk_CreateBucket (dezhan_client env) b = request env (valid_bucket b) (s3_put_bucket b False)"
  "sdk_DeleteBucket (dezhan_client env) b = request env (valid_bucket b) (s3_delete_bucket b)"
  "sdk_DeleteObject (dezhan_client env) b k =
     request env (valid_bucket b \<and> k \<noteq> []) (s3_delete_object env b k False)"
  "sdk_CopyObject (dezhan_client env) b k cs =
     request env (valid_bucket b \<and> k \<noteq> []) (s3_copy_object env b k cs None False [])"
  by (simp_all add: dezhan_client_def fun_eq_iff)

text \<open>The keys after a token: fewer on every further page, so the listing ends.\<close>

lemma bucket_keys_after:
  assumes "k \<in> set (bucket_keys env v b token)"
  shows "k \<noteq> []" and "set (bucket_keys env v b k) \<subset> set (bucket_keys env v b token)"
proof -
  from assms show "k \<noteq> []" by (auto simp: set_bucket_keys vault_fresh_def split: if_splits)
  with assms show "set (bucket_keys env v b k) \<subset> set (bucket_keys env v b token)"
    by (auto simp: set_bucket_keys)
qed

lemma dezhan_drain_returns: "\<exists>n r t. drain (dezhan_client env) n p s = Some (r, t)"
proof (induction "card (set (bucket_keys env (Vlt s) (pg_bucket p) (aws_ToString (pg_token p))))"
    arbitrary: p s rule: less_induct)
  case less
  let ?b = "pg_bucket p"
  let ?ks = "bucket_keys env (Vlt s) ?b (aws_ToString (pg_token p))"
  show ?case
  proof (cases "more_pages p")
    case False
    then have "drain (dezhan_client env) 0 p s = Some (Inr [], s)" by simp
    then show ?thesis by blast
  next
    case True
    obtain x p' t where pg: "dezhan_page env p s = (x, p', t)" by (cases "dezhan_page env p s")
    show ?thesis
    proof (cases x)
      case (Inl e)
      with pg True have "drain (dezhan_client env) 1 p s = Some (Inl e, t)" by simp
      then show ?thesis by blast
    next
      case (Inr page)
      note P = dezhan_page_Inr [OF pg [unfolded Inr]]
      have "\<exists>n r u. drain (dezhan_client env) n p' t = Some (r, u)"
      proof (cases "length ?ks > 1000")
        case False
        with P have "drain (dezhan_client env) 0 p' t = Some (Inr [], t)" by simp
        then show ?thesis by blast
      next
        case True
        then have mem: "last (take 1000 ?ks) \<in> set ?ks"
          by (intro in_set_takeD [OF last_in_set]) auto
        have "aws_ToString (pg_token p') = last (take 1000 ?ks)" "pg_bucket p' = ?b"
          using P True by (simp_all add: aws_ToString_def)
        then have "set (bucket_keys env (Vlt t) (pg_bucket p') (aws_ToString (pg_token p'))) \<subset> set ?ks"
          using bucket_keys_after(2) [OF mem] bucket_keys_cong [OF dezhan_page_same(1) [OF pg]] by simp
        then show ?thesis by (intro less psubset_card_mono) simp_all
      qed
      then obtain n r u where "drain (dezhan_client env) n p' t = Some (r, u)" by blast
      with pg Inr True have "drain (dezhan_client env) (Suc n) p s = Some (map_sum id ((@) page) r, u)"
        by simp
      then show ?thesis by blast
    qed
  qed
qed

text \<open>Whatever a listing returns is in the bucket, with its size.\<close>

definition listed_in :: "'d vault \<Rightarrow> string \<Rightarrow> s3_object \<Rightarrow> bool" where
  "listed_in v b ob \<longleftrightarrow> map_option dezhan_size (vault_fresh v b (aws_ToString (obj_Key ob))) =
     Some (aws_ToInt64 (obj_Size ob))"

lemma page_of_listed:
  "set ks \<subseteq> dom (vault_fresh v b) \<Longrightarrow> \<forall>ob\<in>set (page_of v b ks). listed_in v b ob"
proof
  fix ob
  assume sub: "set ks \<subseteq> dom (vault_fresh v b)" and "ob \<in> set (page_of v b ks)"
  then obtain k where k: "k \<in> set ks"
    and ob: "ob = \<lparr>obj_Key = Some k, obj_Size = Some (of_nat (Object_Size v (b @ ''/'' @ k)))\<rparr>"
    unfolding page_of_def by auto
  from k sub obtain m where "k \<noteq> []" "map_of (Index v) (b @ CHR ''/'' # k) = Some m"
    by (auto simp: vault_fresh_def subset_eq dom_def split: if_splits)
  with ob show "listed_in v b ob"
    by (simp add: listed_in_def vault_fresh_def Object_Size_def dezhan_size_def entry_of_def
        aws_ToString_def aws_ToInt64_def)
qed

lemma dezhan_drain_Inr:
  assumes "drain (dezhan_client env) n p s = Some (Inr os, t)"
  shows "vault_bucket (Vlt t) = vault_bucket (Vlt s) \<and> (\<forall>ob\<in>set os. listed_in (Vlt s) (pg_bucket p) ob) \<and>
     (more_pages p \<longrightarrow> valid_bucket (pg_bucket p) \<and> Bucket_Exists (Vlt s) (pg_bucket p))"
  using assms
proof (induction n arbitrary: p s os)
  case 0
  then show ?case by (auto split: if_splits)
next
  case (Suc n)
  show ?case
  proof (cases "more_pages p")
    case False
    with Suc.prems show ?thesis by auto
  next
    case True
    obtain x p' u where pg: "dezhan_page env p s = (x, p', u)" by (cases "dezhan_page env p s")
    with Suc.prems True obtain page where x: "x = Inr page" by (cases x) auto
    with Suc.prems True pg obtain os' where d: "drain (dezhan_client env) n p' u = Some (Inr os', t)"
      and os: "os = page @ os'"
      by (auto simp: map_sum_eq_iff)
    note P = dezhan_page_Inr [OF pg [unfolded x]] and S = dezhan_page_same [OF pg]
    have pp: "pg_bucket p' = pg_bucket p" using P by simp
    have li: "listed_in (Vlt u) = listed_in (Vlt s)"
      using S(1) by (simp add: listed_in_def vault_fresh_def fun_eq_iff)
    have "set (take 1000 (bucket_keys env (Vlt s) (pg_bucket p) (aws_ToString (pg_token p)))) \<subseteq>
        dom (vault_fresh (Vlt s) (pg_bucket p))"
      by (rule subset_trans [OF set_take_subset]) (auto simp: set_bucket_keys)
    from page_of_listed [OF this] P have "\<forall>ob\<in>set page. listed_in (Vlt s) (pg_bucket p) ob" by simp
    with li show ?thesis using Suc.IH [OF d] P os S(3) pp by auto
  qed
qed

lemma dezhan_drain_Inl:
  assumes "drain (dezhan_client env) n p s = Some (Inl e, t)"
  shows "vault_bucket (Vlt t) = vault_bucket (Vlt s) \<and>
     (e = NoSuchBucket \<longrightarrow> vault_bucket (Vlt s) (pg_bucket p) = None)"
  using assms
proof (induction n arbitrary: p s)
  case 0
  then show ?case by (auto split: if_splits)
next
  case (Suc n)
  obtain x p' u where pg: "dezhan_page env p s = (x, p', u)" by (cases "dezhan_page env p s")
  note S = dezhan_page_same(3) [OF pg]
  show ?case
  proof (cases x)
    case (Inl e')
    with Suc.prems pg have e: "e = e'" "t = u" by (auto split: if_splits)
    with S dezhan_page_Inl [of env p s p' u] pg Inl show ?thesis
      by (auto simp: vault_bucket_def)
  next
    case (Inr page)
    with Suc.prems pg have d: "drain (dezhan_client env) n p' u = Some (Inl e, t)"
      by (auto simp: map_sum_eq_iff split: if_splits)
    have "pg_bucket p' = pg_bucket p" using dezhan_page_Inr [OF pg [unfolded Inr]] by simp
    with Suc.IH [OF d] S show ?thesis by simp
  qed
qed

lemma dezhan_drain_whole:
  assumes "drain (dezhan_client env) n \<lparr>pg_bucket = b, pg_first = True, pg_token = None\<rparr> s = Some (Inr os, t)"
    and "card (dom (vault_fresh (Vlt s) b)) \<le> 1000"
  shows "map (aws_ToString \<circ> obj_Key) os = bucket_keys env (Vlt s) b []"
proof -
  let ?p = "\<lparr>pg_bucket = b, pg_first = True, pg_token = None\<rparr>"
  obtain x p' u where pg: "dezhan_page env ?p s = (x, p', u)" by (cases "dezhan_page env ?p s")
  have len: "length (bucket_keys env (Vlt s) b []) \<le> 1000"
    using assms(2) distinct_card [OF distinct_bucket_keys, of env "Vlt s" b "[]"] set_bucket_keys [of env "Vlt s" b "[]"]
    by simp
  from assms(1) obtain m where n: "n = Suc m" by (cases n) auto
  with assms(1) pg obtain page where x: "x = Inr page" by (cases x) auto
  note P = dezhan_page_Inr [OF pg [unfolded x]]
  with len have "\<not> more_pages p'" "page = page_of (Vlt s) b (bucket_keys env (Vlt s) b [])"
    by (simp_all add: aws_ToString_def)
  with assms(1) pg x n show ?thesis
    by (cases m) (auto simp: page_of_def comp_def aws_ToString_def)
qed

section \<open>The server keeps the storage contract\<close>

abbreviation dezhan_source :: "'d vault_env \<Rightarrow> 'd server \<Rightarrow> string \<Rightarrow> (bool \<times> string \<times> nat) option" where
  "dezhan_source env s \<equiv> vault_source env (Vlt s)"

lemma kept_bucket: "kept v v' \<Longrightarrow> vault_bucket v' = vault_bucket v"
  by (rule vault_bucket_cong) (simp_all add: kept_def)

lemma copied_bucket:
  assumes "copied env v b k cs v'" "valid_bucket b" "k \<noteq> []"
  shows "\<exists>e m. vault_source env v cs = Some e \<and> vault_bucket v b = Some m \<and>
     vault_bucket v' = (vault_bucket v)(b \<mapsto> m(k \<mapsto> e))"
proof -
  from assms(1) obtain m where m: "vault_source env v cs = Some (entry_of m)" "Bucket_Exists v b"
    "reindexed v (b @ ''/'' @ k) (Some m) v'"
    by (auto simp: copied_def)
  then have "vault_bucket v' = (vault_bucket v)(b \<mapsto> (vault_fresh v b)(k \<mapsto> entry_of m))"
    using assms(2,3) by (intro vault_bucket_put) (auto simp: reindexed_def)
  with m vault_bucket_Some [OF assms(2) m(2)] show ?thesis by auto
qed

lemma reindexed_None_bucket:
  "reindexed v (b @ ''/'' @ k) None v' \<Longrightarrow> valid_bucket b \<Longrightarrow>
     vault_bucket v' = (vault_bucket v)(b := map_option (\<lambda>m. m(k := None)) (vault_bucket v b))"
  by (rule vault_bucket_delete) (simp_all add: reindexed_def)

lemma dezhan_create:
  assumes "request env (valid_bucket b) (s3_put_bucket b l) s = (e, t)"
  shows "e = None \<and> vault_bucket (Vlt t) = (vault_bucket (Vlt s))(b \<mapsto>
       (case vault_bucket (Vlt s) b of None \<Rightarrow> vault_fresh (Vlt s) b | Some m \<Rightarrow> m)) \<or>
     e = Some BucketAlreadyOwnedByYou \<and> vault_bucket (Vlt t) = vault_bucket (Vlt s) \<and>
       vault_bucket (Vlt s) b \<noteq> None \<or>
     (\<exists>x. e = Some (OtherS3 x)) \<and> vault_bucket (Vlt t) = vault_bucket (Vlt s)"
  using assms s3_put_bucket_wp
proof (cases rule: request_cases)
  case (answered v r)
  note adv = advanced_bucket [OF answered(2)]
  have fresh: "vault_fresh v b = vault_fresh (Vlt s) b"
    using answered(2) by (simp add: vault_fresh_def advanced_same fun_eq_iff)
  from answered(3) consider
      "r = Ok" "Vlt t = v\<lparr>Buckets := AList.update b l (Buckets v)\<rparr>"
    | "r = S3_Error ''BucketAlreadyOwnedByYou''" "Vlt t = v" "Bucket_Exists v b"
    | "r = S3_Error ''InvalidBucketName''" "Vlt t = v" by blast
  then show ?thesis
  proof cases
    case 1
    have "vault_bucket (Vlt t) = (vault_bucket v)(b \<mapsto>
        (case vault_bucket v b of None \<Rightarrow> vault_fresh v b | Some m \<Rightarrow> m))"
      using 1 answered(1) by (intro vault_bucket_create) (simp_all add: update_conv')
    from this [unfolded adv fresh] 1 answered(4) show ?thesis by (simp add: sdk_error_def)
  next
    case 2
    with answered adv vault_bucket_Some [of b v] show ?thesis by (simp add: sdk_error_def)
  next
    case 3
    with answered adv show ?thesis by (simp add: sdk_error_def)
  qed
qed (auto simp: advanced_bucket)

lemma dezhan_delete_bucket:
  assumes "request env (valid_bucket b) (s3_delete_bucket b) s = (e, t)"
  shows "e = None \<and> vault_bucket (Vlt t) = (vault_bucket (Vlt s))(b := None) \<and>
       vault_bucket (Vlt s) b = Some Map.empty \<or>
     (\<exists>x. e = Some (OtherS3 x)) \<and> vault_bucket (Vlt t) = vault_bucket (Vlt s)"
  using assms s3_delete_bucket_wp
proof (cases rule: request_cases)
  case (answered v r)
  note adv = advanced_bucket [OF answered(2)]
  have "vault_bucket (Vlt t) = (vault_bucket v)(b := None)"
    using answered(3) by (intro vault_bucket_drop) (simp_all add: delete_conv')
  moreover have "lookup (Index v) (b @ CHR ''/'' # k) = None" for k
    using answered(3) HasPrefix_append [of "b @ ''/''" k] by force
  then have "vault_bucket v b = Some Map.empty"
    using answered(1,3) by (auto simp: vault_bucket_def fun_eq_iff)
  ultimately show ?thesis using answered adv by (simp add: sdk_error_def)
qed (auto simp: advanced_bucket)

lemma dezhan_delete_object:
  assumes "request env (valid_bucket b \<and> k \<noteq> []) (s3_delete_object env b k False) s = (e, t)"
  shows "vault_bucket (Vlt t) = (vault_bucket (Vlt s))(b := map_option (\<lambda>m. m(k := None)) (vault_bucket (Vlt s) b)) \<or>
     e \<noteq> None \<and> vault_bucket (Vlt t) = vault_bucket (Vlt s)"
  using assms s3_delete_object_wp
proof (cases rule: request_cases)
  case (failed v m)
  note adv = advanced_bucket [OF failed(2)]
  from failed adv show ?thesis by (auto simp: kept_bucket reindexed_None_bucket)
next
  case (answered v r)
  note adv = advanced_bucket [OF answered(2)]
  from answered adv show ?thesis by (auto simp: kept_bucket reindexed_None_bucket sdk_error_def)
qed auto

lemma dezhan_copy:
  assumes "request env (valid_bucket b \<and> k \<noteq> []) (s3_copy_object env b k cs r' g m') s = (e, t)"
  shows "(\<exists>v m. vault_source env (Vlt s) cs = Some v \<and> vault_bucket (Vlt s) b = Some m \<and>
       vault_bucket (Vlt t) = (vault_bucket (Vlt s))(b \<mapsto> m(k \<mapsto> v))) \<or>
     e \<noteq> None \<and> vault_bucket (Vlt t) = vault_bucket (Vlt s)"
  using assms s3_copy_object_wp
proof (cases rule: request_cases)
  case (failed v m)
  note adv = advanced_bucket [OF failed(2)] vault_source_cong [OF failed(2), of env cs]
  from failed(3) consider "Vlt t = v \<or> kept v (Vlt t)" | "copied env v b k cs (Vlt t)" by blast
  then show ?thesis
  proof cases
    case 1
    with failed adv show ?thesis by (auto simp: kept_bucket)
  next
    case 2
    with copied_bucket [OF 2] failed(1) adv show ?thesis by simp
  qed
next
  case (answered v r)
  note adv = advanced_bucket [OF answered(2)] vault_source_cong [OF answered(2), of env cs]
  from answered(3) consider "r \<noteq> Ok" "kept v (Vlt t)" "sdk_error r \<noteq> None" | "copied env v b k cs (Vlt t)"
    by (auto simp: sdk_error_def)
  then show ?thesis
  proof cases
    case 1
    with answered adv show ?thesis by (auto simp: kept_bucket)
  next
    case 2
    with copied_bucket [OF 2] answered(1) adv show ?thesis by simp
  qed
qed auto

interpretation dz: s3_store "dezhan_client env" dezhan_buckets dezhan_fresh dezhan_size dezhan_listable
  "dezhan_source env" for env :: "'d vault_env"
proof (unfold_locales, unfold dezhan_client_simps, goal_cases)
  case (1 b s t)
  then show ?case using dezhan_create [of env b False s None t] by simp
next
  case (2 b s e t)
  then show ?case using dezhan_create [of env b False s "Some e" t] by auto
next
  case (3 b s e t)
  then show ?case using dezhan_create [of env b False s "Some e" t] by auto
next
  case (4 b s t)
  then show ?case using dezhan_delete_bucket [of env b s None t] by simp
next
  case (5 b s t)
  then show ?case using dezhan_delete_bucket [of env b s "Some NoSuchBucket" t] by simp
next
  case (6 b s e t)
  then show ?case using dezhan_delete_bucket [of env b s "Some e" t] by auto
next
  case (7 b k s t)
  then show ?case using dezhan_delete_object [of env b k s None t] by simp
next
  case (8 b k s e t)
  then show ?case using dezhan_delete_object [of env b k s "Some e" t] by auto
next
  case (9 b k cs s t)
  then show ?case using dezhan_copy [of env b k cs None False "[]" s None t] by simp
next
  case (10 b k cs s e t)
  then show ?case using dezhan_copy [of env b k cs None False "[]" s "Some e" t] by auto
next
  case (11 b s)
  show ?case by (rule dezhan_drain_returns)
next
  case (12 n b s os t)
  note D = dezhan_drain_Inr [OF 12]
  then have "dezhan_buckets s b = Some (vault_fresh (Vlt s) b)" by (simp add: vault_bucket_Some)
  moreover have "dom (vault_fresh (Vlt s) b) = set (map (aws_ToString \<circ> obj_Key) os) \<and>
      distinct (map (aws_ToString \<circ> obj_Key) os)" if "dezhan_listable (vault_fresh (Vlt s) b)"
    unfolding dezhan_drain_whole [OF 12 that [unfolded dezhan_listable_def, THEN conjunct2]]
    by (simp add: distinct_bucket_keys set_bucket_keys)
  ultimately show ?case using D by (simp add: listed_in_def)
next
  case (13 n b s e t)
  then show ?case using dezhan_drain_Inl [OF 13] by simp
qed

section \<open>The server keeps held objects\<close>

text \<open>
  The latest trusted time that the server can reach over the clock readings still to come, and
  the objects it must keep until then: those of an object-lock bucket without versioning whose
  lock does not allow deletion by then (a legal hold, or a retention that is still running).
\<close>

primrec horizon :: "Guard_State \<times> bool \<times> string \<Rightarrow> (Clock_Sample \<times> string) list \<Rightarrow> Trusted_Time" where
  "horizon vw [] = Now (fst vw)"
| "horizon vw (x # xs) = max (Now (fst vw)) (horizon (tick_view vw x) xs)"

definition dezhan_held :: "'d server \<Rightarrow> string \<Rightarrow> string \<Rightarrow> bool" where
  "dezhan_held s b k \<longleftrightarrow> valid_bucket b \<and> k \<noteq> [] \<and> Bucket_Object_Lock (Vlt s) b \<and>
     \<not> Bucket_Versioned (Vlt s) b \<and>
     (case lookup (Index (Vlt s)) (b @ ''/'' @ k) of
        None \<Rightarrow> False
      | Some m \<Rightarrow> \<not> Can_Delete (Lock m) (horizon (clock_view (Vlt s)) (Samples s))
          \<lparr>Bypass_Governance = False\<rparr>)"

lemma horizon_now: "Now (fst vw) \<le> horizon vw xs"
  by (cases xs) simp_all

lemma advanced_horizon:
  assumes "advanced s v"
  shows "horizon (clock_view v) (tl (Samples s)) \<le> horizon (clock_view (Vlt s)) (Samples s)"
    and "Now (Clock v) \<le> horizon (clock_view (Vlt s)) (Samples s)"
proof -
  show le: "horizon (clock_view v) (tl (Samples s)) \<le> horizon (clock_view (Vlt s)) (Samples s)"
    using assms by (auto simp: advanced_def ticked_def split: list.splits)
  show "Now (Clock v) \<le> horizon (clock_view (Vlt s)) (Samples s)"
    using horizon_now [of "clock_view v" "tl (Samples s)"] le by (simp add: clock_view_def)
qed

text \<open>A held object after a request: the same entry, and held again, if nothing replaced it.\<close>

lemma dezhan_held_entry:
  assumes "dezhan_held s b k"
  obtains m where "map_of (Index (Vlt s)) (b @ CHR ''/'' # k) = Some m" "Bucket_Exists (Vlt s) b"
    "\<not> Can_Delete (Lock m) (horizon (clock_view (Vlt s)) (Samples s)) \<lparr>Bypass_Governance = False\<rparr>"
  using assms
  by (auto simp: dezhan_held_def Bucket_Exists_def Bucket_Object_Lock_def split: option.splits)

lemma dezhan_held_step:
  assumes "dezhan_held s b k" and "advanced s v" and "Samples t = tl (Samples s)"
    and "clock_view (Vlt t) = clock_view v" and "Versioned (Vlt t) = Versioned v"
    and "map_of (Buckets (Vlt t)) b = map_of (Buckets v) b"
    and "map_of (Index (Vlt t)) (b @ CHR ''/'' # k) = map_of (Index v) (b @ CHR ''/'' # k)"
  shows "dezhan_held t b k \<and> object_at dezhan_buckets t b k = object_at dezhan_buckets s b k"
proof -
  obtain m where m: "map_of (Index (Vlt s)) (b @ CHR ''/'' # k) = Some m" "Bucket_Exists (Vlt s) b"
    "\<not> Can_Delete (Lock m) (horizon (clock_view (Vlt s)) (Samples s)) \<lparr>Bypass_Governance = False\<rparr>"
    using assms(1) by (rule dezhan_held_entry)
  have "\<not> Can_Delete (Lock m) (horizon (clock_view v) (tl (Samples s))) \<lparr>Bypass_Governance = False\<rparr>"
    using m(3) Can_Delete_mono [OF _ advanced_horizon(1) [OF assms(2)]] by blast
  then show ?thesis using assms m advanced_same [OF assms(2)]
    by (simp add: dezhan_held_def object_at_def vault_bucket_def Bucket_Exists_def
        Bucket_Object_Lock_def Bucket_Versioned_def)
qed

lemma advanced_keeps:
  assumes "advanced s (Vlt t)" and "Samples t = tl (Samples s)"
  shows "keeps dezhan_buckets dezhan_held s t"
  using dezhan_held_step [OF _ assms] by (auto simp: keeps_def)

lemma kept_keeps:
  assumes "advanced s v" and "Samples t = tl (Samples s)" and "kept v (Vlt t)"
  shows "keeps dezhan_buckets dezhan_held s t"
  using dezhan_held_step [OF _ assms(1,2)] assms(3) by (auto simp: keeps_def kept_def)

lemma held_not_erasable:
  assumes "dezhan_held s b k" and "advanced s v"
  shows "\<not> erasable v (b @ ''/'' @ k)" "\<not> Bucket_Versioned v b" "Bucket_Object_Lock v b"
proof -
  obtain m where m: "map_of (Index (Vlt s)) (b @ CHR ''/'' # k) = Some m"
    "\<not> Can_Delete (Lock m) (horizon (clock_view (Vlt s)) (Samples s)) \<lparr>Bypass_Governance = False\<rparr>"
    using assms(1) by (rule dezhan_held_entry)
  then show "\<not> erasable v (b @ ''/'' @ k)"
    using Can_Delete_mono [OF _ advanced_horizon(2) [OF assms(2)]] advanced_same [OF assms(2)]
    by (auto simp: erasable_def)
  show "\<not> Bucket_Versioned v b" "Bucket_Object_Lock v b"
    using assms by (auto simp: dezhan_held_def Bucket_Versioned_def Bucket_Object_Lock_def advanced_same)
qed

lemma reindexed_keeps:
  assumes "advanced s v" and "Samples t = tl (Samples s)"
    and "reindexed v (b @ ''/'' @ k) m (Vlt t)" and "valid_bucket b"
    and "\<not> Bucket_Versioned v b \<and> Bucket_Object_Lock v b \<longrightarrow> erasable v (b @ ''/'' @ k)"
  shows "keeps dezhan_buckets dezhan_held s t"
  unfolding keeps_def
proof (intro allI impI)
  fix b' k'
  assume held: "dezhan_held s b' k'"
  then have ne: "\<not> (b' = b \<and> k' = k)"
    using held_not_erasable [OF held assms(1)] assms(5) by auto
  have "valid_bucket b'" using held by (simp add: dezhan_held_def)
  then have "map_of (Index (Vlt t)) (b' @ CHR ''/'' # k') = map_of (Index v) (b' @ CHR ''/'' # k')"
    using assms(3,4) ne by (auto simp: reindexed_def bucket_key_inj)
  then show "dezhan_held t b' k' \<and> object_at dezhan_buckets t b' k' = object_at dezhan_buckets s b' k'"
    using assms(3) by (intro dezhan_held_step [OF held assms(1,2)]) (simp_all add: reindexed_def)
qed

lemma rebucketed_keeps:
  assumes "advanced s v" and "Samples t = tl (Samples s)"
    and "Vlt t = v\<lparr>Buckets := bs\<rparr>"
    and "map_of bs = (map_of (Buckets v))(b := l)"
    and "\<And>k. dezhan_held s b k \<Longrightarrow> False"
  shows "keeps dezhan_buckets dezhan_held s t"
  unfolding keeps_def
proof (intro allI impI)
  fix b' k'
  assume held: "dezhan_held s b' k'"
  with assms(5) have "b' \<noteq> b" by blast
  with assms show "dezhan_held t b' k' \<and> object_at dezhan_buckets t b' k' = object_at dezhan_buckets s b' k'"
    by (intro dezhan_held_step [OF held assms(1,2)]) (simp_all add: clock_view_def)
qed

lemma dezhan_create_keeps:
  assumes "request env (valid_bucket b) (s3_put_bucket b l) s = (e, t)"
  shows "keeps dezhan_buckets dezhan_held s t"
  using assms s3_put_bucket_wp
proof (cases rule: request_cases)
  case (failed v m)
  then show ?thesis by (auto intro: advanced_keeps)
next
  case (answered v r)
  from answered(3) consider "Vlt t = v" |
    "Vlt t = v\<lparr>Buckets := AList.update b l (Buckets v)\<rparr>" "\<not> Bucket_Exists v b" by blast
  then show ?thesis
  proof cases
    case 1
    with answered show ?thesis by (auto intro: advanced_keeps)
  next
    case 2
    then show ?thesis
      using held_not_erasable(3) [OF _ answered(2)]
      by (intro rebucketed_keeps [OF answered(2,5) 2(1), of b "Some l"])
        (auto simp: update_conv' Bucket_Exists_def Bucket_Object_Lock_def)
  qed
qed simp

lemma dezhan_delete_bucket_keeps:
  assumes "request env (valid_bucket b) (s3_delete_bucket b) s = (e, t)"
  shows "keeps dezhan_buckets dezhan_held s t"
  using assms s3_delete_bucket_wp
proof (cases rule: request_cases)
  case (failed v m)
  then show ?thesis by (auto intro: advanced_keeps)
next
  case (answered v r)
  have none: "lookup (Index v) (b @ CHR ''/'' # k) = None" for k
    using answered(3) HasPrefix_append [of "b @ ''/''" k] by force
  have "False" if held: "dezhan_held s b k" for k
    using none [of k] advanced_same(1) [OF answered(2)] dezhan_held_entry [OF held] by auto
  with answered show ?thesis
    by (intro rebucketed_keeps [OF answered(2,5), of "AList.delete b (Buckets v)" b None])
      (simp_all add: delete_conv')
qed simp

lemma dezhan_delete_object_keeps:
  assumes "request env (valid_bucket b \<and> k \<noteq> []) (s3_delete_object env b k False) s = (e, t)"
  shows "keeps dezhan_buckets dezhan_held s t"
proof -
  let ?erased = "\<lambda>v. reindexed v (b @ ''/'' @ k) None (Vlt t) \<and>
    (\<not> Bucket_Versioned v b \<longrightarrow> erasable v (b @ ''/'' @ k))"
  have erased: "keeps dezhan_buckets dezhan_held s t"
    if "advanced s v" "Samples t = tl (Samples s)" "?erased v" "valid_bucket b" for v
    using that by (auto intro!: reindexed_keeps [of s v t b k])
  from assms s3_delete_object_wp show ?thesis
  proof (cases rule: request_cases)
    case (failed v m)
    then consider "Vlt t = v" | "kept v (Vlt t)" | "?erased v" by blast
    then show ?thesis using failed erased by cases (auto intro: advanced_keeps kept_keeps)
  next
    case (answered v r)
    then consider "kept v (Vlt t)" | "?erased v" by blast
    then show ?thesis using answered erased by cases (auto intro: kept_keeps)
  qed simp
qed

lemma dezhan_copy_keeps:
  assumes "request env (valid_bucket b \<and> k \<noteq> []) (s3_copy_object env b k cs r' g m') s = (e, t)"
  shows "keeps dezhan_buckets dezhan_held s t"
proof -
  have copied: "keeps dezhan_buckets dezhan_held s t"
    if "advanced s v" "Samples t = tl (Samples s)" "copied env v b k cs (Vlt t)" "valid_bucket b" for v
    using that by (auto simp: copied_def intro!: reindexed_keeps [of s v t b k])
  from assms s3_copy_object_wp show ?thesis
  proof (cases rule: request_cases)
    case (failed v m)
    then consider "Vlt t = v" | "kept v (Vlt t)" | "copied env v b k cs (Vlt t)" by blast
    then show ?thesis using failed copied by cases (auto intro: advanced_keeps kept_keeps)
  next
    case (answered v r)
    then consider "kept v (Vlt t)" | "copied env v b k cs (Vlt t)" by blast
    then show ?thesis using answered copied by cases (auto intro: kept_keeps)
  qed simp
qed

interpretation dw: s3_worm "dezhan_client env" dezhan_buckets dezhan_fresh dezhan_size dezhan_listable
  "dezhan_source env" dezhan_held for env :: "'d vault_env"
proof (unfold_locales, unfold dezhan_client_simps, goal_cases)
  case (1 s b k)
  then obtain m where m: "map_of (Index (Vlt s)) (b @ CHR ''/'' # k) = Some m" "Bucket_Exists (Vlt s) b"
    by (rule dezhan_held_entry)
  with 1 show ?case by (simp add: dezhan_held_def object_at_def vault_bucket_def)
next
  case (2 b s r t)
  then show ?case by (rule dezhan_create_keeps)
next
  case (3 b s r t)
  then show ?case by (rule dezhan_delete_bucket_keeps)
next
  case (4 b k s r t)
  then show ?case by (rule dezhan_delete_object_keeps)
next
  case (5 b k cs s r t)
  then show ?case by (rule dezhan_copy_keeps)
next
  case (6 p s x p' t)
  then show ?case using dezhan_page_state [of env p s x p' t] by (auto intro: advanced_keeps)
qed

section \<open>The server keeps its audit log\<close>

text \<open>The state before a request and the one after it, as far as the log is concerned.\<close>

definition audit_grows :: "'d vault_env \<Rightarrow> 'd server \<Rightarrow> 'd server \<Rightarrow> bool" where
  "audit_grows env s t \<longleftrightarrow> logged env (Vlt s) (Vlt t)"

lemma serve_logs:
  assumes "\<And>v. logs env v (h v)" and "serve env h s = (r, t)"
  shows "audit_grows env s t"
proof -
  let ?tick = "case Samples s of [] \<Rightarrow> io_return () | x # xs \<Rightarrow> Tick_From_System env (fst x) (snd x)"
  have "logs env (Vlt s) (io_bind ?tick (\<lambda>_. h) (Vlt s))"
    using assms(1) by (intro logs_bind) (auto intro: logs_return logs_Tick_From_System split: list.split)
  with assms(2) show ?thesis
    by (cases "Samples s")
      (auto simp: serve_def audit_grows_def logs_def intro: logged_same split: option.splits sum.splits prod.splits)
qed

lemma request_logs:
  assumes "\<And>v. logs env v (h v)" and "request env valid h s = (e, t)"
  shows "audit_grows env s t"
proof (cases valid)
  case True
  obtain r u where "serve env h s = (r, u)" by fastforce
  with serve_logs [OF assms(1) this] assms(2) True show ?thesis
    by (auto simp: request_def split: sum.splits)
next
  case False
  with assms(2) show ?thesis by (simp add: request_def audit_grows_def logged_same)
qed

lemma dezhan_page_logs:
  assumes "dezhan_page env p s = (x, p', t)"
  shows "audit_grows env s t"
proof (cases "valid_bucket (pg_bucket p)")
  case True
  obtain r u where sv: "serve env (s3_list env (pg_bucket p) (aws_ToString (pg_token p))) s = (r, u)" by fastforce
  have "logs env v (s3_list env b token v)" for v b token
    by (auto simp: s3_list_def intro: logs_return)
  from serve_logs [OF this sv] assms True sv show ?thesis
    by (auto simp: dezhan_page_def split: sum.splits)
next
  case False
  with assms show ?thesis by (simp add: dezhan_page_def audit_grows_def logged_same)
qed

lemma logs_handlers:
  "logs env v (s3_put_bucket b l v)" "logs env v (s3_delete_bucket b v)"
  "logs env v (s3_delete_object env b k bypass v)"
  "logs env v (s3_copy_object env b k cs retain governance meta v)"
  unfolding s3_put_bucket_def s3_delete_bucket_def s3_delete_object_def s3_copy_object_def Let_def
  by (auto intro!: logs_return logs_bind logs_operations)

interpretation da: s3_rel "dezhan_client env" dezhan_buckets dezhan_fresh dezhan_size dezhan_listable
  "dezhan_source env" "audit_grows env" for env :: "'d vault_env"
proof (unfold_locales, unfold dezhan_client_simps, goal_cases)
  case (1 s)
  show ?case by (simp add: audit_grows_def logged_same)
next
  case (2 s t u)
  then show ?case by (auto simp: audit_grows_def intro: logged_trans)
next
  case (7 p s x p' t)
  then show ?case by (rule dezhan_page_logs)
qed (rule request_logs, rule logs_handlers, assumption)+

end
