(* ===== verification/Csi_Dezhan.thy ===== *)
theory Csi_Dezhan
  imports Csi_Services Dezhan_Contract
begin

text \<open>
  The CSI driver on the dezhan server: the contract's consequences for the server itself, which
  \<open>Dezhan_Contract\<close> shows to keep it, and the two places where driver and server do not fit
  together.
\<close>

lemma client_const [simp]: "client (\<lambda>_. cl) c = cl"
  by (simp add: client_def)

section \<open>Samples\<close>

text \<open>A server with an object-lock bucket that holds one object under compliance retention.\<close>

definition locked_server :: "(string \<times> bytes) list server" where
  "locked_server = \<lparr>Vlt = empty_vault\<lparr>Buckets := [(''wb'', True)],
     Store := [(replicate 64 (char_of (0::nat)), ''hi'')],
     Index := [(''wb/k'', \<lparr>Id = replicate 64 (char_of (0::nat)), Lock = Create_Lock Compliance 5 0,
        Composite = False, Quarantined = False, Size = 2, User_Meta = []\<rparr>)]\<rparr>, Samples = []\<rparr>"

lemma locked_server_held: "dezhan_held locked_server ''wb'' ''k''"
  by (simp add: dezhan_held_def locked_server_def valid_bucket_def Bucket_Object_Lock_def
      Bucket_Versioned_def Can_Delete_def Create_Lock_def clock_view_def empty_vault_def Now_def Init_def)

lemma DeleteVolume_dezhan_returns:
  assumes "connFrom (del_Secrets req) Map.empty = Inr conn" and "del_Id req \<noteq> []"
  shows "\<exists>r t. DeleteVolume (\<lambda>_. dezhan_client env) req s = Some (r, t)"
  using io_wp_returns [OF dz.DeleteVolume_wp [where s3_New = "\<lambda>_. dezhan_client env", OF _ assms]] by simp

section \<open>Held objects\<close>



text \<open>
  A volume with a held object is never reported deleted: \<open>DeleteVolume\<close> on its bucket fails, and
  the object is still there.
\<close>

lemma DeleteVolume_held_fails:
  assumes "dezhan_held s (del_Id req) k" and "DeleteVolume (\<lambda>_. dezhan_client env) req s = Some (r, t)"
  shows "(\<exists>e. r = Inl e) \<and> object_at dezhan_buckets t (del_Id req) k = object_at dezhan_buckets s (del_Id req) k"
proof -
  have "del_Id req \<noteq> []" using assms(1) by (simp add: dezhan_held_def valid_bucket_def)
  show ?thesis
  proof (cases "connFrom (del_Secrets req) Map.empty")
    case (Inl e)
    with assms(2) \<open>del_Id req \<noteq> []\<close> show ?thesis by (auto simp: DeleteVolume_def io_throw_def)
  next
    case (Inr conn)
    with assms(2) \<open>del_Id req \<noteq> []\<close> obtain r' where d: "deleteBucket (dezhan_client env) (del_Id req) s = Some (r', t)"
      and r: "r' = Inl e \<Longrightarrow> \<exists>e'. r = Inl e'" for e
      by (auto simp: DeleteVolume_def io_try_Some io_throw_def io_return_def)
    from dw.deleteBucket_held [OF assms(1) d] r show ?thesis by blast
  qed
qed

section \<open>Copy sources\<close>

lemma slash_not_escaped: "CHR ''/'' \<notin> set (PathEscape s)"
proof -
  have hex: "hex_digit n \<noteq> CHR ''/''" if "n < 16" for n
    using that by (auto simp: hex_digit_def char_of_eq)
  have plain: "\<not> path_plain (CHR ''/'')" by (simp add: path_plain_def)
  have "CHR ''/'' \<notin> set (escape_byte c)" for c
  proof -
    have "of_char c < (256 :: nat)" by simp
    then have "(of_char c :: nat) div 16 < 16" by (simp add: less_mult_imp_div_less)
    from hex [OF this] hex [of "of_char c mod 16"] plain show ?thesis
      by (cases "path_plain c") (auto simp: escape_byte_def)
  qed
  then show ?thesis by (auto simp: PathEscape_def)
qed

lemma copy_source_name_slash: "CHR ''/'' \<notin> set cs \<Longrightarrow> copy_source_name cs = cs"
  by (cases cs) (auto simp: copy_source_name_def)

text \<open>The server reads the driver's copy source as a name without a slash.\<close>

lemma vault_source_escaped:
  assumes "\<forall>n. map_of (Index v) n \<noteq> None \<longrightarrow> CHR ''/'' \<in> set n"
  shows "vault_source env v (PathEscape p) = None"
proof -
  have "map_of (Index v) (copy_source_name (PathEscape p)) = None"
    using assms slash_not_escaped [of p] by (auto simp: copy_source_name_slash intro: ccontr)
  then show ?thesis by (simp add: vault_source_def Get_Object_def io_throw_def)
qed

lemma createBucket_Index:
  assumes "createBucket (dezhan_client env) b s = Some (r, t)"
  shows "Index (Vlt t) = Index (Vlt s)"
proof -
  obtain e u where q: "request env (valid_bucket b) (s3_put_bucket b False) s = (e, u)" by fastforce
  with assms have "u = t"
    by (cases e) (auto simp: createBucket_def io_try_Some sdk_def io_throw_def io_return_def split: if_splits)
  from q s3_put_bucket_wp have "Index (Vlt u) = Index (Vlt s)"
    by (cases rule: request_cases) (auto simp: advanced_same)
  with \<open>u = t\<close> show ?thesis by simp
qed

lemma drain_Index: "drain (dezhan_client env) n p s = Some (r, t) \<Longrightarrow> Index (Vlt t) = Index (Vlt s)"
proof (induction n arbitrary: p s r)
  case 0
  then show ?case by (simp split: if_splits)
next
  case (Suc n)
  obtain x p' u where pg: "dezhan_page env p s = (x, p', u)" by (cases "dezhan_page env p s")
  with Suc dezhan_page_same(1) [OF pg] show ?case
    by (cases x) (auto split: if_splits)
qed

lemma listKeys_Index:
  assumes "listKeys (dezhan_client env) b s = Some (r, t)"
  shows "Index (Vlt t) = Index (Vlt s)"
proof -
  obtain n r' u where d: "drain (dezhan_client env) n (sdk_NewPaginator (dezhan_client env) b) s = Some (r', u)"
    using dz.list_returns by blast
  from listKeys_drain [OF d] assms have "u = t" by simp
  with drain_Index [OF d] show ?thesis by simp
qed

text \<open>
  C35: Snapshots of a non-empty volume fail on the dezhan server.  The driver sends the copy source
  with its slash percent-encoded and the server takes it literally, so when every object of the
  vault belongs to a bucket, \<open>CreateSnapshot\<close> of a volume with at least one object (and at most a
  thousand) never succeeds.
\<close>

theorem CreateSnapshot_fails_on_dezhan:
  assumes "CreateSnapshot (\<lambda>_. dezhan_client env) ul now req s = Some (r, t)"
    and "dezhan_buckets s (cs_SourceVolumeId req) = Some m" "m \<noteq> Map.empty" "dezhan_listable m"
    and "cs_SourceVolumeId req \<noteq> snapshotBucket ul (cs_Name req)"
    and "\<forall>n. map_of (Index (Vlt s)) n \<noteq> None \<longrightarrow> CHR ''/'' \<in> set n"
  shows "\<exists>e. r = Inl e"
proof (rule ccontr)
  assume "\<nexists>e. r = Inl e"
  then obtain sn where r: "r = Inr sn" by (cases r) auto
  let ?cl = "dezhan_client env" and ?src = "cs_SourceVolumeId req" and ?dst = "snapshotBucket ul (cs_Name req)"
  from assms(1) r obtain size where "copyAll ?cl ?src ?dst s = Some (Inr size, t)"
    by (auto simp: CreateSnapshot_def Let_def io_try_Some io_throw_def io_return_def split: if_splits sum.splits)
  then obtain s1 keys tot s2 s3 where run: "createBucket ?cl ?dst s = Some (Inr (), s1)"
    "listKeys ?cl ?src s1 = Some (Inr (keys, tot), s2)"
    "for_each (\<lambda>k. io_try (sdk (sdk_CopyObject ?cl ?dst k (PathEscape (?src @ ''/'' @ k))))
       (\<lambda>err. io_throw (ErrWrap (''copy '' @ ?src @ ''/'' @ k @ '' -> '' @ ?dst) err)) io_return) keys s2 = Some (Inr (), s3)"
    by (auto simp: copyAll_def io_try_Some io_throw_def io_return_def split: prod.splits)
  have "dezhan_buckets s1 ?src = Some m"
    using io_wlp_result [OF io_wp_imp_wlp [OF dz.createBucket_wp] run(1)] assms(2,5) by simp
  with io_wlp_result [OF io_wp_imp_wlp [OF dz.listKeys_wp] run(2)] assms(4) have "set keys = dom m" by auto
  with assms(3) obtain k ks where keys: "keys = k # ks" by (cases keys) auto
  with run(3) obtain s4 where "sdk_CopyObject ?cl ?dst k (PathEscape (?src @ ''/'' @ k)) s2 = (None, s4)"
    by (auto simp: io_try_Some sdk_def io_throw_def io_return_def split: prod.splits option.splits)
  from dz.copy_ok [OF this] have "vault_source env (Vlt s2) (PathEscape (?src @ ''/'' @ k)) \<noteq> None" by auto
  moreover have "Index (Vlt s2) = Index (Vlt s)"
    using createBucket_Index [OF run(1)] listKeys_Index [OF run(2)] by simp
  ultimately show False using vault_source_escaped [of "Vlt s2"] assms(6) by simp
qed

text \<open>A server with a volume of one object, in an ordinary bucket.\<close>

definition volume_server :: "(string \<times> bytes) list server" where
  "volume_server = \<lparr>Vlt = empty_vault\<lparr>Buckets := [(''pvc-1'', False)],
     Store := [(replicate 64 (char_of (0::nat)), ''hi'')],
     Index := [(''pvc-1/k'', \<lparr>Id = replicate 64 (char_of (0::nat)), Lock = Create_Lock Governance 0 0,
        Composite = False, Quarantined = False, Size = 2, User_Meta = []\<rparr>)]\<rparr>, Samples = []\<rparr>"

lemma CreateSnapshot_dezhan_returns:
  assumes "connFrom (cs_Secrets req) (cs_Parameters req) = Inr conn" and "cs_Name req \<noteq> []" "cs_SourceVolumeId req \<noteq> []"
  shows "\<exists>r t. CreateSnapshot (\<lambda>_. dezhan_client env) ul now req s = Some (r, t)"
proof -
  obtain r t where "copyAll (dezhan_client env) (cs_SourceVolumeId req) (snapshotBucket ul (cs_Name req)) s = Some (r, t)"
    using io_wp_returns [OF dz.copyAll_frame] by blast
  then show ?thesis unfolding CreateSnapshot_valid [OF assms(2,3,1)]
    by (cases r) (auto simp: io_defs)
qed

theorem CreateSnapshot_fails_on_dezhan_witness:
  "\<exists>e t. CreateSnapshot (\<lambda>_. dezhan_client list_env) (\<lambda>s. s) 7 snapshot_request volume_server = Some (Inl e, t)"
proof -
  obtain r t where d: "CreateSnapshot (\<lambda>_. dezhan_client list_env) (\<lambda>s. s) 7 snapshot_request volume_server = Some (r, t)"
    using CreateSnapshot_dezhan_returns [of snapshot_request sample_conn list_env "\<lambda>s. s" 7 volume_server]
      connFrom_sample by (auto simp: snapshot_request_def)
  have "\<exists>e. r = Inl e"
    by (rule CreateSnapshot_fails_on_dezhan [OF d, where m = "[''k'' \<mapsto> (False, replicate 64 (char_of (0::nat)), 2)]"])
      (auto simp: snapshot_request_def sample_names volume_server_def vault_bucket_def valid_bucket_def
        Bucket_Exists_def entry_of_def dezhan_listable_def fun_eq_iff split: if_splits)
  with d show ?thesis by blast
qed

text \<open>
  Deleting a volume twice fails on the dezhan server.  The driver treats a \<open>NoSuchBucket\<close> error of
  \<open>DeleteBucket\<close> as success, but the server answers the deletion of a missing bucket with a plain
  404, so \<open>DeleteVolume\<close> of a volume whose bucket does not exist never succeeds.
\<close>

lemma DeleteVolume_missing_fails_on_dezhan:
  assumes "DeleteVolume (\<lambda>_. dezhan_client env) req s = Some (r, t)"
    and "dezhan_buckets s (del_Id req) = None"
  shows "\<exists>e. r = Inl e"
proof (rule ccontr)
  assume "\<nexists>e. r = Inl e"
  then obtain u where r: "r = Inr u" by (cases r) auto
  let ?cl = "dezhan_client env" and ?b = "del_Id req"
  from assms(1) r obtain s1 e where run: "emptyBucket ?cl ?b s = Some (Inr (), s1)"
    "sdk_DeleteBucket ?cl ?b s1 = (e, t)" "e = None \<or> e = Some NoSuchBucket"
    by (auto simp: DeleteVolume_def deleteBucket_def io_try_Some sdk_def io_throw_def io_return_def
        split: if_splits sum.splits prod.splits option.splits)
  have "dz.shrunk ?b s s1" using io_wlp_result [OF io_wp_imp_wlp [OF dz.emptyBucket_wp] run(1)] by blast
  then have "dezhan_buckets s1 ?b = None" using assms(2) by (auto simp: dz.shrunk_def)
  with dezhan_delete_bucket [of env ?b s1 e t] run(2,3) show False by auto
qed

end
