(* ===== verification/Ctl_Client.thy ===== *)
theory Ctl_Client
  imports Go_Strings
begin

text \<open>
  \<open>src/ctl/internal/client\<close>: the HTTP client of \<open>dezhanctl\<close> (\<open>client.go\<close>, \<open>stat.go\<close>).  Each method is an
  action over the state of whatever answers the requests.

  Parameters (\<open>http_env\<close>): \<open>http.NewRequestWithContext\<close>, which may reject a URL, and
  \<open>http.Client.Do\<close>, which returns a response or an error; the body of a response is what
  \<open>io.ReadAll\<close> makes of it.  \<open>strconv.ParseFloat\<close> is the parameter \<open>pf\<close>.  A Go error is its text.
  Headers that are set are a map; received headers are the list of entries in the order in
  which \<open>range\<close> visits them.
\<close>

section \<open>Requests\<close>

record http_Request =
  req_Method :: string
  req_URL :: string
  req_Header :: "string \<rightharpoonup> string"
  req_Body :: "bytes option"

record http_Response =
  StatusCode :: int
  resp_Header :: "(string \<times> string list) list"
  resp_Body :: "string + bytes"

record 's http_env =
  NewRequest :: "string \<Rightarrow> string \<Rightarrow> string option"
  Do :: "http_Request \<Rightarrow> 's \<Rightarrow> (string + http_Response) \<times> 's"

record ctl_Client =
  ctl_Endpoint :: string

definition New_Client :: "string \<Rightarrow> ctl_Client" where
  "New_Client endpoint = \<lparr>ctl_Endpoint = TrimRightByte endpoint (CHR ''/'')\<rparr>"

definition do_request ::
  "'s http_env \<Rightarrow> ctl_Client \<Rightarrow> string \<Rightarrow> string \<Rightarrow> (string \<rightharpoonup> string) \<Rightarrow> bytes option \<Rightarrow>
     ('s, string, http_Response) io" where
  "do_request he c method path headers body =
     (case NewRequest he method (ctl_Endpoint c @ path) of
        Some err \<Rightarrow> io_throw err
      | None \<Rightarrow> (\<lambda>s. Some (Do he \<lparr>req_Method = method, req_URL = ctl_Endpoint c @ path,
                             req_Header = headers, req_Body = body\<rparr> s)))"

definition text_request ::
  "'s http_env \<Rightarrow> ctl_Client \<Rightarrow> string \<Rightarrow> string \<Rightarrow> (string \<rightharpoonup> string) \<Rightarrow> bytes option \<Rightarrow>
     ('s, string, bytes \<times> int) io" where
  "text_request he c method path headers body =
     io_try (do_request he c method path headers body) io_throw (\<lambda>resp.
       case resp_Body resp of
         Inl err \<Rightarrow> io_throw err
       | Inr b \<Rightarrow> io_return (b, StatusCode resp))"

section \<open>Methods\<close>

definition Health :: "'s http_env \<Rightarrow> ctl_Client \<Rightarrow> ('s, string, string) io" where
  "Health he c = io_try (text_request he c ''GET'' ''/healthz'' Map.empty None) io_throw
     (\<lambda>(body, code). if code \<noteq> 200 then io_throw (''healthz: HTTP '' @ Itoa code)
        else io_return (TrimSpace body))"

definition Server_Version :: "'s http_env \<Rightarrow> ctl_Client \<Rightarrow> ('s, string, string) io" where
  "Server_Version he c = io_try (text_request he c ''GET'' ''/version'' Map.empty None) io_throw
     (\<lambda>(body, code). if code \<noteq> 200 then io_throw (''version: HTTP '' @ Itoa code)
        else io_return (TrimSpace body))"

definition parse_names :: "bytes \<Rightarrow> string list" where
  "parse_names body = sort (filter (\<lambda>s. s \<noteq> []) (map TrimSpace (Split body (CHR ''\<newline>''))))"

definition List_Names :: "'s http_env \<Rightarrow> ctl_Client \<Rightarrow> ('s, string, string list) io" where
  "List_Names he c = io_try (text_request he c ''GET'' ''/v'' Map.empty None) io_throw
     (\<lambda>(body, code). if code \<noteq> 200 then io_throw (''list: HTTP '' @ Itoa code)
        else io_return (parse_names body))"

definition Client_Get :: "'s http_env \<Rightarrow> ctl_Client \<Rightarrow> string \<Rightarrow> ('s, string, bytes) io" where
  "Client_Get he c name = io_try (do_request he c ''GET'' (''/v/'' @ name) Map.empty None) io_throw
     (\<lambda>resp. case resp_Body resp of
        Inl err \<Rightarrow> io_throw err
      | Inr b \<Rightarrow> if StatusCode resp \<noteq> 200
          then io_throw (''get '' @ name @ '': HTTP '' @ Itoa (StatusCode resp) @ '': '' @ TrimSpace b)
          else io_return b)"

definition Client_Put ::
  "'s http_env \<Rightarrow> ctl_Client \<Rightarrow> string \<Rightarrow> bytes \<Rightarrow> string \<Rightarrow> int \<Rightarrow> ('s, string, string) io" where
  "Client_Put he c name data mode retainSecs =
     io_try (text_request he c ''PUT'' (''/v/'' @ name)
         [''X-Dezhan-Mode'' \<mapsto> mode, ''X-Dezhan-Retain'' \<mapsto> Itoa retainSecs,
          ''Content-Type'' \<mapsto> ''application/octet-stream''] (Some data)) io_throw
       (\<lambda>(body, code). if code \<noteq> 200 \<and> code \<noteq> 201
          then io_throw (''put '' @ name @ '': HTTP '' @ Itoa code @ '': '' @ TrimSpace body)
          else io_return (TrimSpace body))"

definition Client_Delete :: "'s http_env \<Rightarrow> ctl_Client \<Rightarrow> string \<Rightarrow> bool \<Rightarrow> ('s, string, string) io" where
  "Client_Delete he c name bypass =
     io_try (text_request he c ''DELETE'' (''/v/'' @ name)
         (if bypass then [''X-Dezhan-Bypass'' \<mapsto> ''1''] else Map.empty) None) io_throw
       (\<lambda>(body, code). if code \<noteq> 200
          then io_throw (''delete '' @ name @ '': HTTP '' @ Itoa code @ '': '' @ TrimSpace body)
          else io_return (TrimSpace body))"

definition Client_Admin :: "'s http_env \<Rightarrow> ctl_Client \<Rightarrow> string \<Rightarrow> string \<Rightarrow> ('s, string, string) io" where
  "Client_Admin he c action token =
     io_try (text_request he c ''POST'' (''/admin/'' @ action)
         (if token \<noteq> [] then [''X-Dezhan-Admin-Token'' \<mapsto> token] else Map.empty) None) io_throw
       (\<lambda>(body, code). if code \<noteq> 200
          then io_throw (''admin '' @ action @ '': HTTP '' @ Itoa code @ '': '' @ TrimSpace body)
          else io_return (TrimSpace body))"

section \<open>Metrics\<close>

record 'f Metrics =
  Values :: "string \<rightharpoonup> 'f"
  Metrics_Version :: string
  Raw :: string

definition cut :: "string \<Rightarrow> string \<Rightarrow> string \<times> string \<times> bool" where
  "cut s sep = (case Go_Strings.Index s sep of
       Some i \<Rightarrow> (take i s, drop (i + length sep) s, True)
     | None \<Rightarrow> (s, [], False))"

primrec label_scan :: "string list \<Rightarrow> string \<Rightarrow> string" where
  "label_scan [] key = []"
| "label_scan (kv # kvs) key =
     (case cut kv ''='' of (k, v, ok) \<Rightarrow>
        if ok \<and> TrimSpace k = key then TrimByte (TrimSpace v) (CHR 0x22) else label_scan kvs key)"

definition labelValue :: "string \<Rightarrow> string \<Rightarrow> string" where
  "labelValue labels key = label_scan (Split labels (CHR '','')) key"

text \<open>
  \<open>bufio.Scanner\<close> over the whole body with the default buffer: lines end at a line feed, a
  trailing carriage return is dropped, an empty rest is no line, and a line of 65536 bytes or
  more stops the scan with \<open>bufio.ErrTooLong\<close>.
\<close>

definition MaxScanTokenSize :: nat where
  "MaxScanTokenSize = 65536"

definition dropCR :: "string \<Rightarrow> string" where
  "dropCR s = (if s \<noteq> [] \<and> last s = CHR 0x0D then butlast s else s)"

fun scan_pieces :: "string list \<Rightarrow> string list \<times> bool" where
  "scan_pieces [] = ([], False)"
| "scan_pieces [p] = (if p = [] then ([], False)
     else if MaxScanTokenSize \<le> length p then ([], True) else ([dropCR p], False))"
| "scan_pieces (p # ps) = (if MaxScanTokenSize \<le> length p then ([], True)
     else (case scan_pieces ps of (ls, e) \<Rightarrow> (dropCR p # ls, e)))"

definition scan_lines :: "string \<Rightarrow> string list \<times> bool" where
  "scan_lines body = scan_pieces (Split body (CHR ''\<newline>''))"

text \<open>
  The body of the scanning loop; \<^term>\<open>None\<close> is the panic of \<open>strings.Fields(rest)[0]\<close> on an empty
  list of fields.
\<close>

definition metrics_line ::
  "(string \<Rightarrow> 'f option) \<Rightarrow> 'f Metrics \<Rightarrow> string \<Rightarrow> 'f Metrics option" where
  "metrics_line pf m text =
    (let line = TrimSpace text in
     if line = [] \<or> HasPrefix line ''#'' then Some m
     else (case cut line '' '' of (name, rest, ok) \<Rightarrow>
       if \<not> ok then Some m
       else
        (let (base, labels, hasLabels) = cut name ''{'';
             m1 = (if hasLabels \<and> base = ''dezhan_build_info''
                   then m\<lparr>Metrics_Version := labelValue (TrimSuffix labels ''}'') ''version''\<rparr> else m);
             name1 = (if hasLabels then base else name)
         in case Fields rest of
              [] \<Rightarrow> None
            | f # fs \<Rightarrow> (case pf f of
                  Some v \<Rightarrow> Some (m1\<lparr>Values := (Values m1)(name1 \<mapsto> v)\<rparr>)
                | None \<Rightarrow> Some m1))))"

primrec metrics_lines ::
  "(string \<Rightarrow> 'f option) \<Rightarrow> 'f Metrics \<Rightarrow> string list \<Rightarrow> 'f Metrics option" where
  "metrics_lines pf m [] = Some m"
| "metrics_lines pf m (l # ls) = (case metrics_line pf m l of
       None \<Rightarrow> None | Some m' \<Rightarrow> metrics_lines pf m' ls)"

definition parse_metrics ::
  "(string \<Rightarrow> 'f option) \<Rightarrow> bytes \<Rightarrow> ('f Metrics \<times> string option) option" where
  "parse_metrics pf body = (case scan_lines body of (ls, too_long) \<Rightarrow>
     map_option (\<lambda>m. (m, if too_long then Some ''bufio.Scanner: token too long'' else None))
       (metrics_lines pf \<lparr>Values = Map.empty, Metrics_Version = [], Raw = body\<rparr> ls))"

text \<open>The method returns the metrics read so far together with the scanner's error.\<close>

definition Client_Metrics ::
  "(string \<Rightarrow> 'f option) \<Rightarrow> 's http_env \<Rightarrow> ctl_Client \<Rightarrow> ('s, string, 'f Metrics \<times> string option) io" where
  "Client_Metrics pf he c = io_try (text_request he c ''GET'' ''/metrics'' Map.empty None) io_throw
     (\<lambda>(body, code). if code \<noteq> 200 then io_throw (''metrics: HTTP '' @ Itoa code)
        else (\<lambda>s. map_option (\<lambda>r. (Inr r, s)) (parse_metrics pf body)))"

definition Metrics_Get :: "('f::zero) Metrics \<Rightarrow> string \<Rightarrow> 'f" where
  "Metrics_Get m name = (case Values m name of None \<Rightarrow> 0 | Some v \<Rightarrow> v)"

section \<open>Stat\<close>

text \<open>The headers and status are returned with the error as well.\<close>

definition Client_Stat ::
  "'s http_env \<Rightarrow> ctl_Client \<Rightarrow> string \<Rightarrow>
     ('s, string, ((string \<times> string list) list \<times> int) \<times> string option) io" where
  "Client_Stat he c name = io_try (do_request he c ''HEAD'' (''/v/'' @ name) Map.empty None) io_throw
     (\<lambda>resp. io_return ((resp_Header resp, StatusCode resp),
        if StatusCode resp = 404 then Some (''stat '' @ name @ '': not found'')
        else if StatusCode resp \<noteq> 200 then Some (''stat '' @ name @ '': HTTP '' @ Itoa (StatusCode resp))
        else None))"

definition interesting :: "string \<Rightarrow> bool" where
  "interesting lk \<longleftrightarrow> lk = ''content-length'' \<or> lk = ''content-type'' \<or> lk = ''etag'' \<or>
     lk = ''last-modified'' \<or> HasPrefix lk ''x-dezhan-'' \<or> HasPrefix lk ''x-amz-meta-'' \<or>
     HasPrefix lk ''x-amz-version-id''"

definition InterestingHeaders ::
  "(string \<Rightarrow> string) \<Rightarrow> (string \<times> string list) list \<Rightarrow> (string \<rightharpoonup> string)" where
  "InterestingHeaders ul h = foldl (\<lambda>out (k, v).
     let lk = ToLower ul k in if interesting lk then out(lk \<mapsto> Join v '', '') else out) Map.empty h"

section \<open>Successful requests\<close>

text \<open>The state a method ends in is the one its request ends in.\<close>

lemma io_try_last:
  assumes "io_try m io_throw k s = Some (r, t)" and "\<And>x s'. \<exists>y. k x s' = Some (y, s')"
  shows "\<exists>x. m s = Some (x, t)"
proof -
  from assms(1) consider e where "m s = Some (Inl e, t)" | x s' where "m s = Some (Inr x, s')" "k x s' = Some (r, t)"
    by (auto simp: io_try_Some io_throw_def)
  then show ?thesis
  proof cases
    case 2
    with assms(2) [of x s'] show ?thesis by auto
  qed blast
qed

lemma text_request_state:
  assumes "text_request he c method path hdr body s = Some (r, t)"
  shows "\<exists>x. do_request he c method path hdr body s = Some (x, t)"
  using assms unfolding text_request_def
  by (rule io_try_last) (auto simp: io_throw_def io_return_def split: sum.split)

lemma Client_Delete_state:
  assumes "Client_Delete he c name bypass s = Some (r, t)"
  shows "\<exists>x. do_request he c ''DELETE'' (''/v/'' @ name)
     (if bypass then [''X-Dezhan-Bypass'' \<mapsto> ''1''] else Map.empty) None s = Some (x, t)"
proof -
  have "\<exists>x. text_request he c ''DELETE'' (''/v/'' @ name)
      (if bypass then [''X-Dezhan-Bypass'' \<mapsto> ''1''] else Map.empty) None s = Some (x, t)"
    using assms unfolding Client_Delete_def
    by (rule io_try_last) (auto simp: io_throw_def io_return_def split: prod.split)
  then show ?thesis by (auto dest: text_request_state)
qed

lemma text_request_Inr:
  "text_request he c method path hdr body s = Some (Inr (b, code), t) \<longleftrightarrow>
     (\<exists>resp. do_request he c method path hdr body s = Some (Inr resp, t) \<and>
        resp_Body resp = Inr b \<and> StatusCode resp = code)" (is "?L \<longleftrightarrow> ?R")
proof
  assume ?L
  then obtain resp s' where r: "do_request he c method path hdr body s = Some (Inr resp, s')"
    "(case resp_Body resp of Inl err \<Rightarrow> io_throw err | Inr b \<Rightarrow> io_return (b, StatusCode resp)) s' = Some (Inr (b, code), t)"
    by (auto simp: text_request_def io_try_Some io_throw_def)
  then show ?R by (cases "resp_Body resp") (auto simp: io_throw_def io_return_def)
qed (auto simp: text_request_def io_try_Some io_return_def)

section \<open>The metrics parser returns\<close>

lemma cut_True: "cut s sep = (a, b, True) \<Longrightarrow> s = a @ sep @ b"
  by (auto simp: cut_def split: option.splits dest: Index_Some)

lemma cut_byte: "d \<notin> set a \<Longrightarrow> cut (a @ d # b) [d] = (a, b, True)"
  by (simp add: cut_def Index_byte)

lemma cut_byte_None: "d \<notin> set s \<Longrightarrow> cut s [d] = (s, [], False)"
proof -
  assume "d \<notin> set s"
  then have "Go_Strings.Index s [d] = None" by (auto simp: Index_None)
  then show ?thesis by (simp add: cut_def)
qed

text \<open>The field that is indexed exists: what follows the first space of a trimmed line has a word.\<close>

lemma rest_Fields:
  assumes "cut (TrimSpace text) '' '' = (name, rest, True)"
  shows "Fields rest \<noteq> []"
proof -
  from cut_True [OF assms] have line: "TrimSpace text = (name @ '' '') @ rest" by simp
  have "space_end (TrimSpace text) = None" by (rule space_end_TrimSpace)
  then have rest: "space_end rest = None" unfolding line by (rule space_end_append)
  have "rest \<noteq> []"
  proof
    assume "rest = []"
    with line have "HasSuffix (TrimSpace text) '' ''" by (simp add: HasSuffix_conv)
    moreover have "'' '' \<in> set space_codes"
      by (simp add: space_codes_def bytes_of_def eq_char_of)
    ultimately have "space_end (TrimSpace text) \<noteq> None" by (auto simp: space_end_def find_None_iff)
    then show False by (simp add: space_end_TrimSpace)
  qed
  with rest show ?thesis by (intro Fields_nonempty)
qed

lemma metrics_line_returns: "metrics_line pf m text \<noteq> None"
proof -
  obtain name rest ok where c: "cut (TrimSpace text) '' '' = (name, rest, ok)"
    by (cases "cut (TrimSpace text) '' ''")
  show ?thesis
  proof (cases ok)
    case True
    with c have "Fields rest \<noteq> []" by (intro rest_Fields [of "text" name]) simp
    then obtain f fs where "Fields rest = f # fs" by (cases "Fields rest") blast+
    with c show ?thesis
      by (auto simp: metrics_line_def Let_def split: option.splits prod.splits)
  qed (use c in \<open>simp add: metrics_line_def Let_def\<close>)
qed

lemma metrics_lines_returns: "metrics_lines pf m ls \<noteq> None"
  using metrics_line_returns by (induction ls arbitrary: m) (auto split: option.splits)

text \<open>
  C34: No response body makes the metrics parser panic: the access to the first field behind the
  metric's name is always within bounds, so \<open>Metrics\<close> returns for every body.
\<close>

theorem parse_metrics_returns: "\<exists>m err. parse_metrics pf body = Some (m, err)"
  using metrics_lines_returns [of pf] by (auto simp: parse_metrics_def split: prod.split)

section \<open>What the parser reads\<close>

definition metric_name :: "string \<Rightarrow> bool" where
  "metric_name n \<longleftrightarrow> n \<noteq> [] \<and> hd n \<noteq> CHR ''#'' \<and> list_all (\<lambda>c. \<not> space_byte c \<and> c \<noteq> CHR ''{'') n"

definition metric_value :: "string \<Rightarrow> bool" where
  "metric_value v \<longleftrightarrow> v \<noteq> [] \<and> list_all (\<lambda>c. \<not> space_byte c) v"

lemma space_byte_ascii: "space_byte (CHR '' '')" "\<not> space_byte (CHR ''#'')" "\<not> space_byte (CHR ''{'')"
  "\<not> space_byte (CHR ''}'')" "\<not> space_byte (CHR ''='')" "\<not> space_byte (CHR 0x22)"
  by (simp_all add: space_byte_def space_codes_def bytes_of_def eq_char_of)

lemma metrics_line_comment: "metrics_line pf m (CHR ''#'' # s) = Some m"
proof -
  obtain t where "TrimSpace (CHR ''#'' # s) = CHR ''#'' # t"
    using TrimRightSpace_keeps_hd [of "CHR ''#''" s]
    by (auto simp: TrimSpace_def TrimLeftSpace_plain space_byte_ascii)
  then show ?thesis by (simp add: metrics_line_def Let_def)
qed

lemma metrics_line_sample:
  assumes "metric_name n" "metric_value v"
  shows "metrics_line pf m (n @ CHR '' '' # v) =
    Some (case pf v of Some x \<Rightarrow> m\<lparr>Values := (Values m)(n \<mapsto> x)\<rparr> | None \<Rightarrow> m)"
proof -
  let ?line = "n @ CHR '' '' # v"
  have "TrimSpace ?line = ?line"
    using assms by (intro TrimSpace_plain) (auto simp: metric_name_def metric_value_def list_all_iff)
  moreover have "\<not> HasPrefix ?line ''#''"
    using assms(1) by (cases n) (auto simp: metric_name_def)
  moreover have "cut ?line '' '' = (n, v, True)"
    using assms(1) space_byte_ascii(1) by (intro cut_byte) (auto simp: metric_name_def list_all_iff)
  moreover have "cut n ''{'' = (n, [], False)"
    using assms(1) by (intro cut_byte_None) (auto simp: metric_name_def list_all_iff)
  moreover have "Fields v = [v]"
    using assms(2) by (intro Fields_plain) (auto simp: metric_value_def list_all_iff)
  ultimately show ?thesis by (simp add: metrics_line_def Let_def split: option.split)
qed

text \<open>A version that the build-info line can carry.\<close>

definition version_text :: "string \<Rightarrow> bool" where
  "version_text v \<longleftrightarrow> v \<noteq> [] \<and> list_all (\<lambda>c. \<not> space_byte c \<and> c \<noteq> CHR '','' \<and> c \<noteq> CHR 0x22) v"

definition info_line :: "string \<Rightarrow> string \<Rightarrow> string" where
  "info_line ver v = ''dezhan_build_info{version='' @ [CHR 0x22] @ ver @ [CHR 0x22] @ ''} '' @ v"

lemma TrimByte_quoted:
  assumes "version_text ver"
  shows "TrimByte (CHR 0x22 # ver @ [CHR 0x22]) (CHR 0x22) = ver"
proof -
  from assms have "ver \<noteq> []" "hd ver \<noteq> CHR 0x22" "last ver \<noteq> CHR 0x22"
    by (auto simp: version_text_def list_all_iff)
  then have "dropWhile (\<lambda>d. d = CHR 0x22) (ver @ [CHR 0x22]) = ver @ [CHR 0x22]"
    and "dropWhile (\<lambda>d. d = CHR 0x22) (rev ver) = rev ver"
    by (simp_all add: dropWhile_eq_self_iff hd_rev)
  then show ?thesis by (simp add: TrimByte_def TrimRightByte_def)
qed

lemma metrics_line_info:
  assumes "version_text ver" "metric_value v"
  shows "metrics_line pf m (info_line ver v) =
    Some (let m1 = m\<lparr>Metrics_Version := ver\<rparr> in case pf v of
       Some x \<Rightarrow> m1\<lparr>Values := (Values m1)(''dezhan_build_info'' \<mapsto> x)\<rparr> | None \<Rightarrow> m1)"
proof -
  let ?q = "[CHR 0x22]"
  let ?name = "''dezhan_build_info{version='' @ ?q @ ver @ ?q @ ''}''"
  have line: "info_line ver v = ?name @ CHR '' '' # v" by (simp add: info_line_def)
  have sp: "CHR '' '' \<notin> set ver" "CHR '','' \<notin> set ver"
    using assms(1) space_byte_ascii(1) by (auto simp: version_text_def list_all_iff)
  have "\<not> space_byte (CHR ''d'')" by (simp add: space_byte_def space_codes_def bytes_of_def eq_char_of)
  then have trim: "TrimSpace (info_line ver v) = info_line ver v"
    using assms(2) by (intro TrimSpace_plain) (auto simp: info_line_def metric_value_def list_all_iff)
  have c1: "cut (info_line ver v) '' '' = (?name, v, True)"
    unfolding line using sp by (intro cut_byte) simp
  have c2: "cut ?name ''{'' = (''dezhan_build_info'', ''version='' @ ?q @ ver @ ?q @ ''}'', True)"
    using cut_byte [of "CHR ''{''" "''dezhan_build_info''" "''version='' @ ?q @ ver @ ?q @ ''}''"] by simp
  have suf: "TrimSuffix (''version='' @ ?q @ ver @ ?q @ ''}'') ''}'' = ''version='' @ ?q @ ver @ ?q"
    by (simp add: TrimSuffix_def HasSuffix_def)
  have free: "CHR '','' \<notin> set (''version='' @ ?q @ ver @ ?q)" using sp by simp
  have split: "Split (''version='' @ ?q @ ver @ ?q) (CHR '','') = [''version='' @ ?q @ ver @ ?q]"
    using Split_Join [of "[''version='' @ ?q @ ver @ ?q]" "CHR '',''"] free by simp
  have c3: "cut (''version='' @ ?q @ ver @ ?q) ''='' = (''version'', ?q @ ver @ ?q, True)"
    using cut_byte [of "CHR ''=''" "''version''" "?q @ ver @ ?q"] by simp
  have tv: "TrimSpace ''version'' = ''version''"
    by (rule TrimSpace_plain) (simp_all add: space_byte_def space_codes_def bytes_of_def eq_char_of)
  have tq: "TrimSpace (?q @ ver @ ?q) = ?q @ ver @ ?q"
    by (rule TrimSpace_plain) (simp_all add: space_byte_ascii)
  have label: "labelValue (''version='' @ ?q @ ver @ ?q) ''version'' = ver"
    unfolding labelValue_def split label_scan.simps c3 prod.case tv tq
    using TrimByte_quoted [OF assms(1)] by simp
  have ne: "info_line ver v \<noteq> []" "\<not> HasPrefix (info_line ver v) ''#''" by (simp_all add: info_line_def)
  have f: "Fields v = [v]" using assms(2) by (intro Fields_plain) (auto simp: metric_value_def list_all_iff)
  show ?thesis
    unfolding metrics_line_def trim Let_def c1 prod.case c2 suf label f
    using ne by (simp split: option.split)
qed

section \<open>A page of metrics\<close>

text \<open>
  The lines of a Prometheus page as the server writes them: comments, samples and the build
  information, each ended by carriage return and line feed.
\<close>

datatype metric_row = Comment_Row string | Sample_Row string string | Info_Row string string

primrec row_text :: "metric_row \<Rightarrow> string" where
  "row_text (Comment_Row s) = CHR ''#'' # s"
| "row_text (Sample_Row n v) = n @ CHR '' '' # v"
| "row_text (Info_Row ver v) = info_line ver v"

primrec row_ok :: "metric_row \<Rightarrow> bool" where
  "row_ok (Comment_Row s) = True"
| "row_ok (Sample_Row n v) = (metric_name n \<and> metric_value v)"
| "row_ok (Info_Row ver v) = (version_text ver \<and> metric_value v)"

definition line_ok :: "string \<Rightarrow> bool" where
  "line_ok s \<longleftrightarrow> CHR 0x0A \<notin> set s \<and> length s + 1 < MaxScanTokenSize"

definition render_rows :: "metric_row list \<Rightarrow> string" where
  "render_rows rows = concat (map (\<lambda>r. row_text r @ [CHR 0x0D, CHR 0x0A]) rows)"

primrec read_row :: "(string \<Rightarrow> 'f option) \<Rightarrow> 'f Metrics \<Rightarrow> metric_row \<Rightarrow> 'f Metrics" where
  "read_row pf m (Comment_Row s) = m"
| "read_row pf m (Sample_Row n v) =
     (case pf v of Some x \<Rightarrow> m\<lparr>Values := (Values m)(n \<mapsto> x)\<rparr> | None \<Rightarrow> m)"
| "read_row pf m (Info_Row ver v) = (let m1 = m\<lparr>Metrics_Version := ver\<rparr> in case pf v of
     Some x \<Rightarrow> m1\<lparr>Values := (Values m1)(''dezhan_build_info'' \<mapsto> x)\<rparr> | None \<Rightarrow> m1)"

lemma scan_lines_render:
  assumes "\<forall>r\<in>set rows. line_ok (row_text r)"
  shows "scan_lines (render_rows rows) = (map row_text rows, False)"
  using assms unfolding scan_lines_def
proof (induction rows)
  case Nil
  show ?case by (simp add: render_rows_def)
next
  case (Cons r rows)
  have r: "CHR 0x0A \<notin> set (row_text r @ [CHR 0x0D])" "length (row_text r @ [CHR 0x0D]) < MaxScanTokenSize"
    using Cons.prems by (simp_all add: line_ok_def)
  have "render_rows (r # rows) = (row_text r @ [CHR 0x0D]) @ CHR 0x0A # render_rows rows"
    by (simp add: render_rows_def)
  then have split: "Split (render_rows (r # rows)) (CHR 0x0A) =
      (row_text r @ [CHR 0x0D]) # Split (render_rows rows) (CHR 0x0A)"
    using Split_append [OF r(1)] by simp
  obtain p ps where p: "Split (render_rows rows) (CHR 0x0A) = p # ps"
    by (cases "Split (render_rows rows) (CHR 0x0A)") auto
  have "scan_pieces (Split (render_rows (r # rows)) (CHR 0x0A)) =
      (dropCR (row_text r @ [CHR 0x0D]) # map row_text rows, False)"
    unfolding split p using Cons r p by (simp split: prod.split)
  then show ?case by (simp add: dropCR_def)
qed

lemma metrics_lines_rows:
  "\<forall>r\<in>set rows. row_ok r \<Longrightarrow>
     metrics_lines pf m (map row_text rows) = Some (foldl (read_row pf) m rows)"
proof (induction rows arbitrary: m)
  case (Cons r rows)
  then have "metrics_line pf m (row_text r) = Some (read_row pf m r)"
    by (cases r) (simp_all add: metrics_line_comment metrics_line_sample metrics_line_info)
  with Cons show ?case by simp
qed simp

lemma parse_metrics_render:
  assumes "\<forall>r\<in>set rows. row_ok r \<and> line_ok (row_text r)"
  shows "parse_metrics pf (render_rows rows) =
    Some (foldl (read_row pf) \<lparr>Values = Map.empty, Metrics_Version = [], Raw = render_rows rows\<rparr> rows, None)"
  using assms by (simp add: parse_metrics_def scan_lines_render metrics_lines_rows)

section \<open>Names and headers\<close>

definition plain_name :: "string \<Rightarrow> bool" where
  "plain_name n \<longleftrightarrow> n \<noteq> [] \<and> CHR 0x0A \<notin> set n \<and> TrimSpace n = n"

lemma parse_names_lines:
  assumes "\<forall>n\<in>set ns. plain_name n"
  shows "parse_names (concat (map (\<lambda>n. n @ [CHR 0x0A]) ns)) = sort ns"
proof -
  have "Split (concat (map (\<lambda>n. n @ [CHR 0x0A]) ns)) (CHR 0x0A) = ns @ [[]]"
    using assms by (induction ns) (auto simp: plain_name_def Split_append)
  moreover have "filter (\<lambda>s. s \<noteq> []) (map TrimSpace ns) = ns"
    using assms by (induction ns) (auto simp: plain_name_def)
  ultimately show ?thesis by (simp add: parse_names_def)
qed

lemma InterestingHeaders_map_of:
  "InterestingHeaders ul h =
     map_of (rev (map (\<lambda>(k, v). (ToLower ul k, Join v '', '')) (filter (\<lambda>(k, v). interesting (ToLower ul k)) h)))"
proof -
  have "foldl (\<lambda>out (k, v). let lk = ToLower ul k in if interesting lk then out(lk \<mapsto> Join v '', '') else out) m h =
      m ++ map_of (rev (map (\<lambda>(k, v). (ToLower ul k, Join v '', '')) (filter (\<lambda>(k, v). interesting (ToLower ul k)) h)))" for m
    by (induction h arbitrary: m) (auto simp: Let_def map_add_upd_left)
  then show ?thesis by (simp add: InterestingHeaders_def)
qed

section \<open>Properties of headers and names\<close>

text \<open>
  The headers shown do not depend on Go's map order: when the received header names differ by
  more than letter case, \<open>InterestingHeaders\<close> gives the same result for every order in which the
  header map is visited.
\<close>

lemma InterestingHeaders_order:
  assumes "distinct (map (\<lambda>(k, v). ToLower ul k) h)" and "mset h' = mset h"
  shows "InterestingHeaders ul h' = InterestingHeaders ul h"
proof -
  let ?f = "\<lambda>h. map (\<lambda>(k, v). (ToLower ul k, Join v '', '')) (filter (\<lambda>(k, v). interesting (ToLower ul k)) h)"
  have dist: "distinct (map fst (?f h))" if "distinct (map (\<lambda>(k, v). ToLower ul k) h)" for h
    using that by (induction h) (auto split: prod.splits)
  have "mset (map (\<lambda>(k, v). ToLower ul k) h') = mset (map (\<lambda>(k, v). ToLower ul k) h)"
    using assms(2) by simp
  then have d': "distinct (map (\<lambda>(k, v). ToLower ul k) h')" using assms(1) mset_eq_imp_distinct_iff by blast
  have "mset (?f h') = mset (?f h)" using assms(2) by (simp add: mset_filter)
  then have "map_of (?f h') = map_of (?f h)"
    using dist [OF assms(1)] dist [OF d'] by (metis map_of_inject_set set_mset_mset)
  then show ?thesis
    by (simp only: InterestingHeaders_map_of map_of_rev_distinct [OF dist [OF assms(1)]] map_of_rev_distinct [OF dist [OF d']])
qed

end
