(* ===== verification/Dezhan_Http.thy ===== *)
theory Dezhan_Http
  imports Dezhan_S3 Ctl_Client
begin

text \<open>
  The plain routes of the server that \<open>dezhanctl\<close> uses (\<open>Handle\<close> in
  \<open>src/server/src/dezhan_server.adb\<close>): \<open>/healthz\<close>, \<open>/version\<close>, \<open>/metrics\<close>, \<open>/v\<close> and \<open>/v/<name>\<close> with the
  methods PUT, GET, HEAD and DELETE, for requests that passed authentication, whose path needs no
  percent-encoding, and without a query string.  Every other request is the parameter \<open>other\<close>.

  Responses carry the headers that \<open>Send\<close> writes, under the names in which Go's client presents
  them.  \<open>vi\<close> is \<open>Trusted_Time'Value\<close> on texts that are not plain decimal numerals, \<open>dir_bytes\<close> the
  size of the vault's directory.
\<close>

section \<open>Sending\<close>

definition send :: "int \<Rightarrow> string \<Rightarrow> bytes \<Rightarrow> (string \<times> string list) list \<Rightarrow> http_Response" where
  "send status ctype payload extra = \<lparr>StatusCode = status,
     resp_Header = [(''Content-Type'', [ctype]), (''Content-Length'', [digits_of_nat (length payload)]),
        (''Access-Control-Allow-Origin'', [''*'']), (''Access-Control-Expose-Headers'', [''*''])] @ extra @
        [(''Connection'', [''close''])],
     resp_Body = Inr payload\<rparr>"

definition send_text :: "int \<Rightarrow> string \<Rightarrow> (string \<times> string list) list \<Rightarrow> http_Response" where
  "send_text status t extra = send status ''text/plain'' t extra"

definition etag_header :: "string \<Rightarrow> (string \<times> string list) list" where
  "etag_header tag = [(''Etag'', [[CHR 0x22] @ tag @ [CHR 0x22]])]"

section \<open>Metrics\<close>

definition Version_Number :: string where
  "Version_Number = ''1.3.0''"

definition Quarantined_Count :: "'d vault \<Rightarrow> nat" where
  "Quarantined_Count v = length (filter (\<lambda>k. case lookup (Index v) k of
     Some m \<Rightarrow> Quarantined m | None \<Rightarrow> False) (keys_of (Index v)))"

record 'd http_server =
  Srv :: "'d server"
  Scrub_Runs :: nat
  Scrub_Corrupt :: nat
  Scrub_Shards :: nat
  Denied_Deletes :: nat

definition CRLF :: string where
  "CRLF = [CHR 0x0D, CHR 0x0A]"

text \<open>One metric: its help and type comments and its sample; \<open>Natural'Image\<close> puts a space first.\<close>

definition metric :: "string \<Rightarrow> string \<Rightarrow> string \<Rightarrow> nat \<Rightarrow> string" where
  "metric name help kind n =
     ''# HELP '' @ name @ '' '' @ help @ CRLF @ ''# TYPE '' @ name @ '' '' @ kind @ CRLF @
     name @ '' '' @ digits_of_nat n @ CRLF"

definition flag :: "bool \<Rightarrow> nat" where
  "flag b = (if b then 1 else 0)"

definition metrics_page :: "('d \<Rightarrow> nat) \<Rightarrow> 'd http_server \<Rightarrow> 'd vault \<Rightarrow> string" where
  "metrics_page dir_bytes hs v =
     ''# HELP dezhan_build_info Build/version info (value is always 1)'' @ CRLF @
     ''# TYPE dezhan_build_info gauge'' @ CRLF @
     ''dezhan_build_info{version='' @ [CHR 0x22] @ Version_Number @ [CHR 0x22] @ ''} 1'' @ CRLF @
     metric ''dezhan_objects'' ''Stored object count'' ''gauge'' (Object_Count v) @
     metric ''dezhan_quarantined'' ''Objects quarantined (unrepairable)'' ''gauge'' (Quarantined_Count v) @
     metric ''dezhan_audit_entries'' ''Audit chain length'' ''counter'' (length (Log v)) @
     metric ''dezhan_sealed'' ''Vault sealed (clock anomaly)'' ''gauge'' (flag (Vault_Sealed_State v)) @
     metric ''dezhan_trusted_time'' ''Trusted monotonic time'' ''counter'' (Now (Clock v)) @
     metric ''dezhan_scrub_runs'' ''Background scrub passes'' ''counter'' (Scrub_Runs hs) @
     metric ''dezhan_scrub_corrupt'' ''Objects found corrupt in last scrub'' ''gauge'' (Scrub_Corrupt hs) @
     metric ''dezhan_scrub_shards_repaired'' ''Shards rebuilt in last scrub'' ''gauge'' (Scrub_Shards hs) @
     metric ''dezhan_storage_bytes'' ''Bytes stored on disk under the vault root'' ''gauge'' (dir_bytes (Store v)) @
     metric ''dezhan_retention_denied_total'' ''Deletes refused by retention/WORM'' ''counter'' (Denied_Deletes hs) @
     metric ''dezhan_ingest_only'' ''One-way ingest mode (reads blocked)'' ''gauge'' (flag (Ingest_Only v)) @
     metric ''dezhan_sync_window_open'' ''Sync window currently open'' ''gauge'' (flag (\<not> Sync_Shut v))"

section \<open>Objects\<close>

text \<open>A \<open>Range\<close> header against an object's length: the offsets of the first and last byte, or not \<open>Ok\<close>.\<close>

definition Parse_Range :: "(string \<Rightarrow> Trusted_Time option) \<Rightarrow> string \<Rightarrow> nat \<Rightarrow> (nat \<times> nat) option" where
  "Parse_Range vi value sz =
    (let spec = (case Go_Strings.Index value ''='' of None \<Rightarrow> [] | Some i \<Rightarrow> drop (i + 1) value);
         ok = (\<lambda>(first, final). if first \<le> final \<and> first < sz then Some (first, final) else None)
     in if spec = [] \<or> sz = 0 then None
        else case Go_Strings.Index spec ''-'' of
          None \<Rightarrow> None
        | Some 0 \<Rightarrow> (case Natural_Value vi (drop 1 spec) of
              None \<Rightarrow> None
            | Some n \<Rightarrow> if n = 0 then None else ok (if n \<ge> sz then 0 else sz - n, sz - 1))
        | Some dash \<Rightarrow> (case (Natural_Value vi (take dash spec),
                 if dash = length spec - 1 then Some (sz - 1) else Natural_Value vi (drop (dash + 1) spec)) of
              (Some first, Some final) \<Rightarrow> ok (first, if final > sz - 1 then sz - 1 else final)
            | _ \<Rightarrow> None))"

definition mode_image :: "Lock_Mode \<Rightarrow> string" where
  "mode_image m = (case m of Unlocked \<Rightarrow> ''UNLOCKED'' | Governance \<Rightarrow> ''GOVERNANCE'' | Compliance \<Rightarrow> ''COMPLIANCE'')"

text \<open>A handler's answer, and whether it counts as a delete refused by retention.\<close>

type_synonym answer = "http_Response \<times> bool"

definition v_put ::
  "'d vault_env \<Rightarrow> string \<Rightarrow> bytes \<Rightarrow> Lock_Mode \<Rightarrow> Trusted_Time \<Rightarrow> ('d vault, ada_exn, answer) io" where
  "v_put env name data mode retain = io_bind (Put_Object env name data mode retain []) (\<lambda>_ v.
     io_return (send_text 200 (''stored '' @ name @ '' mode='' @ mode_image mode @
        '' retain= '' @ digits_of_nat retain) (etag_header (Object_Etag v name)), False) v)"

definition v_get ::
  "'d vault_env \<Rightarrow> (string \<Rightarrow> Trusted_Time option) \<Rightarrow> string \<Rightarrow> string \<Rightarrow> ('d vault, ada_exn, answer) io" where
  "v_get env vi name rng = (\<lambda>v. if \<not> Contains v name then io_return (send_text 404 ''no such object'' [], False) v
     else io_bind (Get_Object env name) (\<lambda>full v.
       let tag = etag_header (Object_Etag v name) @ [(''Accept-Ranges'', [''bytes''])];
           sz = digits_of_nat (length full) in
       io_return (if rng = [] then send 200 ''application/octet-stream'' full tag
         else case Parse_Range vi rng (length full) of
           None \<Rightarrow> send_text 416 [] [(''Content-Range'', [''bytes */'' @ sz])]
         | Some (first, final) \<Rightarrow> send 206 ''application/octet-stream'' (take (final + 1 - first) (drop first full))
             (tag @ [(''Content-Range'',
               [''bytes '' @ digits_of_nat first @ ''-'' @ digits_of_nat final @ ''/'' @ sz])]), False) v) v)"

definition v_head :: "'d vault_env \<Rightarrow> string \<Rightarrow> ('d vault, ada_exn, answer) io" where
  "v_head env name = (\<lambda>v. io_return (if Contains v name
     then send_text 200 [] (etag_header (Object_Etag v name)) else send_text 404 [] [], False) v)"

definition v_delete :: "'d vault_env \<Rightarrow> string \<Rightarrow> bool \<Rightarrow> ('d vault, ada_exn, answer) io" where
  "v_delete env name bypass = (\<lambda>v. if \<not> Contains v name then io_return (send_text 404 ''no such object'' [], False) v
     else io_bind (Delete_Object env name bypass) (\<lambda>deleted. io_return
       (if deleted then (send_text 200 (''deleted '' @ name) [], False)
        else (send_text 403 ''object is retained and cannot be deleted yet'' [], True))) v)"

definition handle_v ::
  "'d vault_env \<Rightarrow> (string \<Rightarrow> Trusted_Time option) \<Rightarrow> string \<Rightarrow> string \<Rightarrow> (string \<rightharpoonup> string) \<Rightarrow> bytes \<Rightarrow>
     ('d vault, ada_exn, answer) io" where
  "handle_v env vi method name hdr data =
    (let mode = (if map_get hdr ''X-Dezhan-Mode'' = ''governance'' then Governance else Compliance) in
     case (if map_get hdr ''X-Dezhan-Retain'' = [] then Some 3600
           else Time_Value vi (map_get hdr ''X-Dezhan-Retain'')) of
       None \<Rightarrow> io_throw Constraint_Error
     | Some retain \<Rightarrow>
         if method = ''PUT'' then v_put env name data mode retain
         else if method = ''GET'' then v_get env vi name (map_get hdr ''Range'')
         else if method = ''HEAD'' then v_head env name
         else if method = ''DELETE'' then v_delete env name (map_get hdr ''X-Dezhan-Bypass'' = ''true'')
         else io_return (send_text 405 [] [], False))"

definition handle ::
  "'d vault_env \<Rightarrow> (string \<Rightarrow> Trusted_Time option) \<Rightarrow> ('d \<Rightarrow> nat) \<Rightarrow> 'd http_server \<Rightarrow> string \<Rightarrow> string \<Rightarrow>
     (string \<rightharpoonup> string) \<Rightarrow> bytes \<Rightarrow> ('d vault, ada_exn, answer) io" where
  "handle env vi dir_bytes hs method path hdr data = (\<lambda>v.
     if method = ''GET'' \<and> path = ''/healthz'' then
       io_return (send_text 200 (if Vault_Sealed_State v then ''sealed'' else ''ok'') [], False) v
     else if method = ''GET'' \<and> path = ''/version'' then
       io_return (send_text 200 (''dezhan '' @ Version_Number) [], False) v
     else if method = ''GET'' \<and> path = ''/metrics'' then
       io_return (send_text 200 (metrics_page dir_bytes hs v) [], False) v
     else if method = ''GET'' \<and> (path = ''/v'' \<or> path = ''/v/'') then
       io_return (send_text 200 (concat (map (\<lambda>n. n @ [CHR 0x0A]) (Object_Names env v))) [], False) v
     else handle_v env vi method (drop 3 path) hdr data v)"

text \<open>
  Paths that go over the wire as they are (Go's client percent-encodes other bytes, and the
  server does not decode them).
\<close>

definition verbatim :: "char \<Rightarrow> bool" where
  "verbatim c = (let n = of_char c :: nat in
     (48 \<le> n \<and> n \<le> 57) \<or> (65 \<le> n \<and> n \<le> 90) \<or> (97 \<le> n \<and> n \<le> 122) \<or> c \<in> set ''-_.~$&+:=@/'')"

definition modelled :: "string \<Rightarrow> string \<Rightarrow> bool" where
  "modelled method path \<longleftrightarrow> list_all verbatim path \<and>
     (method = ''GET'' \<and> path \<in> {''/healthz'', ''/version'', ''/metrics'', ''/v'', ''/v/''} \<or>
      length path > 3 \<and> HasPrefix path ''/v/'')"

section \<open>The server behind an HTTP client\<close>

definition http_do ::
  "'d vault_env \<Rightarrow> (string \<Rightarrow> Trusted_Time option) \<Rightarrow> ('d \<Rightarrow> nat) \<Rightarrow>
     (http_Request \<Rightarrow> 'd http_server \<Rightarrow> (string + http_Response) \<times> 'd http_server) \<Rightarrow> string \<Rightarrow>
     http_Request \<Rightarrow> 'd http_server \<Rightarrow> (string + http_Response) \<times> 'd http_server" where
  "http_do env vi dir_bytes other base req hs =
    (let path = drop (length base) (req_URL req) in
     if \<not> HasPrefix (req_URL req) base \<or> \<not> modelled (req_Method req) path then other req hs
     else (case serve env (handle env vi dir_bytes hs (req_Method req) path (req_Header req)
             (case req_Body req of None \<Rightarrow> [] | Some b \<Rightarrow> b)) (Srv hs) of
         (Inl (Text_Error n t), s) \<Rightarrow> (Inr (send_text (int n) t []), hs\<lparr>Srv := s\<rparr>)
       | (Inl r, s) \<Rightarrow> (Inl ''EOF'', hs\<lparr>Srv := s\<rparr>)
       | (Inr (resp, denied), s) \<Rightarrow>
           (Inr resp, hs\<lparr>Srv := s, Denied_Deletes := Denied_Deletes hs + (if denied then 1 else 0)\<rparr>)))"

definition dezhan_http ::
  "'d vault_env \<Rightarrow> (string \<Rightarrow> Trusted_Time option) \<Rightarrow> ('d \<Rightarrow> nat) \<Rightarrow>
     (http_Request \<Rightarrow> 'd http_server \<Rightarrow> (string + http_Response) \<times> 'd http_server) \<Rightarrow> string \<Rightarrow>
     'd http_server http_env" where
  "dezhan_http env vi dir_bytes other base =
     \<lparr>NewRequest = (\<lambda>m u. None), Do = http_do env vi dir_bytes other base\<rparr>"

end
