(* ===== verification/Ctl_Dezhan.thy ===== *)
theory Ctl_Dezhan
  imports Dezhan_Http
begin

text \<open>
  \<open>dezhanctl\<close> against the server: what the client's methods return when the server's plain routes
  answer, end to end from the command's HTTP request through the vault and back through the
  client's parsers.
\<close>

section \<open>The metrics page\<close>

definition metric_rows :: "string \<Rightarrow> string \<Rightarrow> string \<Rightarrow> nat \<Rightarrow> metric_row list" where
  "metric_rows name help kind n = [Comment_Row ('' HELP '' @ name @ '' '' @ help),
     Comment_Row ('' TYPE '' @ name @ '' '' @ kind), Sample_Row name (digits_of_nat n)]"

lemma render_rows_append: "render_rows (xs @ ys) = render_rows xs @ render_rows ys"
  by (simp add: render_rows_def)

lemma metric_render: "metric name help kind n = render_rows (metric_rows name help kind n)"
  by (simp add: metric_def metric_rows_def render_rows_def CRLF_def)

text \<open>The readings of the page, in its order.\<close>

definition readings :: "('d \<Rightarrow> nat) \<Rightarrow> 'd http_server \<Rightarrow> 'd vault \<Rightarrow> (string \<times> string \<times> string \<times> nat) list" where
  "readings dir_bytes hs v =
    [(''dezhan_objects'', ''Stored object count'', ''gauge'', Object_Count v),
     (''dezhan_quarantined'', ''Objects quarantined (unrepairable)'', ''gauge'', Quarantined_Count v),
     (''dezhan_audit_entries'', ''Audit chain length'', ''counter'', length (Log v)),
     (''dezhan_sealed'', ''Vault sealed (clock anomaly)'', ''gauge'', flag (Vault_Sealed_State v)),
     (''dezhan_trusted_time'', ''Trusted monotonic time'', ''counter'', Now (Clock v)),
     (''dezhan_scrub_runs'', ''Background scrub passes'', ''counter'', Scrub_Runs hs),
     (''dezhan_scrub_corrupt'', ''Objects found corrupt in last scrub'', ''gauge'', Scrub_Corrupt hs),
     (''dezhan_scrub_shards_repaired'', ''Shards rebuilt in last scrub'', ''gauge'', Scrub_Shards hs),
     (''dezhan_storage_bytes'', ''Bytes stored on disk under the vault root'', ''gauge'', dir_bytes (Store v)),
     (''dezhan_retention_denied_total'', ''Deletes refused by retention/WORM'', ''counter'', Denied_Deletes hs),
     (''dezhan_ingest_only'', ''One-way ingest mode (reads blocked)'', ''gauge'', flag (Ingest_Only v)),
     (''dezhan_sync_window_open'', ''Sync window currently open'', ''gauge'', flag (\<not> Sync_Shut v))]"

definition info_rows :: "metric_row list" where
  "info_rows = [Comment_Row '' HELP dezhan_build_info Build/version info (value is always 1)'',
     Comment_Row '' TYPE dezhan_build_info gauge'', Info_Row Version_Number ''1'']"

definition page_rows :: "(string \<times> string \<times> string \<times> nat) list \<Rightarrow> metric_row list" where
  "page_rows rs = info_rows @ concat (map (\<lambda>(name, help, kind, n). metric_rows name help kind n) rs)"

lemma metrics_page_render: "metrics_page dir_bytes hs v = render_rows (page_rows (readings dir_bytes hs v))"
proof -
  have info: "render_rows info_rows =
      ''# HELP dezhan_build_info Build/version info (value is always 1)'' @ CRLF @
      ''# TYPE dezhan_build_info gauge'' @ CRLF @
      ''dezhan_build_info{version='' @ [CHR 0x22] @ Version_Number @ [CHR 0x22] @ ''} 1'' @ CRLF"
    by (simp add: info_rows_def render_rows_def info_line_def CRLF_def)
  have "render_rows (concat (map (\<lambda>(name, help, kind, n). metric_rows name help kind n) rs)) =
      concat (map (\<lambda>(name, help, kind, n). metric name help kind n) rs)" for rs
    by (induction rs) (auto simp: metric_render render_rows_append render_rows_def)
  then show ?thesis
    unfolding page_rows_def render_rows_append info metrics_page_def readings_def
    by (simp only: append_assoc) simp
qed

lemma length_digits: "n < 10 ^ Suc k \<Longrightarrow> length (digits_of_nat n) \<le> Suc k"
proof (induction k arbitrary: n)
  case 0
  then show ?case by (simp add: digits_of_nat.simps [of n])
next
  case (Suc k)
  then have "n div 10 < 10 ^ Suc k" by (simp add: less_mult_imp_div_less mult.commute)
  from Suc.IH [OF this] show ?case by (auto simp: digits_of_nat.simps [of n])
qed

lemma metric_value_digits: "metric_value (digits_of_nat n)"
  by (auto simp: metric_value_def list_all_iff dest: digits_of_nat_digits space_byte_digit)

text \<open>The letters of the metric names.\<close>

definition name_char :: "char \<Rightarrow> bool" where
  "name_char c \<longleftrightarrow> (97 \<le> (of_char c :: nat) \<and> (of_char c :: nat) \<le> 122) \<or> c = CHR ''_''"

lemma name_char_plain: "name_char c \<Longrightarrow> \<not> space_byte c \<and> c \<noteq> CHR ''{'' \<and> c \<noteq> CHR ''#''"
  by (auto simp: name_char_def space_byte_def space_codes_def bytes_of_def eq_char_of)

lemma metric_name_chars: "n \<noteq> [] \<Longrightarrow> list_all name_char n \<Longrightarrow> metric_name n"
  using name_char_plain by (cases n) (auto simp: metric_name_def list_all_iff)

lemma digits_no_newline: "CHR 0x0A \<notin> set (digits_of_nat n)"
  using digits_of_nat_digits [of "CHR 0x0A" n] by (auto simp: is_digit_def)

text \<open>A reading that fits a line: short texts, and a value of at most twenty digits.\<close>

definition reading_ok :: "string \<times> string \<times> string \<times> nat \<Rightarrow> bool" where
  "reading_ok r = (case r of (name, help, kind, n) \<Rightarrow> name \<noteq> [] \<and> list_all name_char name \<and>
     CHR 0x0A \<notin> set help \<and> CHR 0x0A \<notin> set kind \<and> length name + length help + length kind < 1000 \<and> n < 2 ^ 64)"

lemma reading_rows_ok:
  assumes "reading_ok (name, help, kind, n)" and "row \<in> set (metric_rows name help kind n)"
  shows "row_ok row \<and> line_ok (row_text row)"
proof -
  have n: "n < 10 ^ Suc 19" using assms(1) by (simp add: reading_ok_def)
  have nl: "CHR 0x0A \<notin> set name" using assms(1) by (auto simp: reading_ok_def list_all_iff name_char_def)
  show ?thesis
    using assms length_digits [OF n] nl metric_value_digits digits_no_newline metric_name_chars
    by (auto simp: reading_ok_def metric_rows_def line_ok_def MaxScanTokenSize_def)
qed

lemma foldl_metric_rows:
  assumes "\<And>n. pf (digits_of_nat n) = Some (fl n)"
  shows "foldl (read_row pf) m (concat (map (\<lambda>(name, help, kind, n). metric_rows name help kind n) rs)) =
     m\<lparr>Values := Values m ++ map_of (rev (map (\<lambda>(name, help, kind, n). (name, fl n)) rs))\<rparr>"
  by (induction rs arbitrary: m) (auto simp: metric_rows_def assms map_add_upd_left)

lemma readings_reading_ok:
  assumes "\<forall>r\<in>set (readings dir_bytes hs v). snd (snd (snd r)) < 2 ^ 64"
  shows "list_all reading_ok (readings dir_bytes hs v)"
  using assms by (simp add: readings_def reading_ok_def name_char_def)

lemma readings_distinct: "distinct (map fst (readings dir_bytes hs v))"
  by (simp add: readings_def)

lemma parse_metrics_page:
  assumes pf: "\<And>n. pf (digits_of_nat n) = Some (fl n)"
    and small: "\<forall>r\<in>set (readings dir_bytes hs v). snd (snd (snd r)) < 2 ^ 64"
  shows "parse_metrics pf (metrics_page dir_bytes hs v) =
    Some (\<lparr>Values = map_of ((''dezhan_build_info'', fl 1) #
             map (\<lambda>(name, help, kind, n). (name, fl n)) (readings dir_bytes hs v)),
           Metrics_Version = ''1.3.0'', Raw = metrics_page dir_bytes hs v\<rparr>, None)"
proof -
  let ?rs = "readings dir_bytes hs v"
  have one: "digits_of_nat 1 = ''1''" by (subst digits_of_nat.simps) (simp add: char_of_eq)
  from pf [of 1] have pf1: "pf ''1'' = Some (fl 1)" unfolding one .
  have info: "\<forall>r\<in>set info_rows. row_ok r \<and> line_ok (row_text r)"
    using metric_value_digits [of 1] unfolding one
    by (simp add: info_rows_def line_ok_def MaxScanTokenSize_def info_line_def Version_Number_def
        version_text_def space_byte_def space_codes_def bytes_of_def eq_char_of)
  have ok: "\<forall>r\<in>set (page_rows ?rs). row_ok r \<and> line_ok (row_text r)"
    using info readings_reading_ok [OF small] reading_rows_ok
    by (fastforce simp: page_rows_def list_all_iff)
  have "map_of (rev (map (\<lambda>(name, help, kind, n). (name, fl n)) ?rs)) =
      map_of (map (\<lambda>(name, help, kind, n). (name, fl n)) ?rs)"
    by (rule map_of_rev_distinct) (use readings_distinct [of dir_bytes hs v] in \<open>simp add: comp_def case_prod_unfold\<close>)
  moreover have "''dezhan_build_info'' \<notin> dom (map_of (map (\<lambda>(name, help, kind, n). (name, fl n)) ?rs))"
    by (simp add: readings_def)
  ultimately show ?thesis
    unfolding metrics_page_render parse_metrics_render [OF ok]
    by (simp add: page_rows_def info_rows_def foldl_metric_rows [of pf fl, OF pf] pf1 Version_Number_def Let_def
        map_add_upd_left)
qed

section \<open>Requests to the server\<close>

lemma exn_resp_status: "exn_resp e = Text_Error n b \<Longrightarrow> n \<in> {403, 404, 409, 410, 503}"
  by (cases e) simp_all

lemma serve_Text_Error:
  "serve env h s = (Inl (Text_Error n b), t) \<Longrightarrow> n \<in> {403, 404, 409, 410, 503}"
  by (auto simp: serve_def Let_def split: list.splits option.splits sum.splits prod.splits dest: exn_resp_status)

lemma do_request_dezhan:
  assumes "modelled method path"
  shows "do_request (dezhan_http env vi dir_bytes other base) \<lparr>ctl_Endpoint = base\<rparr> method path hdr body hs =
    Some (case serve env (handle env vi dir_bytes hs method path hdr
             (case body of None \<Rightarrow> [] | Some b \<Rightarrow> b)) (Srv hs) of
         (Inl (Text_Error n t), s) \<Rightarrow> (Inr (send_text (int n) t []), hs\<lparr>Srv := s\<rparr>)
       | (Inl r, s) \<Rightarrow> (Inl ''EOF'', hs\<lparr>Srv := s\<rparr>)
       | (Inr (resp, denied), s) \<Rightarrow>
           (Inr resp, hs\<lparr>Srv := s, Denied_Deletes := Denied_Deletes hs + (if denied then 1 else 0)\<rparr>))"
  using assms by (simp add: do_request_def dezhan_http_def http_do_def)

text \<open>A response with status 200 or 201 comes from the handler.\<close>

lemma do_request_ok:
  assumes "modelled method path"
    and "do_request (dezhan_http env vi dir_bytes other base) \<lparr>ctl_Endpoint = base\<rparr> method path hdr body hs =
      Some (Inr resp, hs')"
    and "StatusCode resp \<in> {200, 201}"
  shows "\<exists>v denied. advanced (Srv hs) v \<and> Samples (Srv hs') = tl (Samples (Srv hs)) \<and>
     handle env vi dir_bytes hs method path hdr (case body of None \<Rightarrow> [] | Some b \<Rightarrow> b) v =
       Some (Inr (resp, denied), Vlt (Srv hs'))"
proof -
  let ?h = "handle env vi dir_bytes hs method path hdr (case body of None \<Rightarrow> [] | Some b \<Rightarrow> b)"
  obtain r s where sv: "serve env ?h (Srv hs) = (r, s)" by fastforce
  show ?thesis
  proof (cases r)
    case (Inl q)
    show ?thesis
    proof (cases q)
      case (Text_Error n b)
      with sv Inl have n: "n \<in> {403, 404, 409, 410, 503}" by (blast dest: serve_Text_Error)
      with assms sv Inl Text_Error show ?thesis
        by (auto simp: do_request_dezhan send_text_def send_def)
    qed (use assms sv Inl in \<open>auto simp: do_request_dezhan\<close>)
  next
    case (Inr y)
    then obtain resp' denied where y: "y = (resp', denied)" by fastforce
    with assms(1,2) sv Inr have hs': "resp' = resp"
      "hs' = hs\<lparr>Srv := s, Denied_Deletes := Denied_Deletes hs + (if denied then 1 else 0)\<rparr>"
      by (auto simp: do_request_dezhan)
    from serve_Inr [OF sv [unfolded Inr y]] hs' show ?thesis by auto
  qed
qed

lemma text_request_ok:
  assumes "modelled method path"
    and "text_request (dezhan_http env vi dir_bytes other base) \<lparr>ctl_Endpoint = base\<rparr> method path hdr body hs =
      Some (Inr (b, code), hs')"
    and "code \<in> {200, 201}"
  shows "\<exists>v resp denied. advanced (Srv hs) v \<and> Samples (Srv hs') = tl (Samples (Srv hs)) \<and>
     handle env vi dir_bytes hs method path hdr (case body of None \<Rightarrow> [] | Some b \<Rightarrow> b) v =
       Some (Inr (resp, denied), Vlt (Srv hs')) \<and> StatusCode resp = code \<and> resp_Body resp = Inr b"
  using assms do_request_ok [OF assms(1)] unfolding text_request_Inr by fastforce

section \<open>Properties\<close>


text \<open>A reader of decimal numerals and a fresh server, for evaluation.\<close>

definition read_nat :: "string \<Rightarrow> nat option" where
  "read_nat s = (if s \<noteq> [] \<and> list_all is_digit s then Some (nat_of_digits s) else None)"

lemma read_nat_digits: "read_nat (digits_of_nat n) = Some n"
  by (auto simp: read_nat_def nat_of_digits_of_nat list_all_iff dest: digits_of_nat_digits)

definition fresh_http :: "(string \<times> bytes) list http_server" where
  "fresh_http = \<lparr>Srv = \<lparr>Vlt = vault_a, Samples = []\<rparr>, Scrub_Runs = 2, Scrub_Corrupt = 0, Scrub_Shards = 0,
     Denied_Deletes = 0\<rparr>"

abbreviation sample_http :: "(string \<times> bytes) list http_server http_env" where
  "sample_http \<equiv> dezhan_http list_env (\<lambda>_. None) length (\<lambda>_ s. (Inl ''unreachable'', s)) ''http://d''"

abbreviation sample_ctl :: ctl_Client where
  "sample_ctl \<equiv> \<lparr>ctl_Endpoint = ''http://d''\<rparr>"

lemma text_request_Nil:
  assumes "modelled method path" and "Samples (Srv hs) = []"
    and "handle env vi dir_bytes hs method path hdr (case body of None \<Rightarrow> [] | Some b \<Rightarrow> b) (Vlt (Srv hs)) =
      Some (Inr (resp, denied), v)"
    and "resp_Body resp = Inr b"
  shows "text_request (dezhan_http env vi dir_bytes other base) \<lparr>ctl_Endpoint = base\<rparr> method path hdr body hs =
    Some (Inr (b, StatusCode resp), hs\<lparr>Srv := (Srv hs)\<lparr>Vlt := v\<rparr>,
      Denied_Deletes := Denied_Deletes hs + (if denied then 1 else 0)\<rparr>)"
  using assms by (auto simp: text_request_Inr do_request_dezhan serve_Nil)

lemma fresh_readings: "\<forall>r\<in>set (readings length fresh_http vault_a). snd (snd (snd r)) < 2 ^ 64"
  by (simp add: readings_def flag_def Object_Count_def keys_of_def Quarantined_Count_def vault_a_def
      empty_vault_def Now_def Init_def fresh_http_def)


lemma handle_None: "handle env vi dir_bytes hs method path hdr data v \<noteq> None"
  by (rule notI)
    (auto simp: handle_def handle_v_def v_put_def v_get_def v_head_def v_delete_def io_bind_None Put_Object_None
      Get_Object_None Delete_Object_None Let_def io_throw_def io_return_def split: if_splits option.splits)

text \<open>Object paths.\<close>

definition object_name :: "string \<Rightarrow> bool" where
  "object_name name \<longleftrightarrow> name \<noteq> [] \<and> list_all verbatim name"

lemma modelled_object: "object_name name \<Longrightarrow> modelled method (''/v/'' @ name)"
  by (auto simp: modelled_def object_name_def verbatim_def)

lemma handle_object:
  "object_name name \<Longrightarrow>
     handle env vi dir_bytes hs method (''/v/'' @ name) hdr data v = handle_v env vi method name hdr data v"
  by (simp add: handle_def object_name_def)

text \<open>
  If \<open>Put\<close> succeeds against the server (any mode, retention and size), a \<open>Get\<close> of the name returns
  exactly the bytes, provided the content store keeps its contract, reads are not blocked and no
  clock reading interferes.
\<close>

lemma Client_Put_Get:
  assumes "cas_spec env" and "object_name name"
    and "Client_Put (dezhan_http env vi dir_bytes other base) \<lparr>ctl_Endpoint = base\<rparr> name data mode secs hs = Some (Inr msg, hs1)"
    and "\<not> Ingest_Only (Vlt (Srv hs))" and "Samples (Srv hs1) = []"
  shows "\<exists>hs2. Client_Get (dezhan_http env vi dir_bytes other base) \<lparr>ctl_Endpoint = base\<rparr> name hs1 = Some (Inr data, hs2)"
proof -
  let ?v1 = "Vlt (Srv hs1)"
  from assms(3) obtain b code hdr where put: "text_request (dezhan_http env vi dir_bytes other base) \<lparr>ctl_Endpoint = base\<rparr>
      ''PUT'' (''/v/'' @ name) hdr (Some data) hs = Some (Inr (b, code), hs1)" "code \<in> {200, 201}"
    by (auto simp: Client_Put_def io_try_Some io_throw_def io_return_def split: if_splits)
  from text_request_ok [OF modelled_object [OF assms(2)] put] obtain v resp denied where v: "advanced (Srv hs) v"
    "handle_v env vi ''PUT'' name hdr data v = Some (Inr (resp, denied), ?v1)"
    by (auto simp: handle_object [OF assms(2), simplified])
  then obtain mode' retain where po: "Put_Object env name data mode' retain [] v = Some (Inr (), ?v1)"
    by (auto simp: handle_v_def v_put_def io_bind_Inr io_throw_def io_return_def Let_def split: option.splits if_splits)
  have v1: "\<not> Ingest_Only v" using v(1) assms(4) by (simp add: advanced_same)
  have get: "Get_Object env name ?v1 = Some (Inr data, ?v1)"
    by (rule Put_Object_readback [OF assms(1) po v1])
  then have "Contains ?v1 name"
    by (auto simp: Contains_def Get_Object_def io_throw_def split: if_splits option.splits)
  with get have h: "handle_v env vi ''GET'' name Map.empty [] ?v1 =
      Some (Inr (send 200 ''application/octet-stream'' data
        (etag_header (Object_Etag ?v1 name) @ [(''Accept-Ranges'', [''bytes''])]), False), ?v1)"
    by (simp add: handle_v_def v_get_def map_get_def io_bind_def io_try_Some io_return_def)
  have "do_request (dezhan_http env vi dir_bytes other base) \<lparr>ctl_Endpoint = base\<rparr> ''GET'' (''/v/'' @ name) Map.empty None hs1 =
      Some (Inr (send 200 ''application/octet-stream'' data
        (etag_header (Object_Etag ?v1 name) @ [(''Accept-Ranges'', [''bytes''])])), hs1\<lparr>Srv := (Srv hs1)\<lparr>Vlt := ?v1\<rparr>\<rparr>)"
    using serve_Nil [OF assms(5), of "handle env vi dir_bytes hs1 ''GET'' (''/v/'' @ name) Map.empty []"] h
    by (simp add: do_request_dezhan [OF modelled_object [OF assms(2)], simplified] handle_object [OF assms(2), simplified])
  then show ?thesis by (auto simp: Client_Get_def io_try_Some io_return_def send_def)
qed

lemma Client_Put_sample:
  "\<exists>msg hs1. Client_Put sample_http sample_ctl ''b'' ''yo'' ''governance'' 0 fresh_http = Some (Inr msg, hs1) \<and>
     Samples (Srv hs1) = []"
proof -
  obtain v' where v': "Put_Object list_env ''b'' ''yo'' Governance 0 [] vault_a = Some (Inr (), v')"
    using Put_Object_vault_a by blast
  let ?hdr = "[''X-Dezhan-Mode'' \<mapsto> ''governance'', ''X-Dezhan-Retain'' \<mapsto> Itoa 0,
    ''Content-Type'' \<mapsto> ''application/octet-stream'']"
  have digits: "Itoa 0 = ''0''" by (simp add: Itoa_def digits_of_nat.simps [of 0] char_of_eq)
  have nm: "object_name ''b''" by (simp add: object_name_def verbatim_def)
  have "\<exists>resp. handle list_env (\<lambda>_. None) length fresh_http ''PUT'' (''/v/'' @ ''b'') ?hdr ''yo'' vault_a = Some (Inr (resp, False), v') \<and>
      StatusCode resp = 200 \<and> (\<exists>b. resp_Body resp = Inr b)"
    unfolding handle_object [OF nm] using v'
    by (simp add: handle_v_def v_put_def digits Time_Value_def is_digit_def nat_of_digits_def Time_Last_def
        io_bind_def io_try_Some io_return_def send_text_def send_def Let_def)
  then obtain resp b where h: "handle list_env (\<lambda>_. None) length fresh_http ''PUT'' (''/v/'' @ ''b'') ?hdr ''yo'' vault_a =
      Some (Inr (resp, False), v')" "StatusCode resp = 200" "resp_Body resp = Inr b" by blast
  have "text_request sample_http sample_ctl ''PUT'' (''/v/'' @ ''b'') ?hdr (Some ''yo'') fresh_http =
      Some (Inr (b, StatusCode resp), fresh_http\<lparr>Srv := (Srv fresh_http)\<lparr>Vlt := v'\<rparr>, Denied_Deletes := Denied_Deletes fresh_http + (if False then 1 else 0)\<rparr>)"
    by (rule text_request_Nil [OF modelled_object [OF nm] _ _ h(3)]) (simp_all add: fresh_http_def h(1) [unfolded fresh_http_def, simplified])
  then show ?thesis using h(2) by (simp add: Client_Put_def io_try_Some io_return_def fresh_http_def)
qed

text \<open>
  \<open>Delete\<close> cannot remove a protected object: for an object under legal hold, or under a
  compliance retention that has not ended when the request is served, \<open>Delete\<close> returns an error,
  with or without bypass, and the object stays in the index unchanged.
\<close>

lemma Client_Delete_protected:
  assumes "object_name name" and "map_of (Index (Vlt (Srv hs))) name = Some m"
    and "Legal_Hold (Lock m) \<or> Lock_Mode_Of (Lock m) = Compliance \<and>
      (\<forall>v. advanced (Srv hs) v \<longrightarrow> Now (Clock v) < Retain_Until (Lock m))"
    and "Client_Delete (dezhan_http env vi dir_bytes other base) \<lparr>ctl_Endpoint = base\<rparr> name bypass hs = Some (r, hs')"
  shows "(\<exists>e. r = Inl e) \<and> map_of (Index (Vlt (Srv hs'))) name = Some m"
proof -
  let ?hdr = "if bypass then [''X-Dezhan-Bypass'' \<mapsto> ''1''] else Map.empty"
  let ?h = "handle env vi dir_bytes hs ''DELETE'' (''/v/'' @ name) ?hdr []"
  obtain q s where sv: "serve env ?h (Srv hs) = (q, s)" by fastforce
  have run: "\<exists>x l. ?h v = Some (x, v\<lparr>Log := l\<rparr>) \<and> (\<forall>resp d. x = Inr (resp, d) \<longrightarrow> StatusCode resp = 403)"
    if adv: "advanced (Srv hs) v" for v
  proof -
    have m: "map_of (Index v) name = Some m" using adv assms(2) by (simp add: advanced_same)
    have "\<not> Can_Delete (Lock m) (Now (Clock v)) \<lparr>Bypass_Governance = False\<rparr>"
      using assms(3) adv Can_Delete_held Can_Delete_compliance by blast
    from Delete_Object_kept [OF m this, of env] obtain y l where d: "Delete_Object env name False v = Some (y, v\<lparr>Log := l\<rparr>)"
      "y \<noteq> Inr True" by blast
    with m show ?thesis unfolding handle_object [OF assms(1)]
      by (cases y) (auto simp: handle_v_def v_delete_def Contains_def map_get_def io_bind_def io_try_def io_throw_def
          io_return_def send_text_def send_def)
  qed
  from sv handle_None have s: "map_of (Index (Vlt s)) name = Some m \<and> (\<forall>resp d. q = Inr (resp, d) \<longrightarrow> StatusCode resp = 403)"
  proof (cases rule: serve_cases)
    case (raised_by_tick e)
    then show ?thesis using assms(2) by (simp add: advanced_same)
  next
    case (raised v e)
    with run [OF raised(1)] assms(2) show ?thesis by (auto simp: advanced_same)
  next
    case (answered v x)
    with run [OF answered(1)] assms(2) show ?thesis by (auto simp: advanced_same)
  qed
  have "\<exists>e. r = Inl e" if "r = Inr y" for y
  proof -
    from assms(4) that obtain b where "text_request (dezhan_http env vi dir_bytes other base) \<lparr>ctl_Endpoint = base\<rparr>
        ''DELETE'' (''/v/'' @ name) ?hdr None hs = Some (Inr (b, 200), hs')"
      by (auto simp: Client_Delete_def io_try_Some io_throw_def io_return_def split: if_splits)
    from text_request_ok [OF modelled_object [OF assms(1)] this] obtain v resp d where
      "advanced (Srv hs) v" "?h v = Some (Inr (resp, d), Vlt (Srv hs'))" "StatusCode resp = 200" by auto
    with run show ?thesis by fastforce
  qed
  moreover have "Srv hs' = s"
    using Client_Delete_state [OF assms(4)] sv unfolding do_request_dezhan [OF modelled_object [OF assms(1)]]
    by (auto split: sum.splits resp.splits prod.splits)
  ultimately show ?thesis using s by (cases r) auto
qed

lemma Client_Delete_returns:
  assumes "object_name name"
  shows "\<exists>r hs'. Client_Delete (dezhan_http env vi dir_bytes other base) \<lparr>ctl_Endpoint = base\<rparr> name bypass hs = Some (r, hs')"
  unfolding Client_Delete_def text_request_def io_try_def do_request_dezhan [OF modelled_object [OF assms]]
  by (auto simp: io_throw_def io_return_def split: sum.split resp.split prod.split)

text \<open>
  The bypass flag of \<open>dezhanctl del\<close> has no effect on the server: the client sends
  \<open>X-Dezhan-Bypass: 1\<close> and the server looks for \<open>true\<close>, so deleting with and without bypass are the
  same, governance-locked objects included.
\<close>

lemma Client_Delete_bypass_ignored:
  assumes "object_name name"
  shows "Client_Delete (dezhan_http env vi dir_bytes other base) \<lparr>ctl_Endpoint = base\<rparr> name True hs =
     Client_Delete (dezhan_http env vi dir_bytes other base) \<lparr>ctl_Endpoint = base\<rparr> name False hs"
proof -
  have "handle env vi dir_bytes hs ''DELETE'' (''/v/'' @ name) [''X-Dezhan-Bypass'' \<mapsto> ''1''] [] =
      handle env vi dir_bytes hs ''DELETE'' (''/v/'' @ name) Map.empty []"
    by (rule ext) (simp only: handle_object [OF assms] handle_v_def, simp)
  then show ?thesis
    by (simp add: Client_Delete_def text_request_def io_try_def
        do_request_dezhan [OF modelled_object [OF assms], simplified])
qed

text \<open>
  The client's \<open>List\<close> lists the vault: when \<open>List\<close> succeeds and no object name has white space at its
  ends or a line feed, the result is sorted, free of duplicates and has exactly the names of the
  vault's objects.
\<close>

lemma List_Names_lists_vault:
  assumes "List_Names (dezhan_http env vi dir_bytes other base) \<lparr>ctl_Endpoint = base\<rparr> hs = Some (Inr ns, hs')"
    and "\<forall>n\<in>dom (map_of (Index (Vlt (Srv hs)))). plain_name n"
  shows "sorted ns \<and> distinct ns \<and> set ns = dom (map_of (Index (Vlt (Srv hs))))"
proof -
  have mod: "modelled ''GET'' ''/v''" by (simp add: modelled_def verbatim_def)
  from assms(1) obtain body where b: "text_request (dezhan_http env vi dir_bytes other base) \<lparr>ctl_Endpoint = base\<rparr>
      ''GET'' ''/v'' Map.empty None hs = Some (Inr (body, 200), hs')" "ns = parse_names body"
    by (auto simp: List_Names_def io_try_Some io_throw_def io_return_def split: if_splits)
  from text_request_ok [OF mod b(1)] obtain v where v: "advanced (Srv hs) v"
    "body = concat (map (\<lambda>n. n @ [CHR 0x0A]) (Object_Names env v))"
    by (auto simp: handle_def io_return_def send_text_def send_def)
  have names: "set (Object_Names env v) = dom (map_of (Index (Vlt (Srv hs))))" "distinct (Object_Names env v)"
    using advanced_same(1) [OF v(1)]
    by (auto simp: Object_Names_def keys_of_def Let_def dom_map_of_conv_image_fst)
  with v(2) b(2) assms(2) show ?thesis by (simp add: parse_names_lines)
qed

lemma List_Names_sample:
  "\<exists>ns. List_Names sample_http sample_ctl fresh_http = Some (Inr ns, fresh_http)"
proof -
  have mod: "modelled ''GET'' ''/v''" by (simp add: modelled_def verbatim_def)
  let ?t = "concat (map (\<lambda>n. n @ [CHR 0x0A]) (Object_Names list_env vault_a))"
  have "text_request sample_http sample_ctl ''GET'' ''/v'' Map.empty None fresh_http = Some (Inr (?t, 200), fresh_http)"
    by (subst text_request_Nil [OF mod, where resp = "send_text 200 ?t []" and denied = False and v = vault_a and b = ?t])
      (simp_all add: handle_def io_return_def send_text_def send_def fresh_http_def)
  then show ?thesis by (simp add: List_Names_def io_try_Some io_return_def)
qed

lemma plain_name_a: "plain_name ''a''"
proof -
  have "\<not> space_byte (CHR ''a'')" by (simp add: space_byte_def space_codes_def bytes_of_def eq_char_of)
  then show ?thesis by (simp add: plain_name_def TrimSpace_plain)
qed

text \<open>
  \<open>dezhanctl stat\<close> never reports an object's size: the server answers HEAD with an empty text body,
  so the content length that \<open>Stat\<close> returns for an existing object is always zero, and no
  \<open>X-Dezhan-*\<close> header is among the headers it shows.
\<close>

lemma Client_Stat_hides_size:
  assumes "object_name name"
    and "Client_Stat (dezhan_http env vi dir_bytes other base) \<lparr>ctl_Endpoint = base\<rparr> name hs = Some (Inr ((h, 200), err), hs')"
  shows "InterestingHeaders ul h ''content-length'' = Some ''0'' \<and>
     (\<forall>k. HasPrefix k ''x-dezhan-'' \<longrightarrow> InterestingHeaders ul h k = None)"
proof -
  from assms(2) obtain resp where r: "do_request (dezhan_http env vi dir_bytes other base) \<lparr>ctl_Endpoint = base\<rparr>
      ''HEAD'' (''/v/'' @ name) Map.empty None hs = Some (Inr resp, hs')" "h = resp_Header resp" "StatusCode resp = 200"
    by (auto simp: Client_Stat_def io_try_Some io_throw_def io_return_def)
  from do_request_ok [OF modelled_object [OF assms(1)] r(1)] r(3) obtain v d where
    "handle_v env vi ''HEAD'' name Map.empty [] v = Some (Inr (resp, d), Vlt (Srv hs'))"
    by (auto simp: handle_object [OF assms(1), simplified])
  then obtain tag where "resp = send_text 200 [] (etag_header tag)"
    using r(3) by (auto simp: handle_v_def v_head_def io_return_def send_text_def send_def split: if_splits)
  moreover have zero: "digits_of_nat 0 = ''0''" by (simp add: digits_of_nat.simps [of 0] char_of_eq)
  ultimately show ?thesis unfolding r(2)
    by (simp add: send_text_def send_def etag_header_def InterestingHeaders_def interesting_def ToLower_def
        is_ascii_def ascii_lower_def Let_def char_of_eq eq_char_of zero)
qed

end
