(* ===== verification/Ctl_Cmd.thy ===== *)
theory Ctl_Cmd
  imports Ctl_Client
begin

text \<open>
  The commands of \<open>dezhanctl\<close>: \<open>src/ctl/main.go\<close> and the \<open>RunE\<close> functions of \<open>src/ctl/cmd\<close>.

  A command is an action on the world that its HTTP transport acts on too.  The calls of \<open>os\<close> and
  \<open>encoding/json\<close> that the commands make are the fields of \<open>ctl_host\<close>; writing to the standard output
  is taken as successful where the source ignores the result (\<open>fmt.Println\<close>, \<open>fmt.Printf\<close>).  The
  request context with its timeout belongs to the transport.  The flags that Cobra parses are the
  record \<open>flags\<close>, the positional arguments a list; an index out of range is a panic, \<^term>\<open>None\<close>.
  \<open>%.0f\<close> is the field \<open>fmt0\<close>.
\<close>

section \<open>Host and flags\<close>

text \<open>What the commands marshal; \<open>JObject\<close> is a \<open>map[string]any\<close>, whose order has no meaning.\<close>

datatype json = JString string | JBool bool | JInt int | JStrings "string list"
  | JMap "string \<rightharpoonup> string" | JObject "(string \<times> json) list"

record ('s, 'f) ctl_host =
  Getenv :: "string \<Rightarrow> string"
  ReadFile :: "string \<Rightarrow> 's \<Rightarrow> (string + bytes) \<times> 's"
  WriteFile :: "string \<Rightarrow> bytes \<Rightarrow> 's \<Rightarrow> (string + unit) \<times> 's"
  Stdout_Write :: "bytes \<Rightarrow> 's \<Rightarrow> (string + unit) \<times> 's"
  Print :: "string \<Rightarrow> 's \<Rightarrow> 's"
  Eprint :: "string \<Rightarrow> 's \<Rightarrow> 's"
  MarshalIndent :: "json \<Rightarrow> string + string"
  metric_json :: "(string \<rightharpoonup> 'f) \<Rightarrow> json"
  ParseFloat :: "string \<Rightarrow> 'f option"
  fmt0 :: "'f \<Rightarrow> string"

record flags =
  endpoint :: string
  adminToken :: string
  jsonOut :: bool
  getOutput :: string
  putMode :: string
  putRetain :: int
  putFile :: string
  delBypass :: bool

definition defaultEndpoint :: "(string \<Rightarrow> string) \<Rightarrow> string" where
  "defaultEndpoint getenv = (if getenv ''DEZHAN_ENDPOINT'' \<noteq> [] then getenv ''DEZHAN_ENDPOINT''
     else ''http://127.0.0.1:8080'')"

text \<open>The flags of an invocation that sets none.\<close>

definition default_flags :: "(string \<Rightarrow> string) \<Rightarrow> flags" where
  "default_flags getenv = \<lparr>endpoint = defaultEndpoint getenv, adminToken = getenv ''DEZHAN_ADMIN_TOKEN'',
     jsonOut = False, getOutput = [], putMode = ''compliance'', putRetain = 3600, putFile = [], delBypass = False\<rparr>"

definition newClient :: "flags \<Rightarrow> ctl_Client" where
  "newClient fl = New_Client (endpoint fl)"

definition os_call :: "('s \<Rightarrow> (string + 'a) \<times> 's) \<Rightarrow> ('s, string, 'a) io" where
  [io_defs]: "os_call f = (\<lambda>s. Some (f s))"

definition Println :: "('s, 'f) ctl_host \<Rightarrow> string \<Rightarrow> ('s, string, unit) io" where
  "Println h t = io_modify (Print h (t @ [CHR 0x0A]))"

definition printJSON :: "('s, 'f) ctl_host \<Rightarrow> json \<Rightarrow> ('s, string, unit) io" where
  "printJSON h v = (case MarshalIndent h v of Inl err \<Rightarrow> io_throw err | Inr b \<Rightarrow> Println h b)"

definition panic :: "('s, string, 'a) io" where
  "panic = (\<lambda>s. None)"

section \<open>Commands\<close>

definition healthCmd :: "('s, 'f) ctl_host \<Rightarrow> 's http_env \<Rightarrow> flags \<Rightarrow> string list \<Rightarrow> ('s, string, unit) io" where
  "healthCmd h he fl args = io_bind (Health he (newClient fl)) (\<lambda>t.
     if jsonOut fl then printJSON h (JObject [(''health'', JString t), (''ok'', JBool (t = ''ok''))])
     else Println h t)"

definition versionCmd :: "('s, 'f) ctl_host \<Rightarrow> 's http_env \<Rightarrow> flags \<Rightarrow> string list \<Rightarrow> ('s, string, unit) io" where
  "versionCmd h he fl args = io_bind (Server_Version he (newClient fl)) (\<lambda>v.
     if jsonOut fl then printJSON h (JObject [(''version'', JString v)]) else Println h v)"

definition lsCmd :: "('s, 'f) ctl_host \<Rightarrow> 's http_env \<Rightarrow> flags \<Rightarrow> string list \<Rightarrow> ('s, string, unit) io" where
  "lsCmd h he fl args = io_bind (List_Names he (newClient fl)) (\<lambda>names.
     if jsonOut fl then printJSON h (JStrings names) else for_each (Println h) names)"

text \<open>\<open>Metrics\<close> may return metrics and an error; the commands look at the error only.\<close>

definition metrics_or_error ::
  "('s, 'f) ctl_host \<Rightarrow> 's http_env \<Rightarrow> ctl_Client \<Rightarrow> ('s, string, 'f Metrics) io" where
  "metrics_or_error h he c = io_bind (Client_Metrics (ParseFloat h) he c) (\<lambda>(m, err).
     case err of Some e \<Rightarrow> io_throw e | None \<Rightarrow> io_return m)"

definition metricsCmd :: "('s, 'f) ctl_host \<Rightarrow> 's http_env \<Rightarrow> flags \<Rightarrow> string list \<Rightarrow> ('s, string, unit) io" where
  "metricsCmd h he fl args = io_bind (metrics_or_error h he (newClient fl)) (\<lambda>m.
     if jsonOut fl then printJSON h (JObject [(''version'', JString (Metrics_Version m)),
       (''values'', metric_json h (Values m))])
     else io_modify (Print h (Raw m)))"

definition getCmd :: "('s, 'f) ctl_host \<Rightarrow> 's http_env \<Rightarrow> flags \<Rightarrow> string list \<Rightarrow> ('s, string, unit) io" where
  "getCmd h he fl args = (case args of [] \<Rightarrow> panic | name # _ \<Rightarrow>
     io_bind (Client_Get he (newClient fl) name) (\<lambda>b.
       if getOutput fl \<noteq> [] \<and> getOutput fl \<noteq> ''-'' then
         io_bind (os_call (WriteFile h (getOutput fl) b)) (\<lambda>_.
           io_modify (Eprint h (''wrote '' @ Itoa (int (length b)) @ '' bytes to '' @ getOutput fl @ [CHR 0x0A])))
       else os_call (Stdout_Write h b)))"

definition put_data :: "('s, 'f) ctl_host \<Rightarrow> flags \<Rightarrow> string list \<Rightarrow> ('s, string, bytes) io" where
  "put_data h fl args =
    (if putFile fl \<noteq> [] then os_call (ReadFile h (putFile fl))
     else if length args \<ge> 2 then io_return (args ! 1)
     else io_throw ''provide <data> or --file'')"

definition putCmd :: "('s, 'f) ctl_host \<Rightarrow> 's http_env \<Rightarrow> flags \<Rightarrow> string list \<Rightarrow> ('s, string, unit) io" where
  "putCmd h he fl args = io_bind (put_data h fl args) (\<lambda>data. case args of [] \<Rightarrow> panic | name # _ \<Rightarrow>
     io_bind (Client_Put he (newClient fl) name data (putMode fl) (putRetain fl)) (\<lambda>out. Println h out))"

definition delCmd :: "('s, 'f) ctl_host \<Rightarrow> 's http_env \<Rightarrow> flags \<Rightarrow> string list \<Rightarrow> ('s, string, unit) io" where
  "delCmd h he fl args = (case args of [] \<Rightarrow> panic | name # _ \<Rightarrow>
     io_bind (Client_Delete he (newClient fl) name (delBypass fl)) (\<lambda>out. Println h out))"

definition adminAction ::
  "string \<Rightarrow> ('s, 'f) ctl_host \<Rightarrow> 's http_env \<Rightarrow> flags \<Rightarrow> string list \<Rightarrow> ('s, string, unit) io" where
  "adminAction action h he fl args = io_bind (Client_Admin he (newClient fl) action (adminToken fl)) (\<lambda>out.
     if out \<noteq> [] then Println h out else Println h ''ok'')"

text \<open>\<open>%-18s\<close>: padded on the right to eighteen characters (of ASCII text).\<close>

definition pad18 :: "string \<Rightarrow> string" where
  "pad18 t = t @ replicate (18 - length t) (CHR '' '')"

definition statCmd ::
  "(string \<Rightarrow> string) \<Rightarrow> ('s, 'f) ctl_host \<Rightarrow> 's http_env \<Rightarrow> flags \<Rightarrow> string list \<Rightarrow> ('s, string, unit) io" where
  "statCmd ul h he fl args = (case args of [] \<Rightarrow> panic | name # _ \<Rightarrow>
     io_bind (Client_Stat he (newClient fl) name) (\<lambda>((hdr, code), err). case err of Some e \<Rightarrow> io_throw e | None \<Rightarrow>
       let meta = InterestingHeaders ul hdr;
           keys = sort (remdups (filter (\<lambda>k. meta k \<noteq> None) (map (\<lambda>(k, _). ToLower ul k) hdr)))
       in if jsonOut fl then printJSON h (JObject [(''name'', JString name), (''status'', JInt code), (''headers'', JMap meta)])
          else io_bind (Println h (''name    '' @ name)) (\<lambda>_.
               io_bind (Println h (''status  '' @ Itoa code)) (\<lambda>_.
               for_each (\<lambda>k. Println h (pad18 k @ '' '' @ map_get meta k)) keys))))"

definition or_empty :: "('s, string, 'a list) io \<Rightarrow> ('s, string, 'a list) io" where
  "or_empty m = io_try m (\<lambda>_. io_return []) io_return"

definition snapshot_text ::
  "('f \<Rightarrow> string) \<Rightarrow> string \<Rightarrow> string \<Rightarrow> string \<Rightarrow> ('f::zero) Metrics \<Rightarrow> string list \<Rightarrow> string list" where
  "snapshot_text fmt ep h v m names =
    [''endpoint  '' @ ep, ''health    '' @ h, ''version   '' @ v,
     ''sealed    '' @ (if Metrics_Get m ''dezhan_sealed'' \<noteq> 0 then ''true'' else ''false''),
     ''objects   '' @ fmt (Metrics_Get m ''dezhan_objects''),
     ''stored    '' @ fmt (Metrics_Get m ''dezhan_storage_bytes'') @ '' bytes'',
     ''audit     '' @ fmt (Metrics_Get m ''dezhan_audit_entries'') @ '' entries'',
     ''quarantd  '' @ fmt (Metrics_Get m ''dezhan_quarantined''),
     ''scrubs    '' @ fmt (Metrics_Get m ''dezhan_scrub_runs'') @ '' (repaired '' @
        fmt (Metrics_Get m ''dezhan_scrub_shards_repaired'') @ '' shards)'',
     ''listed    '' @ Itoa (int (length names)) @ '' objects'']"

definition snapshot :: "('s, 'f::zero) ctl_host \<Rightarrow> 's http_env \<Rightarrow> flags \<Rightarrow> ('s, string, unit) io" where
  "snapshot h he fl = (let cl = newClient fl in
     io_bind (Health he cl) (\<lambda>t.
     io_bind (or_empty (Server_Version he cl)) (\<lambda>v.
     io_bind (metrics_or_error h he cl) (\<lambda>m.
     io_bind (or_empty (List_Names he cl)) (\<lambda>names.
       for_each (Println h) (snapshot_text (fmt0 h) (endpoint fl) t v m names))))))"

text \<open>\<open>main\<close>: the exit status, after reporting an error.\<close>

definition ctl_main :: "('s, 'f) ctl_host \<Rightarrow> ('s, string, unit) io \<Rightarrow> 's \<Rightarrow> (nat \<times> 's) option" where
  "ctl_main h execute s = (case execute s of
       None \<Rightarrow> None
     | Some (Inr _, t) \<Rightarrow> Some (0, t)
     | Some (Inl err, t) \<Rightarrow> Some (1, Eprint h (''dezhanctl: '' @ err @ [CHR 0x0A]) t))"

end
