(* ===== verification/Ctl_Shell.thy ===== *)
theory Ctl_Shell
  imports Ctl_Dezhan Ctl_Cmd
begin

text \<open>
  The commands of \<open>dezhanctl\<close> in a shell, against the server: a console with files and two output
  streams around the network, and what \<open>put\<close>, \<open>get\<close>, \<open>ls\<close> and \<open>del\<close> do to it end to end.

  \<open>console_host\<close> is what the commands use of Go's \<open>os\<close> and \<open>fmt\<close>; a file that does not exist cannot
  be read, and \<open>writable\<close> says which paths can be created or overwritten.  The client library touches
  nothing but the network (\<open>on_net\<close>), so its theorems about the server carry over to the console.
\<close>

section \<open>The console\<close>

record 'n console =
  Net :: 'n
  Files :: "string \<rightharpoonup> bytes"
  Out :: string
  Err :: string

definition console_host ::
  "(string \<Rightarrow> string) \<Rightarrow> (string \<Rightarrow> bool) \<Rightarrow> (json \<Rightarrow> string + string) \<Rightarrow> ((string \<rightharpoonup> 'f) \<Rightarrow> json) \<Rightarrow>
     (string \<Rightarrow> 'f option) \<Rightarrow> ('f \<Rightarrow> string) \<Rightarrow> ('n console, 'f) ctl_host" where
  "console_host getenv writable marshal mj pf fmt = \<lparr>Getenv = getenv,
     ReadFile = (\<lambda>p w. (case Files w p of
         None \<Rightarrow> Inl (''open '' @ p @ '': no such file or directory'') | Some b \<Rightarrow> Inr b, w)),
     WriteFile = (\<lambda>p b w. if writable p then (Inr (), w\<lparr>Files := (Files w)(p \<mapsto> b)\<rparr>)
         else (Inl (''open '' @ p @ '': permission denied''), w)),
     Stdout_Write = (\<lambda>b w. (Inr (), w\<lparr>Out := Out w @ b\<rparr>)),
     Print = (\<lambda>t w. w\<lparr>Out := Out w @ t\<rparr>), Eprint = (\<lambda>t w. w\<lparr>Err := Err w @ t\<rparr>),
     MarshalIndent = marshal, metric_json = mj, ParseFloat = pf, fmt0 = fmt\<rparr>"

definition console_http :: "'n http_env \<Rightarrow> 'n console http_env" where
  "console_http he = \<lparr>NewRequest = NewRequest he,
     Do = (\<lambda>q w. case Do he q (Net w) of (r, n) \<Rightarrow> (r, w\<lparr>Net := n\<rparr>))\<rparr>"

section \<open>The client touches the network only\<close>

definition on_net :: "('n, 'e, 'a) io \<Rightarrow> ('n console, 'e, 'a) io" where
  "on_net m = (\<lambda>w. map_option (\<lambda>(r, n). (r, w\<lparr>Net := n\<rparr>)) (m (Net w)))"

named_theorems net_lift "actions of the client on a console are its actions on the network"

lemma on_net_return [net_lift]: "on_net (io_return x) = io_return x"
  by (rule ext) (simp add: on_net_def io_return_def)

lemma on_net_throw [net_lift]: "on_net (io_throw e) = io_throw e"
  by (rule ext) (simp add: on_net_def io_throw_def)

lemma on_net_try [net_lift]: "on_net (io_try m h k) = io_try (on_net m) (\<lambda>e. on_net (h e)) (\<lambda>x. on_net (k x))"
  by (rule ext) (auto simp: on_net_def io_try_def split: option.split sum.split)

lemma on_net_do_request [net_lift]:
  "do_request (console_http he) c method path hdr body = on_net (do_request he c method path hdr body)"
  by (rule ext)
    (auto simp: do_request_def console_http_def on_net_def io_throw_def split: option.split prod.split)

lemma on_net_text_request [net_lift]:
  "text_request (console_http he) c method path hdr body = on_net (text_request he c method path hdr body)"
  by (rule ext)
    (auto simp: text_request_def net_lift intro!: arg_cong2 [where f = "\<lambda>k w. io_try _ io_throw k w"] split: sum.split)

lemma on_net_Get: "Client_Get (console_http he) c name = on_net (Client_Get he c name)"
  by (auto simp: Client_Get_def net_lift intro!: arg_cong [where f = "io_try _ io_throw"] split: sum.split)

lemma on_net_Put: "Client_Put (console_http he) c name data mode secs = on_net (Client_Put he c name data mode secs)"
  by (auto simp: Client_Put_def net_lift intro!: arg_cong [where f = "io_try _ io_throw"])

lemma on_net_Delete: "Client_Delete (console_http he) c name bypass = on_net (Client_Delete he c name bypass)"
  by (auto simp: Client_Delete_def net_lift intro!: arg_cong [where f = "io_try _ io_throw"])

lemma on_net_List: "List_Names (console_http he) c = on_net (List_Names he c)"
  by (auto simp: List_Names_def net_lift intro!: arg_cong [where f = "io_try _ io_throw"])

lemma on_net_Some: "on_net m w = Some (r, w') \<longleftrightarrow> (\<exists>n. m (Net w) = Some (r, n) \<and> w' = w\<lparr>Net := n\<rparr>)"
  by (auto simp: on_net_def)

section \<open>Commands on the console\<close>

lemma console_host_sels [simp]:
  "ReadFile (console_host g wr ms mj pf fmt) p w = (case Files w p of
     None \<Rightarrow> Inl (''open '' @ p @ '': no such file or directory'') | Some b \<Rightarrow> Inr b, w)"
  "WriteFile (console_host g wr ms mj pf fmt) p b w = (if wr p then (Inr (), w\<lparr>Files := (Files w)(p \<mapsto> b)\<rparr>)
     else (Inl (''open '' @ p @ '': permission denied''), w))"
  "Print (console_host g wr ms mj pf fmt) t w = w\<lparr>Out := Out w @ t\<rparr>"
  "Eprint (console_host g wr ms mj pf fmt) t w = w\<lparr>Err := Err w @ t\<rparr>"
  by (simp_all add: console_host_def)

lemmas console_simps = os_call_def io_bind_def io_try_def io_throw_def io_return_def io_modify_def

lemma Println_console:
  "Println (console_host g wr ms mj pf fmt) t w = Some (Inr (), w\<lparr>Out := Out w @ t @ [CHR 0x0A]\<rparr>)"
  by (simp add: Println_def console_simps)

lemma for_each_Println:
  "for_each (Println (console_host g wr ms mj pf fmt)) ns w =
     Some (Inr (), w\<lparr>Out := Out w @ concat (map (\<lambda>n. n @ [CHR 0x0A]) ns)\<rparr>)"
  by (induction ns arbitrary: w) (simp_all add: Println_console io_try_def io_return_def)

lemma newClient_eta: "\<lparr>ctl_Endpoint = ctl_Endpoint (newClient fl)\<rparr> = newClient fl"
  by simp

text \<open>A successful \<open>put --file\<close>, \<open>get -o\<close>, \<open>ls\<close> or \<open>del\<close>, in terms of the client's call.\<close>

lemma putCmd_file:
  assumes "putCmd (console_host g wr ms mj pf fmt) (console_http he) fl [name] w = Some (Inr (), w1)"
    and "putFile fl \<noteq> []"
  shows "\<exists>data msg n. Files w (putFile fl) = Some data \<and> Files w1 = Files w \<and> Net w1 = n \<and>
     Client_Put he (newClient fl) name data (putMode fl) (putRetain fl) (Net w) = Some (Inr msg, n)"
  using assms
  by (auto simp: putCmd_def put_data_def io_bind_Inr on_net_Put on_net_Some Println_console os_call_def
      split: option.splits)

lemma getCmd_file:
  assumes "Client_Get he (newClient fl) name (Net w) = Some (Inr data, n)"
    and "getOutput fl \<noteq> []" and "getOutput fl \<noteq> ''-''" and "wr (getOutput fl)"
  shows "\<exists>w2. getCmd (console_host g wr ms mj pf fmt) (console_http he) fl [name] w = Some (Inr (), w2) \<and>
     Files w2 = (Files w)(getOutput fl \<mapsto> data) \<and> Out w2 = Out w \<and> Net w2 = n"
  using assms by (simp add: getCmd_def on_net_Get on_net_def console_simps)

lemma lsCmd_lines:
  assumes "lsCmd (console_host g wr ms mj pf fmt) (console_http he) fl [] w = Some (Inr (), w1)"
    and "\<not> jsonOut fl"
  shows "\<exists>ns n. List_Names he (newClient fl) (Net w) = Some (Inr ns, n) \<and>
     w1 = w\<lparr>Net := n, Out := Out w @ concat (map (\<lambda>n. n @ [CHR 0x0A]) ns)\<rparr>"
  using assms by (auto simp: lsCmd_def io_bind_Inr on_net_List on_net_Some for_each_Println)

lemma delCmd_error:
  assumes "Client_Delete he (newClient fl) name (delBypass fl) (Net w) = Some (Inl e, n)"
  shows "ctl_main (console_host g wr ms mj pf fmt) (delCmd (console_host g wr ms mj pf fmt) (console_http he) fl [name]) w =
     Some (1, w\<lparr>Net := n, Err := Err w @ ''dezhanctl: '' @ e @ [CHR 0x0A]\<rparr>)"
  using assms by (simp add: ctl_main_def delCmd_def on_net_Delete on_net_def console_simps)

text \<open>An invocation, a host and a world, for evaluation.\<close>

definition shell_flags :: flags where
  "shell_flags = (default_flags (\<lambda>_. []))\<lparr>endpoint := ''http://d/'', putFile := ''in'', getOutput := ''out'',
     putMode := ''governance'', putRetain := 0, delBypass := True\<rparr>"

definition shell_world :: "(string \<times> bytes) list http_server console" where
  "shell_world = \<lparr>Net = fresh_http, Files = [''in'' \<mapsto> ''yo''], Out = [], Err = []\<rparr>"

definition shell_host :: "((string \<times> bytes) list http_server console, nat) ctl_host" where
  "shell_host = console_host (\<lambda>_. []) (\<lambda>_. True) (\<lambda>_. Inl ''unsupported'') (\<lambda>_. JMap Map.empty) read_nat digits_of_nat"

lemma shell_client: "newClient shell_flags = sample_ctl"
  by (simp add: newClient_def shell_flags_def default_flags_def New_Client_def TrimRightByte_def)

lemma shell_sels [simp]:
  "putFile shell_flags = ''in''" "getOutput shell_flags = ''out''" "putMode shell_flags = ''governance''"
  "putRetain shell_flags = 0" "delBypass shell_flags" "\<not> jsonOut shell_flags"
  "Net shell_world = fresh_http" "Files shell_world = [''in'' \<mapsto> ''yo'']" "Out shell_world = []"
  by (simp_all add: shell_flags_def default_flags_def shell_world_def)

lemma object_name_sample: "object_name ''a''" "object_name ''b''"
  by (simp_all add: object_name_def verbatim_def)

lemma putCmd_sample:
  "\<exists>w1. putCmd shell_host (console_http sample_http) shell_flags [''b''] shell_world = Some (Inr (), w1) \<and>
     Samples (Srv (Net w1)) = []"
proof -
  obtain msg hs1 where "Client_Put sample_http sample_ctl ''b'' ''yo'' ''governance'' 0 fresh_http = Some (Inr msg, hs1)"
    "Samples (Srv hs1) = []" using Client_Put_sample by blast
  then show ?thesis
    by (simp add: putCmd_def put_data_def shell_client on_net_Put on_net_def shell_host_def console_simps
        Println_console [unfolded console_simps])
qed

section \<open>Properties\<close>



text \<open>
  \<open>dezhanctl ls\<close> prints the vault.  When it succeeds, without \<open>--json\<close>, what it adds to the
  standard output is every object name of the vault exactly once, in ascending order, one per line, and no
  file changes (for names without white space at their ends or a line feed).
\<close>

lemma ls_prints_vault:
  assumes "lsCmd (console_host g wr ms mj pf fmt)
      (console_http (dezhan_http env vi dir_bytes other (ctl_Endpoint (newClient fl)))) fl [] w = Some (Inr (), w1)"
    and "\<not> jsonOut fl" and "\<forall>n\<in>dom (map_of (Index (Vlt (Srv (Net w))))). plain_name n"
  shows "Out w1 = Out w @ concat (map (\<lambda>n. n @ [CHR 0x0A]) (sorted_list_of_set (dom (map_of (Index (Vlt (Srv (Net w)))))))) \<and>
     Files w1 = Files w"
proof -
  from lsCmd_lines [OF assms(1,2)] obtain ns n where
    l: "List_Names (dezhan_http env vi dir_bytes other (ctl_Endpoint (newClient fl))) (newClient fl) (Net w) = Some (Inr ns, n)"
    "w1 = w\<lparr>Net := n, Out := Out w @ concat (map (\<lambda>n. n @ [CHR 0x0A]) ns)\<rparr>" by blast
  have "List_Names (dezhan_http env vi dir_bytes other (ctl_Endpoint (newClient fl)))
      \<lparr>ctl_Endpoint = ctl_Endpoint (newClient fl)\<rparr> (Net w) = Some (Inr ns, n)" using l(1) by (simp add: newClient_eta)
  from List_Names_lists_vault [OF this assms(3)]
  have "ns = sorted_list_of_set (dom (map_of (Index (Vlt (Srv (Net w))))))"
    by (metis sorted_list_of_set.idem_if_sorted_distinct)
  with l(2) show ?thesis by simp
qed

text \<open>
  C15: \<open>dezhanctl del\<close> of a protected object exits with status 1.  For an object under legal hold, or
  under a compliance retention that has not ended when the request is served, with or without
  \<open>--bypass\<close>: the object stays in the index with its lock, nothing is printed to the standard output, an
  error is reported on the standard error, and no file changes.
\<close>

theorem del_protected_exits:
  assumes "object_name name" and "map_of (Index (Vlt (Srv (Net w)))) name = Some m"
    and "Legal_Hold (Lock m) \<or> Lock_Mode_Of (Lock m) = Compliance \<and>
      (\<forall>v. advanced (Srv (Net w)) v \<longrightarrow> Now (Clock v) < Retain_Until (Lock m))"
    and "he = dezhan_http env vi dir_bytes other (ctl_Endpoint (newClient fl))"
  shows "\<exists>w' e. ctl_main (console_host g wr ms mj pf fmt) (delCmd (console_host g wr ms mj pf fmt) (console_http he) fl [name]) w =
       Some (1, w') \<and>
     map_of (Index (Vlt (Srv (Net w')))) name = Some m \<and>
     Out w' = Out w \<and> Err w' = Err w @ ''dezhanctl: '' @ e @ [CHR 0x0A] \<and> Files w' = Files w"
proof -
  obtain r n where d: "Client_Delete he \<lparr>ctl_Endpoint = ctl_Endpoint (newClient fl)\<rparr> name (delBypass fl) (Net w) = Some (r, n)"
    using Client_Delete_returns [OF assms(1)] unfolding assms(4) by blast
  from Client_Delete_protected [OF assms(1-3) d [unfolded assms(4)]] obtain e
    where "r = Inl e" "map_of (Index (Vlt (Srv n))) name = Some m" by blast
  with delCmd_error [OF d [unfolded newClient_eta, unfolded \<open>r = Inl e\<close>]] show ?thesis
    by (intro exI [of _ "w\<lparr>Net := n, Err := Err w @ ''dezhanctl: '' @ e @ [CHR 0x0A]\<rparr>"] exI [of _ e]) simp
qed

theorem del_protected_exits_witness:
  "\<exists>w'. ctl_main shell_host (delCmd shell_host (console_http sample_http) shell_flags [''a'']) shell_world = Some (1, w') \<and>
     map_of (Index (Vlt (Srv (Net w')))) ''a'' \<noteq> None"
proof -
  have he: "sample_http = dezhan_http list_env (\<lambda>_. None) length (\<lambda>_ s. (Inl ''unreachable'', s)) (ctl_Endpoint (newClient shell_flags))"
    by (simp add: shell_client)
  have m: "map_of (Index (Vlt (Srv (Net shell_world)))) ''a'' =
      Some \<lparr>Id = replicate 64 (char_of (0::nat)), Lock = Create_Lock Compliance 5 0, Composite = False,
        Quarantined = False, Size = 2, User_Meta = []\<rparr>"
    by (simp add: fresh_http_def vault_a_def empty_vault_def)
  show ?thesis unfolding shell_host_def
    using del_protected_exits [OF object_name_sample(1) m _ he]
    by (fastforce simp: Create_Lock_def fresh_http_def vault_a_def empty_vault_def advanced_def Now_def Init_def)
qed

end
