(* ===== verification/Ctl_Tui.thy ===== *)
theory Ctl_Tui
  imports Ctl_Cmd Complex_Main
begin

text \<open>
  The live dashboard, \<open>src/ctl/internal/tui/dashboard.go\<close>, and the command that starts it,
  \<open>src/ctl/cmd/dashboard.go\<close>.

  \<open>Model\<close> and \<open>Update\<close> are the source's.  A Bubble Tea command is a value of \<open>cmd\<close>: its two kinds here are
  a fetch, which runs the client's methods, and a timer.  \<open>tui_step\<close> is the loop of the Bubble Tea
  runtime as documented: it keeps the commands under way, delivers their messages and the
  terminal's to \<open>Update\<close> one at a time, in any order, and starts the commands \<open>Update\<close> returns; \<open>tea.Quit\<close>
  ends it.  Lip Gloss rendering is a parameter \<open>lg\<close>, times are texts, durations are nanoseconds.
\<close>

section \<open>Messages and state\<close>

record 'f snapshotMsg =
  snap_health :: string
  snap_version :: string
  snap_metrics :: "'f Metrics option"
  snap_objects :: "string list"
  snap_err :: "string option"
  snap_at :: string

datatype 'f msg = KeyMsg string | WindowSizeMsg int int | TickMsg | SnapshotMsg "'f snapshotMsg"

datatype cmd = Fetch | TickAfter int | Quit

record 'f Model =
  m_cli :: ctl_Client
  m_endpoint :: string
  m_every :: int
  m_snap :: "'f snapshotMsg"
  m_loaded :: bool
  m_width :: int
  m_height :: int

definition Second :: int where "Second = 1000000000"

definition no_snapshot :: "'f snapshotMsg" where
  "no_snapshot = \<lparr>snap_health = [], snap_version = [], snap_metrics = None, snap_objects = [], snap_err = None,
     snap_at = []\<rparr>"

definition New_Model :: "ctl_Client \<Rightarrow> string \<Rightarrow> int \<Rightarrow> 'f Model" where
  "New_Model cli ep every = \<lparr>m_cli = cli, m_endpoint = ep, m_every = (if every < Second then Second else every),
     m_snap = no_snapshot, m_loaded = False, m_width = 0, m_height = 0\<rparr>"

definition Init_Model :: "'f Model \<Rightarrow> cmd list" where
  "Init_Model m = [Fetch, TickAfter (m_every m)]"

section \<open>Fetching\<close>

text \<open>\<open>s, _ = f()\<close>: the zero value on an error.\<close>

definition fetch ::
  "('s, 'f) ctl_host \<Rightarrow> 's http_env \<Rightarrow> ctl_Client \<Rightarrow> string \<Rightarrow> ('s, string, 'f snapshotMsg) io" where
  "fetch h he cli now =
     io_bind (or_empty (Health he cli)) (\<lambda>hl.
     io_bind (or_empty (Server_Version he cli)) (\<lambda>vs.
     io_bind (io_try (metrics_or_error h he cli) (\<lambda>e. io_return (None, Some e)) (\<lambda>mm. io_return (Some mm, None))) (\<lambda>(mm, err).
     io_bind (or_empty (List_Names he cli)) (\<lambda>objs.
       io_return \<lparr>snap_health = hl, snap_version = vs, snap_metrics = mm, snap_objects = objs, snap_err = err,
         snap_at = now\<rparr>))))"

definition FetchOnce ::
  "('s, 'f) ctl_host \<Rightarrow> 's http_env \<Rightarrow> string \<Rightarrow> int \<Rightarrow> 'f Model \<Rightarrow> ('s, string, 'f Model) io" where
  "FetchOnce h he now width m = io_bind (fetch h he (m_cli m) now) (\<lambda>s.
     io_return (m\<lparr>m_snap := s, m_loaded := True, m_width := (if width > 0 then width else m_width m)\<rparr>))"

section \<open>Update\<close>

definition Update :: "'f Model \<Rightarrow> 'f msg \<Rightarrow> 'f Model \<times> cmd list" where
  "Update m msg = (case msg of
       KeyMsg k \<Rightarrow> if k \<in> {''q'', ''ctrl+c'', ''esc''} then (m, [Quit]) else if k = ''r'' then (m, [Fetch]) else (m, [])
     | WindowSizeMsg w h \<Rightarrow> (m\<lparr>m_width := w, m_height := h\<rparr>, [])
     | TickMsg \<Rightarrow> (m, [Fetch, TickAfter (m_every m)])
     | SnapshotMsg s \<Rightarrow> (m\<lparr>m_snap := s, m_loaded := True\<rparr>, []))"

section \<open>View\<close>

datatype color = Color string

record style =
  st_Bold :: bool
  st_Foreground :: "color option"
  st_Background :: "color option"
  st_RoundedBorder :: "color option"
  st_Padding :: bool
  st_Width :: int

definition NewStyle :: style where
  "NewStyle = \<lparr>st_Bold = False, st_Foreground = None, st_Background = None, st_RoundedBorder = None, st_Padding = False,
     st_Width = 0\<rparr>"

definition cBlue :: color where "cBlue = Color ''39''"
definition cGreen :: color where "cGreen = Color ''42''"
definition cRed :: color where "cRed = Color ''196''"
definition cAmber :: color where "cAmber = Color ''214''"
definition cGray :: color where "cGray = Color ''245''"
definition cFaint :: color where "cFaint = Color ''240''"

definition titleStyle :: style where
  "titleStyle = NewStyle\<lparr>st_Bold := True, st_Foreground := Some (Color ''231''), st_Background := Some cBlue, st_Padding := True\<rparr>"

definition panelStyle :: style where
  "panelStyle = NewStyle\<lparr>st_RoundedBorder := Some cFaint, st_Padding := True\<rparr>"

definition labelStyle :: style where "labelStyle = NewStyle\<lparr>st_Foreground := Some cGray\<rparr>"
definition valueStyle :: style where "valueStyle = NewStyle\<lparr>st_Bold := True, st_Foreground := Some (Color ''231'')\<rparr>"
definition footStyle :: style where "footStyle = NewStyle\<lparr>st_Foreground := Some cFaint\<rparr>"

text \<open>
  What rendering needs of Lip Gloss and of the formatting of numbers; \<open>kib\<close> is the float 1024.0, \<open>f0\<close> and \<open>f1\<close>
  are \<open>%.0f\<close> and \<open>%.1f\<close>, \<open>duration\<close> prints a duration.
\<close>

record 'f rendering =
  Render :: "style \<Rightarrow> string \<Rightarrow> string"
  JoinHorizontal :: "string list \<Rightarrow> string"
  ToUpper :: "string \<Rightarrow> string"
  f0 :: "'f \<Rightarrow> string"
  f1 :: "'f \<Rightarrow> string"
  kib :: 'f
  duration :: "int \<Rightarrow> string"

definition stat_card :: "'f rendering \<Rightarrow> string \<Rightarrow> string \<Rightarrow> string" where
  "stat_card lg label value = Render lg (panelStyle\<lparr>st_Width := 20\<rparr>)
     (Render lg valueStyle value @ [CHR 0x0A] @ Render lg labelStyle label)"

definition kv :: "'f rendering \<Rightarrow> string \<Rightarrow> string \<Rightarrow> string" where
  "kv lg label value = Render lg labelStyle (label @ '' '') @ value"

definition badge :: "'f rendering \<Rightarrow> bool \<Rightarrow> string \<Rightarrow> string" where
  "badge lg ok txt = Render lg (NewStyle\<lparr>st_Bold := True, st_Foreground := Some (Color ''231''),
     st_Background := Some (if ok then cGreen else cRed), st_Padding := True\<rparr>) txt"

definition boolBadge :: "'f rendering \<Rightarrow> bool \<Rightarrow> bool \<Rightarrow> string" where
  "boolBadge lg danger state = Render lg (NewStyle\<lparr>st_Bold := True, st_Foreground := Some (Color ''16''),
     st_Background := Some (if danger then cAmber else cGreen), st_Padding := True\<rparr>) (if state then ''yes'' else ''no'')"

definition warnNum :: "('f::{zero,ord}) rendering \<Rightarrow> 'f \<Rightarrow> string" where
  "warnNum lg v = (if v > 0 then Render lg (NewStyle\<lparr>st_Foreground := Some cRed, st_Bold := True\<rparr>) (f0 lg v) else f0 lg v)"

definition nz :: "string \<Rightarrow> string \<Rightarrow> string" where
  "nz s dflt = (if TrimSpace s = [] then dflt else s)"

definition units :: "string list" where
  "units = [''KiB'', ''MiB'', ''GiB'', ''TiB'', ''PiB'']"

function human_loop :: "'f \<Rightarrow> ('f::{ord,inverse}) \<Rightarrow> nat \<Rightarrow> 'f \<times> nat" where
  "human_loop k v i = (if v \<ge> k \<and> i < length units - 1 then human_loop k (v / k) (i + 1) else (v, i))"
  by pat_completeness auto

termination
  by (relation "measure (\<lambda>(k, v, i). length units - i)") auto

declare human_loop.simps [simp del]

definition human :: "('f::{ord,inverse}) rendering \<Rightarrow> 'f \<Rightarrow> string" where
  "human lg bytes = (if bytes < kib lg then f0 lg bytes @ '' B''
     else case human_loop (kib lg) (bytes / kib lg) 0 of (v, i) \<Rightarrow> f1 lg v @ '' '' @ units ! i)"

text \<open>The loop over the objects, from index \<open>i\<close>.\<close>

fun object_lines :: "'f rendering \<Rightarrow> nat \<Rightarrow> nat \<Rightarrow> string list \<Rightarrow> string list" where
  "object_lines lg n i [] = []"
| "object_lines lg n i (x # xs) =
     (if i \<ge> 12 then [Render lg footStyle (''... and '' @ Itoa (int n - 12) @ '' more'')]
      else ([CHR 0xE2, CHR 0x80, CHR 0xA2, CHR 0x20] @ x) # object_lines lg n (i + 1) xs)"

function rows :: "nat \<Rightarrow> 'a list \<Rightarrow> 'a list list" where
  "rows n xs = (if xs = [] \<or> n = 0 then [] else take n xs # rows n (drop n xs))"
  by pat_completeness auto

termination
  by (relation "measure (\<lambda>(n, xs). length xs)") auto

declare rows.simps [simp del]

definition cards :: "('f::{zero,ord,inverse}) rendering \<Rightarrow> 'f Metrics \<Rightarrow> string list" where
  "cards lg mm =
    [stat_card lg ''objects'' (f0 lg (Metrics_Get mm ''dezhan_objects'')),
     stat_card lg ''stored'' (human lg (Metrics_Get mm ''dezhan_storage_bytes'')),
     stat_card lg ''audit entries'' (f0 lg (Metrics_Get mm ''dezhan_audit_entries'')),
     stat_card lg ''quarantined'' (warnNum lg (Metrics_Get mm ''dezhan_quarantined'')),
     stat_card lg ''retention denied'' (f0 lg (Metrics_Get mm ''dezhan_retention_denied_total'')),
     stat_card lg ''scrub runs'' (f0 lg (Metrics_Get mm ''dezhan_scrub_runs'')),
     stat_card lg ''shards repaired'' (f0 lg (Metrics_Get mm ''dezhan_scrub_shards_repaired'')),
     stat_card lg ''trusted time'' (f0 lg (Metrics_Get mm ''dezhan_trusted_time'') @ ''s'')]"

definition status_line :: "('f::zero) rendering \<Rightarrow> 'f snapshotMsg \<Rightarrow> string" where
  "status_line lg s = ''  '' @ badge lg (snap_health s = ''ok'') (ToUpper lg (nz (snap_health s) ''down'')) @
     (case snap_metrics s of None \<Rightarrow> [] | Some mm \<Rightarrow>
       (let sealed = (Metrics_Get mm ''dezhan_sealed'' \<noteq> 0) in
        ''   '' @ kv lg ''sealed'' (boolBadge lg sealed sealed) @
        (if Metrics_Get mm ''dezhan_ingest_only'' \<noteq> 0 then ''   '' @ badge lg False ''INGEST-ONLY'' else []) @
        (if Metrics_Get mm ''dezhan_sync_window_open'' \<noteq> 0 then ''   '' @ badge lg True ''SYNC-WINDOW OPEN'' else [])))"

definition objects_panel :: "'f rendering \<Rightarrow> string list \<Rightarrow> string" where
  "objects_panel lg objs =
    (let lines = object_lines lg (length objs) 0 objs;
         lines = (if lines = [] then [Render lg footStyle ''(none)''] else lines)
     in Render lg labelStyle (''objects ('' @ Itoa (int (length objs)) @ '')'') @ [CHR 0x0A] @
        Render lg panelStyle (Join lines [CHR 0x0A]))"

definition View :: "('f::{zero,ord,inverse}) rendering \<Rightarrow> 'f Model \<Rightarrow> string" where
  "View lg m =
    (if \<not> m_loaded m then [CHR 0x0A] @ ''  connecting to '' @ m_endpoint m @ '' ...'' @ [CHR 0x0A]
     else let s = m_snap m; nl = [CHR 0x0A] in
       Render lg titleStyle '' dezhan vault '' @ Render lg labelStyle (''  '' @ m_endpoint m) @
       (if snap_version s \<noteq> [] then Render lg labelStyle (''  '' @ snap_version s) else []) @ nl @ nl @
       status_line lg s @ nl @ nl @
       (case snap_metrics s of None \<Rightarrow> [] | Some mm \<Rightarrow>
          concat (map (\<lambda>row. JoinHorizontal lg row @ nl) (rows 4 (cards lg mm)))) @ nl @
       objects_panel lg (snap_objects s) @ nl @ nl @
       (case snap_err s of None \<Rightarrow> [] | Some e \<Rightarrow>
          Render lg (NewStyle\<lparr>st_Foreground := Some cRed\<rparr>) (''  '' @ e) @ nl) @
       Render lg footStyle (''  updated '' @ snap_at s @ [CHR 0x20, CHR 0xC2, CHR 0xB7] @ '' refresh '' @ duration lg (m_every m) @
         [CHR 0x20, CHR 0xC2, CHR 0xB7] @ '' [r] refresh  [q] quit''))"

section \<open>The runtime\<close>

record ('s, 'f) tui =
  t_model :: "'f Model"
  t_pending :: "cmd list"
  t_world :: 's

definition deliver :: "'f msg \<Rightarrow> cmd list \<Rightarrow> 's \<Rightarrow> 'f Model \<Rightarrow> ('s, 'f) tui" where
  "deliver msg rest w m = (case Update m msg of (m', cs) \<Rightarrow> \<lparr>t_model = m', t_pending = rest @ cs, t_world = w\<rparr>)"

definition tui_start :: "'f Model \<Rightarrow> 's \<Rightarrow> ('s, 'f) tui" where
  "tui_start m w = \<lparr>t_model = m, t_pending = Init_Model m, t_world = w\<rparr>"

inductive tui_step :: "('s, 'f) ctl_host \<Rightarrow> 's http_env \<Rightarrow> ('s, 'f) tui \<Rightarrow> ('s, 'f) tui \<Rightarrow> bool" for h he where
  timer: "t_pending s = xs @ TickAfter d # ys \<Longrightarrow> Quit \<notin> set (t_pending s) \<Longrightarrow>
     tui_step h he s (deliver TickMsg (xs @ ys) (t_world s) (t_model s))"
| fetched: "t_pending s = xs @ Fetch # ys \<Longrightarrow> Quit \<notin> set (t_pending s) \<Longrightarrow>
     fetch h he (m_cli (t_model s)) now (t_world s) = Some (Inr snap, w) \<Longrightarrow>
     tui_step h he s (deliver (SnapshotMsg snap) (xs @ ys) w (t_model s))"
| input: "Quit \<notin> set (t_pending s) \<Longrightarrow> msg \<in> range KeyMsg \<union> {WindowSizeMsg a b} \<Longrightarrow>
     tui_step h he s (deliver msg (t_pending s) (t_world s) (t_model s))"

text \<open>
  The command: a plain snapshot, one frame, or the live program, which runs the loop above on the
  terminal (\<open>run\<close>).
\<close>

definition dashboardCmd ::
  "('f Model \<Rightarrow> ('s, string, unit) io) \<Rightarrow> ('s, 'f::{zero,ord,inverse}) ctl_host \<Rightarrow> 's http_env \<Rightarrow> 'f rendering \<Rightarrow> flags \<Rightarrow>
     bool \<Rightarrow> bool \<Rightarrow> int \<Rightarrow> string \<Rightarrow> ('s, string, unit) io" where
  "dashboardCmd run h he lg fl dashOnce dashFrame dashEvery now =
    (if dashOnce then snapshot h he fl
     else if dashFrame then
       io_bind (FetchOnce h he now 0 (New_Model (newClient fl) (endpoint fl) dashEvery)) (\<lambda>m. Println h (View lg m))
     else run (New_Model (newClient fl) (endpoint fl) dashEvery))"

section \<open>The refresh timer\<close>

primrec is_tick :: "cmd \<Rightarrow> bool" where
  "is_tick Fetch = False"
| "is_tick (TickAfter d) = True"
| "is_tick Quit = False"

text \<open>One timer under way, at the interval chosen at the start; the client and the interval never change.\<close>

definition refresh_inv :: "ctl_Client \<Rightarrow> int \<Rightarrow> ('s, 'f) tui \<Rightarrow> bool" where
  "refresh_inv cli every s \<longleftrightarrow> filter is_tick (t_pending s) = [TickAfter every] \<and>
     m_every (t_model s) = every \<and> m_cli (t_model s) = cli"

lemmas deliver_defs = deliver_def Update_def

lemma refresh_inv_start: "refresh_inv (m_cli m) (m_every m) (tui_start m w)"
  by (simp add: refresh_inv_def tui_start_def Init_Model_def)

lemma filter_single_middle:
  assumes "filter P (xs @ x # ys) = [z]" and "P x"
  shows "filter P (xs @ ys) = []" and "x = z"
  using assms by (auto simp: append_eq_Cons_conv)

lemma refresh_inv_step:
  assumes "refresh_inv cli every s" and "tui_step h he s t"
  shows "refresh_inv cli every t"
  using assms(2)
proof (cases rule: tui_step.cases)
  case (timer xs d ys)
  with assms(1) filter_single_middle [of is_tick xs "TickAfter d" ys "TickAfter every"] show ?thesis
    by (simp add: refresh_inv_def deliver_defs)
next
  case (fetched xs ys now snap w)
  with assms(1) show ?thesis by (simp add: refresh_inv_def deliver_defs)
next
  case (input msg a b)
  with assms(1) show ?thesis by (auto simp: refresh_inv_def deliver_defs)
qed

lemma refresh_inv_steps:
  assumes "(tui_step h he)\<^sup>*\<^sup>* (tui_start m w) s"
  shows "refresh_inv (m_cli m) (m_every m) s"
  using assms by induction (auto intro: refresh_inv_start refresh_inv_step)

section \<open>Properties\<close>


text \<open>A world without a server, for evaluation.\<close>

definition offline :: "unit http_env" where
  "offline = \<lparr>NewRequest = (\<lambda>_ _. None), Do = (\<lambda>_ s. (Inl ''refused'', s))\<rparr>"


lemma human_loop_spec:
  fixes k v :: "'f::linordered_field"
  assumes "human_loop k v i = (u, j)" and "k > 1" and "i \<le> 4" and "1 \<le> v"
  shows "i \<le> j \<and> j \<le> 4 \<and> v = u * k ^ (j - i) \<and> 1 \<le> u \<and> (u < k \<or> j = 4)"
  using assms
proof (induction k v i arbitrary: u j rule: human_loop.induct)
  case (1 k v i)
  show ?case
  proof (cases "v \<ge> k \<and> i < length units - 1")
    case True
    then have "human_loop k (v / k) (i + 1) = (u, j)" using "1.prems"(1) by (simp add: human_loop.simps [of k v i])
    moreover have "i < 4" "1 \<le> v / k" using True "1.prems"(2) by (simp_all add: units_def)
    ultimately have ih: "i + 1 \<le> j \<and> j \<le> 4 \<and> v / k = u * k ^ (j - (i + 1)) \<and> 1 \<le> u \<and> (u < k \<or> j = 4)"
      using "1.IH" [OF True] "1.prems"(2) by simp
    then have "j - i = Suc (j - (i + 1))" by arith
    then have "k ^ (j - i) = k * k ^ (j - (i + 1))" by (simp only: power_Suc)
    with ih "1.prems"(2) show ?thesis by (simp add: field_simps)
  next
    case False
    then have "u = v" "j = i" using "1.prems"(1) by (auto simp: human_loop.simps [of k v i] split: if_splits)
    with False "1.prems"(3,4) show ?thesis by (auto simp: units_def)
  qed
qed

text \<open>
  Sizes are shown in the right unit.  For an exact arithmetic, a size of at least 1024 is printed as a
  number times a unit from KiB to PiB whose product is the size; the number is at least one
  and below 1024, or the unit is the largest; and the unit's index is in range.
\<close>

lemma human_units:
  fixes bytes :: "'f::linordered_field"
  assumes "kib lg = 1024" and "1024 \<le> bytes"
  shows "\<exists>v i. human lg bytes = f1 lg v @ '' '' @ units ! i \<and> i < length units \<and>
     bytes = v * 1024 ^ (i + 1) \<and> 1 \<le> v \<and> (v < 1024 \<or> units ! i = ''PiB'')"
proof -
  obtain v i where l: "human_loop (1024::'f) (bytes / 1024) 0 = (v, i)" by fastforce
  have "1 \<le> bytes / 1024" using assms(2) by simp
  with human_loop_spec [OF l] have "i \<le> 4" "bytes / 1024 = v * 1024 ^ i" "1 \<le> v" "v < 1024 \<or> i = 4" by auto
  then have "i < length units" "bytes = v * 1024 ^ (i + 1)" "1 \<le> v" "v < 1024 \<or> units ! i = ''PiB''"
    by (auto simp: units_def field_simps)
  moreover have "human lg bytes = f1 lg v @ '' '' @ units ! i"
    using assms l by (simp add: human_def)
  ultimately show ?thesis by blast
qed

definition plain_rendering :: "rat rendering" where
  "plain_rendering = \<lparr>Render = (\<lambda>_ t. t), JoinHorizontal = concat, ToUpper = (\<lambda>t. t), f0 = (\<lambda>x. Itoa \<lfloor>x\<rfloor>),
     f1 = (\<lambda>x. Itoa \<lfloor>x\<rfloor>), kib = 1024, duration = Itoa\<rparr>"

text \<open>
  The object panel shows the first twelve objects in order and, when there are more, one line with the
  number of those left out.
\<close>

lemma object_lines_shows:
  "object_lines lg (length objs) 0 objs =
     map (\<lambda>x. [CHR 0xE2, CHR 0x80, CHR 0xA2, CHR 0x20] @ x) (take 12 objs) @
     (if length objs > 12 then [Render lg footStyle (''... and '' @ Itoa (int (length (drop 12 objs))) @ '' more'')] else [])"
proof -
  have "object_lines lg n i xs =
      map (\<lambda>x. [CHR 0xE2, CHR 0x80, CHR 0xA2, CHR 0x20] @ x) (take (12 - i) xs) @
      (if length xs > 12 - i then [Render lg footStyle (''... and '' @ Itoa (int n - 12) @ '' more'')] else [])"
    if "i \<le> 12" for n i xs
    using that
  proof (induction lg n i xs rule: object_lines.induct)
    case (2 lg n i x xs)
    show ?case
    proof (cases "i = 12")
      case False
      then have "12 - i = Suc (12 - (i + 1))" using 2 by simp
      with 2 False show ?thesis by simp
    qed simp
  qed simp
  from this [of 0 "length objs" objs] show ?thesis by (cases "length objs > 12") (simp_all add: of_nat_diff)
qed

end
