(* ===== verification/Ctl_Tree.thy ===== *)
theory Ctl_Tree
  imports Ctl_Tui
begin

text \<open>
  The command tree of \<open>dezhanctl\<close>: what the \<open>cobra.Command\<close> values and the \<open>init\<close> functions of \<open>src/ctl/cmd\<close> declare, with
  the \<open>completion\<close> command.

  Cobra is a parameter: \<open>cobra_Find\<close> takes the tree and the words of the command line and returns the command to run, the flags and
  the positional arguments, or an error.  Its contract \<open>cobra\<close> is the documented one: it runs a command of the tree, with
  arguments that the command's \<open>Args\<close> accepts.
\<close>

section \<open>Commands and flags\<close>

text \<open>The values of \<open>Args\<close>; a command that sets none takes any arguments.\<close>

datatype PositionalArgs = ArbitraryArgs | ExactArgs nat | RangeArgs nat nat | OnlyValidArgs | MatchAll "PositionalArgs list"

fun args_ok :: "string list \<Rightarrow> PositionalArgs \<Rightarrow> string list \<Rightarrow> bool" where
  "args_ok valid ArbitraryArgs args = True"
| "args_ok valid (ExactArgs n) args = (length args = n)"
| "args_ok valid (RangeArgs m n) args = (m \<le> length args \<and> length args \<le> n)"
| "args_ok valid OnlyValidArgs args = list_all (\<lambda>a. a \<in> set valid) args"
| "args_ok valid (MatchAll rs) args = list_all (\<lambda>r. args_ok valid r args) rs"

record all_flags = flags +
  ctl_timeout :: int
  dashEvery :: int
  dashOnce :: bool
  dashFrame :: bool

datatype flag_value = FString string | FInt int | FBool bool | FDuration int

text \<open>A flag: its name, shorthand and default, and the variable it sets.\<close>

record flag_def =
  fl_Name :: string
  fl_Short :: string
  fl_Default :: flag_value
  fl_Set :: "flag_value \<Rightarrow> all_flags \<Rightarrow> all_flags"

fun set_string :: "(string \<Rightarrow> all_flags \<Rightarrow> all_flags) \<Rightarrow> flag_value \<Rightarrow> all_flags \<Rightarrow> all_flags" where
  "set_string f (FString x) fl = f x fl"
| "set_string f _ fl = fl"

fun set_int :: "(int \<Rightarrow> all_flags \<Rightarrow> all_flags) \<Rightarrow> flag_value \<Rightarrow> all_flags \<Rightarrow> all_flags" where
  "set_int f (FInt x) fl = f x fl"
| "set_int f _ fl = fl"

fun set_bool :: "(bool \<Rightarrow> all_flags \<Rightarrow> all_flags) \<Rightarrow> flag_value \<Rightarrow> all_flags \<Rightarrow> all_flags" where
  "set_bool f (FBool x) fl = f x fl"
| "set_bool f _ fl = fl"

fun set_duration :: "(int \<Rightarrow> all_flags \<Rightarrow> all_flags) \<Rightarrow> flag_value \<Rightarrow> all_flags \<Rightarrow> all_flags" where
  "set_duration f (FDuration x) fl = f x fl"
| "set_duration f _ fl = fl"

definition StringVarP :: "(string \<Rightarrow> all_flags \<Rightarrow> all_flags) \<Rightarrow> string \<Rightarrow> string \<Rightarrow> string \<Rightarrow> flag_def" where
  "StringVarP f name short dflt = \<lparr>fl_Name = name, fl_Short = short, fl_Default = FString dflt, fl_Set = set_string f\<rparr>"

definition IntVar :: "(int \<Rightarrow> all_flags \<Rightarrow> all_flags) \<Rightarrow> string \<Rightarrow> int \<Rightarrow> flag_def" where
  "IntVar f name dflt = \<lparr>fl_Name = name, fl_Short = [], fl_Default = FInt dflt, fl_Set = set_int f\<rparr>"

definition BoolVar :: "(bool \<Rightarrow> all_flags \<Rightarrow> all_flags) \<Rightarrow> string \<Rightarrow> bool \<Rightarrow> flag_def" where
  "BoolVar f name dflt = \<lparr>fl_Name = name, fl_Short = [], fl_Default = FBool dflt, fl_Set = set_bool f\<rparr>"

definition DurationVar :: "(int \<Rightarrow> all_flags \<Rightarrow> all_flags) \<Rightarrow> string \<Rightarrow> int \<Rightarrow> flag_def" where
  "DurationVar f name dflt = \<lparr>fl_Name = name, fl_Short = [], fl_Default = FDuration dflt, fl_Set = set_duration f\<rparr>"

text \<open>The flags of the root command hold for every command.\<close>

definition persistent_flags :: "(string \<Rightarrow> string) \<Rightarrow> flag_def list" where
  "persistent_flags getenv =
    [StringVarP (\<lambda>x. endpoint_update (\<lambda>_. x)) ''endpoint'' ''e'' (defaultEndpoint getenv),
     DurationVar (\<lambda>x. ctl_timeout_update (\<lambda>_. x)) ''timeout'' (10 * Second),
     StringVarP (\<lambda>x. adminToken_update (\<lambda>_. x)) ''admin-token'' [] (getenv ''DEZHAN_ADMIN_TOKEN''),
     BoolVar (\<lambda>x. jsonOut_update (\<lambda>_. x)) ''json'' False]"

definition get_flags :: "flag_def list" where
  "get_flags = [StringVarP (\<lambda>x. getOutput_update (\<lambda>_. x)) ''output'' ''o'' []]"

definition put_flags :: "flag_def list" where
  "put_flags = [StringVarP (\<lambda>x. putMode_update (\<lambda>_. x)) ''mode'' [] ''compliance'',
     IntVar (\<lambda>x. putRetain_update (\<lambda>_. x)) ''retain'' 3600,
     StringVarP (\<lambda>x. putFile_update (\<lambda>_. x)) ''file'' ''f'' []]"

definition del_flags :: "flag_def list" where
  "del_flags = [BoolVar (\<lambda>x. delBypass_update (\<lambda>_. x)) ''bypass'' False]"

definition dash_flags :: "flag_def list" where
  "dash_flags = [DurationVar (\<lambda>x. dashEvery_update (\<lambda>_. x)) ''refresh'' (2 * Second),
     BoolVar (\<lambda>x. dashOnce_update (\<lambda>_. x)) ''once'' False, BoolVar (\<lambda>x. dashFrame_update (\<lambda>_. x)) ''frame'' False]"

text \<open>A command; its name is the first word of \<open>Use\<close>.\<close>

record 's command =
  cmd_Use :: string
  cmd_Aliases :: "string list"
  cmd_ValidArgs :: "string list"
  cmd_Args :: PositionalArgs
  cmd_Flags :: "flag_def list"
  cmd_RunE :: "all_flags \<Rightarrow> string list \<Rightarrow> ('s, string, unit) io"

definition Command :: "string \<Rightarrow> PositionalArgs \<Rightarrow> flag_def list \<Rightarrow> (all_flags \<Rightarrow> string list \<Rightarrow> ('s, string, unit) io) \<Rightarrow> 's command" where
  "Command use rule fls run = \<lparr>cmd_Use = use, cmd_Aliases = [], cmd_ValidArgs = [], cmd_Args = rule, cmd_Flags = fls, cmd_RunE = run\<rparr>"

section \<open>The completion command\<close>

text \<open>The generators of Cobra, which write a script to the standard output.\<close>

record 's completions =
  GenBashCompletionV2 :: "bool \<Rightarrow> 's \<Rightarrow> (string + unit) \<times> 's"
  GenZshCompletion :: "'s \<Rightarrow> (string + unit) \<times> 's"
  GenFishCompletion :: "bool \<Rightarrow> 's \<Rightarrow> (string + unit) \<times> 's"
  GenPowerShellCompletionWithDesc :: "'s \<Rightarrow> (string + unit) \<times> 's"

definition completionCmd :: "'s completions \<Rightarrow> string list \<Rightarrow> ('s, string, unit) io" where
  "completionCmd gen args = (case args of [] \<Rightarrow> panic | shell # _ \<Rightarrow>
     if shell = ''bash'' then os_call (GenBashCompletionV2 gen True)
     else if shell = ''zsh'' then os_call (GenZshCompletion gen)
     else if shell = ''fish'' then os_call (GenFishCompletion gen True)
     else if shell = ''powershell'' then os_call (GenPowerShellCompletionWithDesc gen)
     else io_return ())"

section \<open>The tree\<close>

text \<open>
  What the commands of one process share: the host, the transport, the renderer, the Bubble Tea runtime \<open>run\<close>, the generators
  and \<open>strings.ToLower\<close> outside ASCII.
\<close>

record ('s, 'f) runtime =
  rt_host :: "('s, 'f) ctl_host"
  rt_http :: "'s http_env"
  rt_render :: "'f rendering"
  rt_tea :: "'f Model \<Rightarrow> ('s, string, unit) io"
  rt_gen :: "'s completions"
  rt_lower :: "string \<Rightarrow> string"
  rt_now :: string

definition with_flags ::
  "('s, 'f) runtime \<Rightarrow> (('s, 'f) ctl_host \<Rightarrow> 's http_env \<Rightarrow> flags \<Rightarrow> string list \<Rightarrow> ('s, string, unit) io) \<Rightarrow>
     all_flags \<Rightarrow> string list \<Rightarrow> ('s, string, unit) io" where
  "with_flags rt c fl args = c (rt_host rt) (rt_http rt) (flags.truncate fl) args"

text \<open>The values \<open>healthCmd\<close>, \<open>versionCmd\<close> and so on: what each \<open>cobra.Command\<close> declares, with its \<open>RunE\<close>.\<close>

definition health_command :: "('s, 'f) runtime \<Rightarrow> 's command" where
  "health_command rt = Command ''health'' ArbitraryArgs [] (with_flags rt healthCmd)"

definition version_command :: "('s, 'f) runtime \<Rightarrow> 's command" where
  "version_command rt = Command ''version'' ArbitraryArgs [] (with_flags rt versionCmd)"

definition ls_command :: "('s, 'f) runtime \<Rightarrow> 's command" where
  "ls_command rt = Command ''ls'' ArbitraryArgs [] (with_flags rt lsCmd)"

definition metrics_command :: "('s, 'f) runtime \<Rightarrow> 's command" where
  "metrics_command rt = Command ''metrics'' ArbitraryArgs [] (with_flags rt metricsCmd)"

definition get_command :: "('s, 'f) runtime \<Rightarrow> 's command" where
  "get_command rt = Command ''get <name>'' (ExactArgs 1) get_flags (with_flags rt getCmd)"

definition put_command :: "('s, 'f) runtime \<Rightarrow> 's command" where
  "put_command rt = Command ''put <name> [data]'' (RangeArgs 1 2) put_flags (with_flags rt putCmd)"

definition del_command :: "('s, 'f) runtime \<Rightarrow> 's command" where
  "del_command rt = Command ''del <name>'' (ExactArgs 1) del_flags (with_flags rt delCmd)"

definition stat_command :: "('s, 'f) runtime \<Rightarrow> 's command" where
  "stat_command rt = Command ''stat <name>'' (ExactArgs 1) [] (with_flags rt (statCmd (rt_lower rt)))"

definition dashboard_command :: "('s, 'f::{zero,ord,inverse}) runtime \<Rightarrow> 's command" where
  "dashboard_command rt = (Command ''dashboard'' ArbitraryArgs dash_flags
     (\<lambda>fl args. dashboardCmd (rt_tea rt) (rt_host rt) (rt_http rt) (rt_render rt)
        (flags.truncate fl) (dashOnce fl) (dashFrame fl) (dashEvery fl) (rt_now rt)))\<lparr>cmd_Aliases := [''dash'', ''tui'']\<rparr>"

definition completion_command :: "('s, 'f) runtime \<Rightarrow> 's command" where
  "completion_command rt = (Command ''completion [bash|zsh|fish|powershell]'' (MatchAll [ExactArgs 1, OnlyValidArgs]) []
     (\<lambda>fl args. completionCmd (rt_gen rt) args))\<lparr>cmd_ValidArgs := [''bash'', ''zsh'', ''fish'', ''powershell'']\<rparr>"

definition adminCmd :: string where
  "adminCmd = ''admin''"

text \<open>The commands below \<open>admin\<close> and below the root, as the \<open>init\<close> functions add them.\<close>

definition admin_commands :: "('s, 'f) runtime \<Rightarrow> 's command list" where
  "admin_commands rt = map (\<lambda>a. Command a ArbitraryArgs [] (with_flags rt (adminAction a)))
     [''scrub'', ''gc'', ''seal'', ''checkpoint'', ''tick'']"

definition root_commands :: "('s, 'f::{zero,ord,inverse}) runtime \<Rightarrow> 's command list" where
  "root_commands rt = [health_command rt, version_command rt, ls_command rt, metrics_command rt, get_command rt, put_command rt,
     del_command rt, dashboard_command rt, completion_command rt, stat_command rt]"

lemmas command_defs = health_command_def version_command_def ls_command_def metrics_command_def get_command_def put_command_def
  del_command_def dashboard_command_def completion_command_def stat_command_def Command_def

text \<open>The tree: each runnable command with the path of words that leads to it.\<close>

definition cmd_name :: "'s command \<Rightarrow> string" where
  "cmd_name c = takeWhile (\<lambda>x. x \<noteq> CHR '' '') (cmd_Use c)"

definition rootCmd :: "('s, 'f::{zero,ord,inverse}) runtime \<Rightarrow> (string list \<times> 's command) list" where
  "rootCmd rt = map (\<lambda>c. ([adminCmd, cmd_name c], c)) (admin_commands rt) @ map (\<lambda>c. ([cmd_name c], c)) (root_commands rt)"

text \<open>\<open>Execute\<close>: Cobra finds the command and its arguments, then \<open>RunE\<close> runs; a usage error is returned.\<close>

definition Execute ::
  "((string list \<times> 's command) list \<Rightarrow> string list \<Rightarrow> string + 's command \<times> all_flags \<times> string list) \<Rightarrow>
     ('s, 'f::{zero,ord,inverse}) runtime \<Rightarrow> string list \<Rightarrow> ('s, string, unit) io" where
  "Execute cobra_Find rt argv = (case cobra_Find (rootCmd rt) argv of
       Inl err \<Rightarrow> io_throw err
     | Inr (c, fl, args) \<Rightarrow> cmd_RunE c fl args)"

section \<open>The tables\<close>

text \<open>No two commands of a level share a name or an alias, and no command has two flags with one name or shorthand.\<close>

lemma command_names:
  "distinct (concat (map (\<lambda>c. cmd_name c # cmd_Aliases c) (root_commands rt)) @ [adminCmd])"
  "distinct (map cmd_name (admin_commands rt))" "distinct (map fst (rootCmd rt))"
  by (simp_all add: rootCmd_def adminCmd_def root_commands_def admin_commands_def cmd_name_def command_defs)

lemmas flag_tables = persistent_flags_def get_flags_def put_flags_def del_flags_def dash_flags_def StringVarP_def IntVar_def
  BoolVar_def DurationVar_def

lemma flag_names:
  assumes "c \<in> snd ` set (rootCmd rt)"
  shows "distinct (map fl_Name (persistent_flags getenv @ cmd_Flags c))"
    and "distinct (filter (\<lambda>x. x \<noteq> []) (map fl_Short (persistent_flags getenv @ cmd_Flags c)))"
proof -
  have "cmd_Flags c \<in> {[], get_flags, put_flags, del_flags, dash_flags}"
    using assms by (auto simp: rootCmd_def root_commands_def admin_commands_def command_defs)
  then show "distinct (map fl_Name (persistent_flags getenv @ cmd_Flags c))"
    "distinct (filter (\<lambda>x. x \<noteq> []) (map fl_Short (persistent_flags getenv @ cmd_Flags c)))"
    by (elim insertE emptyE; simp add: flag_tables)+
qed

text \<open>Setting every flag to its default gives the flags of an invocation that sets none.\<close>

definition set_defaults :: "flag_def list \<Rightarrow> all_flags \<Rightarrow> all_flags" where
  "set_defaults fls fl = fold (\<lambda>f. fl_Set f (fl_Default f)) fls fl"

lemma defaults_set:
  "flags.truncate (set_defaults (persistent_flags getenv @ get_flags @ put_flags @ del_flags @ dash_flags) fl) = default_flags getenv"
  by (simp add: set_defaults_def flag_tables default_flags_def flags.truncate_def)

section \<open>No panic\<close>

definition returns :: "('s, 'e, 'a) io \<Rightarrow> bool" where
  "returns m \<longleftrightarrow> (\<forall>s. m s \<noteq> None)"

named_theorems returns_intros "actions that return from every state"

lemma returns_basic [returns_intros]:
  "returns (io_return x)" "returns (io_throw e)" "returns (io_modify f)" "returns (os_call g)"
  by (simp_all add: returns_def io_return_def io_throw_def io_modify_def os_call_def)

lemma returns_try [returns_intros]:
  "returns m \<Longrightarrow> (\<And>e. returns (h e)) \<Longrightarrow> (\<And>x. returns (k x)) \<Longrightarrow> returns (io_try m h k)"
  by (auto simp: returns_def io_try_def split: option.split sum.split)

lemma returns_bind [returns_intros]: "returns m \<Longrightarrow> (\<And>x. returns (k x)) \<Longrightarrow> returns (io_bind m k)"
  by (simp add: io_bind_def returns_intros)

lemma returns_if [returns_intros]: "(b \<Longrightarrow> returns m) \<Longrightarrow> (\<not> b \<Longrightarrow> returns n) \<Longrightarrow> returns (if b then m else n)"
  by simp

lemma returns_case [returns_intros]:
  "(\<And>e. returns (f e)) \<Longrightarrow> (\<And>x. returns (g x)) \<Longrightarrow> returns (case r of Inl e \<Rightarrow> f e | Inr x \<Rightarrow> g x)"
  "returns n \<Longrightarrow> (\<And>x. returns (k x)) \<Longrightarrow> returns (case q of None \<Rightarrow> n | Some x \<Rightarrow> k x)"
  "(\<And>a b. returns (c a b)) \<Longrightarrow> returns (case p of (a, b) \<Rightarrow> c a b)"
  by (simp_all split: sum.split option.split prod.split)

lemma returns_for_each [returns_intros]: "(\<And>x. returns (f x)) \<Longrightarrow> returns (for_each f xs)"
  by (induction xs) (auto intro!: returns_intros)

lemma returns_print [returns_intros]: "returns (Println h t)" "returns (printJSON h v)"
  by (auto simp: Println_def printJSON_def intro!: returns_intros split: sum.split)

lemma returns_request [returns_intros]:
  "returns (do_request he c method path hdr body)" "returns (text_request he c method path hdr body)"
proof -
  show r: "returns (do_request he c method path hdr body)" for body
    by (auto simp: do_request_def returns_def io_throw_def split: option.split)
  show "returns (text_request he c method path hdr body)"
    unfolding text_request_def by (auto intro!: returns_intros r)
qed

lemmas client_defs = Health_def Server_Version_def List_Names_def Client_Get_def Client_Put_def Client_Delete_def Client_Admin_def
  Client_Stat_def

lemma returns_client [returns_intros]:
  "returns (Health he c)" "returns (Server_Version he c)" "returns (List_Names he c)" "returns (Client_Get he c name)"
  "returns (Client_Put he c name data mode secs)" "returns (Client_Delete he c name bypass)"
  "returns (Client_Admin he c action token)" "returns (Client_Stat he c name)"
  unfolding client_defs by (intro returns_intros)+

lemma returns_parse: "returns (\<lambda>s. map_option (\<lambda>r. (Inr r, s)) (parse_metrics pf body))"
  using metrics_lines_returns [of pf] by (auto simp: returns_def parse_metrics_def split: prod.split)

lemma returns_metrics [returns_intros]: "returns (Client_Metrics pf he c)"
  unfolding Client_Metrics_def by (intro returns_intros returns_parse)

lemma returns_metrics_or_error [returns_intros]: "returns (metrics_or_error h he c)"
  unfolding metrics_or_error_def by (intro returns_intros)

lemma returns_or_empty [returns_intros]: "returns m \<Longrightarrow> returns (or_empty m)"
  unfolding or_empty_def by (intro returns_intros)

lemma returns_snapshot [returns_intros]: "returns (snapshot h he fl)"
  unfolding snapshot_def Let_def by (intro returns_intros)

lemma returns_FetchOnce [returns_intros]: "returns (FetchOnce h he now n m)"
  unfolding FetchOnce_def fetch_def Let_def by (intro returns_intros)

text \<open>The commands without arguments return, and those with arguments when they get as many as their \<open>Args\<close> asks for.\<close>

lemma returns_commands [returns_intros]:
  "returns (healthCmd h he fl args)" "returns (versionCmd h he fl args)" "returns (lsCmd h he fl args)"
  "returns (metricsCmd h he fl args)" "returns (adminAction a h he fl args)"
  unfolding healthCmd_def versionCmd_def lsCmd_def metricsCmd_def adminAction_def by (intro returns_intros)+

lemma returns_arg_commands:
  assumes "args \<noteq> []"
  shows "returns (getCmd h he fl args)" "returns (putCmd h he fl args)" "returns (delCmd h he fl args)"
    "returns (statCmd ul h he fl args)" "returns (completionCmd gen args)"
proof -
  obtain a as where args: "args = a # as" using assms by (cases args) auto
  show "returns (getCmd h he fl args)" "returns (putCmd h he fl args)" "returns (delCmd h he fl args)" "returns (completionCmd gen args)"
    unfolding args getCmd_def putCmd_def put_data_def delCmd_def completionCmd_def list.case by (intro returns_intros)+
  show "returns (statCmd ul h he fl args)"
    unfolding args statCmd_def Let_def list.case by (auto intro!: returns_intros split: prod.split option.split)
qed

text \<open>What the tree relies on: the command found is one of the tree, with arguments its \<open>Args\<close> accepts.\<close>

locale cobra =
  fixes cobra_Find :: "(string list \<times> 's command) list \<Rightarrow> string list \<Rightarrow> string + 's command \<times> all_flags \<times> string list"
  assumes finds: "cobra_Find tree argv = Inr (c, fl, args) \<Longrightarrow>
    c \<in> snd ` set tree \<and> args_ok (cmd_ValidArgs c) (cmd_Args c) args"
begin

lemma Execute_returns:
  fixes rt :: "('s, 'f::{zero,ord,inverse}) runtime"
  assumes tea: "\<And>m. returns (rt_tea rt m)"
  shows "returns (Execute cobra_Find rt argv)"
proof (cases "cobra_Find (rootCmd rt) argv")
  case (Inr r)
  obtain c fl args where r: "r = (c, fl, args)" by (cases r)
  have c: "c \<in> set (admin_commands rt) \<union> set (root_commands rt)" and ok: "args_ok (cmd_ValidArgs c) (cmd_Args c) args"
    using finds [OF Inr [unfolded r]] by (auto simp: rootCmd_def)
  have dash: "returns (dashboardCmd (rt_tea rt) h he lg fl' once frame every now)" for h he lg fl' once frame every now
    unfolding dashboardCmd_def by (intro returns_intros tea)
  have "returns (cmd_RunE c fl args)"
    using c ok dash
    by (auto simp: admin_commands_def root_commands_def command_defs with_flags_def intro!: returns_commands returns_arg_commands)
  then show ?thesis by (simp add: Execute_def Inr r)
qed (simp add: Execute_def returns_intros)

end

text \<open>
  A finder for evaluation: the words of a path lead to its command, the rest are its arguments, and no flags are given.
\<close>

definition plain_Find ::
  "all_flags \<Rightarrow> (string list \<times> 's command) list \<Rightarrow> string list \<Rightarrow> string + 's command \<times> all_flags \<times> string list" where
  "plain_Find fl tree argv = (case find (\<lambda>(path, c). take (length path) argv = path) tree of
       None \<Rightarrow> Inl (''unknown command'')
     | Some (path, c) \<Rightarrow> if args_ok (cmd_ValidArgs c) (cmd_Args c) (drop (length path) argv)
         then Inr (c, fl, drop (length path) argv) else Inl (''invalid arguments''))"

interpretation plain: cobra "plain_Find fl"
  by standard (force simp: plain_Find_def find_Some_iff split: option.splits if_splits dest: nth_mem)


text \<open>A process without a network, whose world is the text it has printed.\<close>

definition offline_runtime :: "(string, rat) runtime" where
  "offline_runtime =
    \<lparr>rt_host = \<lparr>Getenv = (\<lambda>_. []), ReadFile = (\<lambda>_ s. (Inl ''no file'', s)), WriteFile = (\<lambda>_ _ s. (Inl ''no file'', s)),
        Stdout_Write = (\<lambda>b s. (Inr (), s @ b)), Print = (\<lambda>t s. s @ t), Eprint = (\<lambda>t s. s @ t),
        MarshalIndent = (\<lambda>_. Inl ''unsupported''), metric_json = (\<lambda>_. JMap Map.empty), ParseFloat = (\<lambda>_. None), fmt0 = (\<lambda>_. [])\<rparr>,
     rt_http = \<lparr>NewRequest = (\<lambda>_ _. None), Do = (\<lambda>_ s. (Inl ''connection refused'', s))\<rparr>, rt_render = plain_rendering,
     rt_tea = (\<lambda>_. io_return ()),
     rt_gen = \<lparr>GenBashCompletionV2 = (\<lambda>_ s. (Inr (), s @ ''bash'')), GenZshCompletion = (\<lambda>s. (Inr (), s @ ''zsh'')),
       GenFishCompletion = (\<lambda>_ s. (Inr (), s @ ''fish'')), GenPowerShellCompletionWithDesc = (\<lambda>s. (Inr (), s))\<rparr>,
     rt_lower = (\<lambda>s. s), rt_now = []\<rparr>"

definition offline_flags :: all_flags where
  "offline_flags = flags.extend (default_flags (\<lambda>_. [])) (all_flags.fields 0 0 False False)"


end
