(* ===== verification/Operator.thy ===== *)
theory Operator
  imports Go_Strings
begin

text \<open>
  The Kubernetes operator: the types of \<open>src/operator/api/v1alpha1/dezhanvault_types.go\<close> and the
  reconciler of \<open>src/operator/internal/controller/dezhanvault_controller.go\<close>.

  Of the Kubernetes objects the records have the fields the reconciler reads or writes; every
  other field of an object is in its \<open>other\<close> component, by path, so that a Go struct literal, which
  leaves those fields at their zero values, has \<open>[]\<close> there.  A nil pointer, map or slice pointer is
  \<^term>\<open>None\<close>.  The API server, \<open>controllerutil\<close>, the event recorder and \<open>resource.Quantity\<close> are not code of
  the repository: they are the fields of \<open>DezhanVaultReconciler\<close>, a parameter of every
  operation.
\<close>

section \<open>Kubernetes objects\<close>

type_synonym fields = "(string \<times> string) list"
type_synonym labels = "string \<rightharpoonup> string"
type_synonym NamespacedName = "string \<times> string"

datatype api_err = NotFound string | ApiError string

primrec api_message :: "api_err \<Rightarrow> string" where
  "api_message (NotFound t) = t"
| "api_message (ApiError t) = t"

record ObjectMeta =
  om_Name :: string
  om_Namespace :: string
  om_UID :: string
  om_Labels :: "labels option"
  om_Annotations :: "labels option"
  om_CreationTimestamp :: nat
  om_DeletionTimestamp :: "nat option"
  om_Generation :: int64
  om_OwnerReferences :: "(string \<times> bool) list"
  om_other :: fields

definition new_meta :: "NamespacedName \<Rightarrow> ObjectMeta" where
  "new_meta key = \<lparr>om_Name = snd key, om_Namespace = fst key, om_UID = [], om_Labels = None,
     om_Annotations = None, om_CreationTimestamp = 0, om_DeletionTimestamp = None, om_Generation = 0,
     om_OwnerReferences = [], om_other = []\<rparr>"

datatype IntOrString = FromInt32 int32 | FromString string

record ServicePort =
  sp_Name :: string
  sp_Protocol :: string
  sp_AppProtocol :: "string option"
  sp_Port :: int32
  sp_TargetPort :: IntOrString
  sp_NodePort :: int32

record Service =
  svc_Meta :: ObjectMeta
  svc_Type :: string
  svc_Selector :: "labels option"
  svc_ClusterIP :: string
  svc_Ports :: "ServicePort list"
  svc_other :: fields

record 'q PersistentVolumeClaim =
  pvc_Meta :: ObjectMeta
  pvc_AccessModes :: "string list"
  pvc_StorageClassName :: "string option"
  pvc_Requests :: "(string \<rightharpoonup> 'q) option"
  pvc_other :: fields

record PodDisruptionBudget =
  pdb_Meta :: ObjectMeta
  pdb_MinAvailable :: "IntOrString option"
  pdb_Selector :: "labels option"
  pdb_other :: fields

record HTTPGetAction =
  hg_Path :: string
  hg_Port :: IntOrString
  hg_Scheme :: string
  hg_other :: fields

record corev1_Probe =
  pr_HTTPGet :: "HTTPGetAction option"
  pr_InitialDelaySeconds :: int32
  pr_TimeoutSeconds :: int32
  pr_PeriodSeconds :: int32
  pr_SuccessThreshold :: int32
  pr_FailureThreshold :: int32
  pr_other :: fields

record SecurityContext =
  sc_AllowPrivilegeEscalation :: "bool option"
  sc_ReadOnlyRootFilesystem :: "bool option"
  sc_RunAsNonRoot :: "bool option"
  sc_CapabilitiesDrop :: "string list option"
  sc_SeccompProfile :: "string option"
  sc_other :: fields

record EnvVar =
  ev_Name :: string
  ev_Value :: string
  ev_other :: fields

record EnvFromSource =
  ef_SecretRef :: "string option"
  ef_other :: fields

record ContainerPort =
  cp_Name :: string
  cp_ContainerPort :: int32
  cp_Protocol :: string
  cp_other :: fields

record VolumeMount =
  vm_Name :: string
  vm_MountPath :: string
  vm_other :: fields

record Container =
  c_Name :: string
  c_Image :: string
  c_Args :: "string list"
  c_Env :: "EnvVar list"
  c_EnvFrom :: "EnvFromSource list"
  c_Ports :: "ContainerPort list"
  c_VolumeMounts :: "VolumeMount list"
  c_Resources :: fields
  c_ReadinessProbe :: "corev1_Probe option"
  c_LivenessProbe :: "corev1_Probe option"
  c_StartupProbe :: "corev1_Probe option"
  c_SecurityContext :: "SecurityContext option"
  c_other :: fields

record PodSecurityContext =
  psc_RunAsNonRoot :: "bool option"
  psc_RunAsUser :: "int64 option"
  psc_FSGroup :: "int64 option"
  psc_other :: fields

record PodSpec =
  ps_SecurityContext :: "PodSecurityContext option"
  ps_PriorityClassName :: string
  ps_TerminationGracePeriodSeconds :: "int64 option"
  ps_Containers :: "Container list"
  ps_other :: fields

record 'q StatefulSet =
  sts_Meta :: ObjectMeta
  sts_Replicas :: "int32 option"
  sts_MinReadySeconds :: int32
  sts_RetentionPolicy :: "(string \<times> string) option"
  sts_Selector :: "labels option"
  sts_ServiceName :: string
  sts_VolumeClaimTemplates :: "'q PersistentVolumeClaim list"
  sts_TemplateLabels :: "labels option"
  sts_PodSpec :: PodSpec
  sts_ReadyReplicas :: int32
  sts_other :: fields

record Condition =
  cond_Type :: string
  cond_Status :: string
  cond_ObservedGeneration :: int64
  cond_LastTransitionTime :: nat
  cond_Reason :: string
  cond_Message :: string

section \<open>The custom resource\<close>

record 'q DezhanVaultSpec =
  Image :: string
  Port :: int32
  Storage :: 'q
  StorageClassName :: "string option"
  RequireAuth :: bool
  DeleteQuorum :: int32
  ScrubIntervalSeconds :: int32
  SecretName :: string
  Resources :: fields
  ServiceType :: string
  PriorityClassName :: string
  DisablePodDisruptionBudget :: bool

record DezhanVaultStatus =
  ObservedGeneration :: int64
  Ready :: bool
  Endpoint :: string
  Conditions :: "Condition list"

record 'q DezhanVault =
  dv_Meta :: ObjectMeta
  Spec :: "'q DezhanVaultSpec"
  Status :: DezhanVaultStatus

abbreviation dv_Name :: "'q DezhanVault \<Rightarrow> string" where
  "dv_Name v \<equiv> om_Name (dv_Meta v)"

abbreviation dv_Namespace :: "'q DezhanVault \<Rightarrow> string" where
  "dv_Namespace v \<equiv> om_Namespace (dv_Meta v)"

abbreviation dv_key :: "'q DezhanVault \<Rightarrow> NamespacedName" where
  "dv_key v \<equiv> (dv_Namespace v, dv_Name v)"

section \<open>The foreign calls\<close>

text \<open>
  \<open>CreateOrUpdate\<close> takes the key of the object and the function that sets the desired state; its result is
  \<open>controllerutil.OperationResult\<close>.  The two patches take the object as read and as changed.
\<close>

record 'q quantity =
  q_zero :: 'q
  q_IsZero :: "'q \<Rightarrow> bool"
  q_MustParse :: "string \<Rightarrow> 'q"
  q_Cmp :: "'q \<Rightarrow> 'q \<Rightarrow> int"
  q_String :: "'q \<Rightarrow> string"

record ('s, 'q) DezhanVaultReconciler =
  Get_DezhanVault :: "NamespacedName \<Rightarrow> 's \<Rightarrow> (api_err + 'q DezhanVault) \<times> 's"
  Get_StatefulSet :: "NamespacedName \<Rightarrow> 's \<Rightarrow> (api_err + 'q StatefulSet) \<times> 's"
  Get_PVC :: "NamespacedName \<Rightarrow> 's \<Rightarrow> (api_err + 'q PersistentVolumeClaim) \<times> 's"
  CreateOrUpdate_Service ::
    "NamespacedName \<Rightarrow> (Service \<Rightarrow> api_err + Service) \<Rightarrow> 's \<Rightarrow> (api_err + string) \<times> 's"
  CreateOrUpdate_StatefulSet ::
    "NamespacedName \<Rightarrow> ('q StatefulSet \<Rightarrow> api_err + 'q StatefulSet) \<Rightarrow> 's \<Rightarrow> (api_err + string) \<times> 's"
  CreateOrUpdate_PDB ::
    "NamespacedName \<Rightarrow> (PodDisruptionBudget \<Rightarrow> api_err + PodDisruptionBudget) \<Rightarrow> 's \<Rightarrow> (api_err + string) \<times> 's"
  Delete_PDB :: "NamespacedName \<Rightarrow> 's \<Rightarrow> (api_err + unit) \<times> 's"
  Patch_PVC :: "'q PersistentVolumeClaim \<Rightarrow> 'q PersistentVolumeClaim \<Rightarrow> 's \<Rightarrow> (api_err + unit) \<times> 's"
  Patch_Status :: "'q DezhanVault \<Rightarrow> 'q DezhanVault \<Rightarrow> 's \<Rightarrow> (api_err + unit) \<times> 's"
  SetControllerReference :: "'q DezhanVault \<Rightarrow> ObjectMeta \<Rightarrow> api_err + ObjectMeta"
  SetStatusCondition :: "Condition list \<Rightarrow> Condition \<Rightarrow> Condition list"
  Recorder :: "('q DezhanVault \<Rightarrow> string \<Rightarrow> string \<Rightarrow> string \<Rightarrow> 's \<Rightarrow> 's) option"
  Quantity :: "'q quantity"

definition api :: "('s \<Rightarrow> (api_err + 'a) \<times> 's) \<Rightarrow> ('s, api_err, 'a) io" where
  [io_defs]: "api f = (\<lambda>s. Some (f s))"

lemma io_wp_api [io_rules]:
  "io_wp (api f) Q E s = (case f s of (Inl e, t) \<Rightarrow> E e t | (Inr x, t) \<Rightarrow> Q x t)"
  by (simp add: io_wp_def api_def split: prod.split)

definition IgnoreNotFound :: "api_err \<Rightarrow> 'a \<Rightarrow> ('s, api_err, 'a) io" where
  "IgnoreNotFound err x = (case err of NotFound _ \<Rightarrow> io_return x | ApiError _ \<Rightarrow> io_throw err)"

definition Eventf ::
  "('s, 'q) DezhanVaultReconciler \<Rightarrow> 'q DezhanVault \<Rightarrow> string \<Rightarrow> string \<Rightarrow> string \<Rightarrow> ('s, api_err, unit) io" where
  "Eventf r v kind reason msg = (case Recorder r of
     None \<Rightarrow> io_return () | Some f \<Rightarrow> io_modify (f v kind reason msg))"

definition OperationResultNone :: string where
  "OperationResultNone = ''unchanged''"

section \<open>Desired state\<close>

definition containerName :: string where "containerName = ''dezhan''"
definition dataVolume :: string where "dataVolume = ''data''"
definition fieldOwnerUID :: int64 where "fieldOwnerUID = 65532"
definition requeueWait :: nat where "requeueWait = 20"

definition applyDefaults :: "'q quantity \<Rightarrow> 'q DezhanVault \<Rightarrow> 'q DezhanVault" where
  "applyDefaults q v =
    (let s = Spec v;
         s = (if Image s = [] then s\<lparr>Image := ''ghcr.io/obsernetics/dezhan:latest''\<rparr> else s);
         s = (if Port s = 0 then s\<lparr>Port := 8080\<rparr> else s);
         s = (if q_IsZero q (Storage s) then s\<lparr>Storage := q_MustParse q ''50Gi''\<rparr> else s);
         s = (if ServiceType s = [] then s\<lparr>ServiceType := ''ClusterIP''\<rparr> else s)
     in v\<lparr>Spec := s\<rparr>)"

definition labelsFor :: "string \<Rightarrow> labels" where
  "labelsFor name = [''app.kubernetes.io/name'' \<mapsto> ''dezhan'', ''app.kubernetes.io/instance'' \<mapsto> name,
     ''app.kubernetes.io/managed-by'' \<mapsto> ''dezhan-operator'']"

definition mergeLabels :: "labels option \<Rightarrow> labels \<Rightarrow> labels option" where
  "mergeLabels dst src = Some ((case dst of None \<Rightarrow> Map.empty | Some m \<Rightarrow> m) ++ src)"

text \<open>The port as \<open>strconv.Itoa(int(port))\<close> prints it.\<close>

definition port_text :: "int32 \<Rightarrow> string" where
  "port_text p = Itoa (sint p)"

definition healthProbe :: "int32 \<Rightarrow> int32 \<Rightarrow> corev1_Probe" where
  "healthProbe port initialDelay =
     \<lparr>pr_HTTPGet = Some \<lparr>hg_Path = ''/healthz'', hg_Port = FromInt32 port, hg_Scheme = [], hg_other = []\<rparr>,
      pr_InitialDelaySeconds = initialDelay, pr_TimeoutSeconds = 3, pr_PeriodSeconds = 10,
      pr_SuccessThreshold = 0, pr_FailureThreshold = 3, pr_other = []\<rparr>"

definition startupProbe :: "int32 \<Rightarrow> corev1_Probe" where
  "startupProbe port =
     \<lparr>pr_HTTPGet = Some \<lparr>hg_Path = ''/healthz'', hg_Port = FromInt32 port, hg_Scheme = [], hg_other = []\<rparr>,
      pr_InitialDelaySeconds = 0, pr_TimeoutSeconds = 0, pr_PeriodSeconds = 5,
      pr_SuccessThreshold = 0, pr_FailureThreshold = 60, pr_other = []\<rparr>"

definition vaultEnv :: "'q DezhanVault \<Rightarrow> EnvVar list" where
  "vaultEnv v =
     (if RequireAuth (Spec v) then [\<lparr>ev_Name = ''DEZHAN_REQUIRE_AUTH'', ev_Value = ''1'', ev_other = []\<rparr>] else []) @
     (if sint (DeleteQuorum (Spec v)) > 0
      then [\<lparr>ev_Name = ''DEZHAN_DELETE_QUORUM'', ev_Value = Itoa (sint (DeleteQuorum (Spec v))), ev_other = []\<rparr>] else []) @
     (if sint (ScrubIntervalSeconds (Spec v)) > 0
      then [\<lparr>ev_Name = ''DEZHAN_SCRUB_INTERVAL'', ev_Value = Itoa (sint (ScrubIntervalSeconds (Spec v))),
             ev_other = []\<rparr>] else [])"

definition vaultEnvFrom :: "'q DezhanVault \<Rightarrow> EnvFromSource list" where
  "vaultEnvFrom v = (if SecretName (Spec v) = [] then []
     else [\<lparr>ef_SecretRef = Some (SecretName (Spec v)), ef_other = []\<rparr>])"

text \<open>What \<open>applyPodSpec\<close> sets in the vault's container.\<close>

definition applyContainer :: "'q DezhanVault \<Rightarrow> Container \<Rightarrow> Container" where
  "applyContainer v c = c\<lparr>c_Image := Image (Spec v),
     c_Args := [port_text (Port (Spec v)), ''/'' @ dataVolume],
     c_Env := vaultEnv v,
     c_EnvFrom := vaultEnvFrom v,
     c_Ports := [\<lparr>cp_Name = ''s3'', cp_ContainerPort = Port (Spec v), cp_Protocol = ''TCP'', cp_other = []\<rparr>],
     c_VolumeMounts := [\<lparr>vm_Name = dataVolume, vm_MountPath = ''/'' @ dataVolume, vm_other = []\<rparr>],
     c_Resources := Resources (Spec v),
     c_ReadinessProbe := Some (healthProbe (Port (Spec v)) 3),
     c_LivenessProbe := Some (healthProbe (Port (Spec v)) 10),
     c_StartupProbe := Some (startupProbe (Port (Spec v))),
     c_SecurityContext := Some \<lparr>sc_AllowPrivilegeEscalation = Some False, sc_ReadOnlyRootFilesystem = Some True,
        sc_RunAsNonRoot = Some True, sc_CapabilitiesDrop = Some [''ALL''], sc_SeccompProfile = Some ''RuntimeDefault'',
        sc_other = []\<rparr>\<rparr>"

definition new_container :: "string \<Rightarrow> Container" where
  "new_container name = \<lparr>c_Name = name, c_Image = [], c_Args = [], c_Env = [], c_EnvFrom = [], c_Ports = [],
     c_VolumeMounts = [], c_Resources = [], c_ReadinessProbe = None, c_LivenessProbe = None,
     c_StartupProbe = None, c_SecurityContext = None, c_other = []\<rparr>"

text \<open>The first container of that name changed in place, or a new one appended.\<close>

fun update_container :: "string \<Rightarrow> (Container \<Rightarrow> Container) \<Rightarrow> Container list \<Rightarrow> Container list" where
  "update_container name f [] = [f (new_container name)]"
| "update_container name f (c # cs) = (if c_Name c = name then f c # cs else c # update_container name f cs)"

definition applyPodSpec :: "PodSpec \<Rightarrow> 'q DezhanVault \<Rightarrow> PodSpec" where
  "applyPodSpec spec v = spec\<lparr>ps_SecurityContext := Some \<lparr>psc_RunAsNonRoot = Some True,
        psc_RunAsUser = Some fieldOwnerUID, psc_FSGroup = Some fieldOwnerUID, psc_other = []\<rparr>,
     ps_PriorityClassName := PriorityClassName (Spec v),
     ps_TerminationGracePeriodSeconds := Some 60,
     ps_Containers := update_container containerName (applyContainer v) (ps_Containers spec)\<rparr>"

section \<open>Reconciliation\<close>

definition mutateService ::
  "('s, 'q) DezhanVaultReconciler \<Rightarrow> 'q DezhanVault \<Rightarrow> Service \<Rightarrow> api_err + Service" where
  "mutateService r v svc =
    (let meta = (svc_Meta svc)\<lparr>om_Labels := mergeLabels (om_Labels (svc_Meta svc)) (labelsFor (dv_Name v)),
           om_Annotations := mergeLabels (om_Annotations (svc_Meta svc))
             [''prometheus.io/scrape'' \<mapsto> ''true'', ''prometheus.io/port'' \<mapsto> port_text (Port (Spec v)),
              ''prometheus.io/path'' \<mapsto> ''/metrics'']\<rparr>;
         svc = svc\<lparr>svc_Type := ServiceType (Spec v), svc_Selector := Some (labelsFor (dv_Name v)),
           svc_ClusterIP := (if om_CreationTimestamp meta = 0 \<and> ServiceType (Spec v) = ''ClusterIP''
             then ''None'' else svc_ClusterIP svc),
           svc_Ports := [\<lparr>sp_Name = ''s3'', sp_Protocol = ''TCP'', sp_AppProtocol = None, sp_Port = Port (Spec v),
             sp_TargetPort = FromInt32 (Port (Spec v)), sp_NodePort = 0\<rparr>]\<rparr>
     in map_sum id (\<lambda>m. svc\<lparr>svc_Meta := m\<rparr>) (SetControllerReference r v meta))"

definition reconcileService ::
  "('s, 'q) DezhanVaultReconciler \<Rightarrow> 'q DezhanVault \<Rightarrow> ('s, api_err, unit) io" where
  "reconcileService r v = io_try (api (CreateOrUpdate_Service r (dv_key v) (mutateService r v))) io_throw (\<lambda>op.
     io_when (op \<noteq> OperationResultNone) (Eventf r v ''Normal'' ''Reconciled'' (''service '' @ op)))"

definition mutateStatefulSet ::
  "('s, 'q) DezhanVaultReconciler \<Rightarrow> 'q DezhanVault \<Rightarrow> 'q StatefulSet \<Rightarrow> api_err + 'q StatefulSet" where
  "mutateStatefulSet r v sts =
    (let meta = (sts_Meta sts)\<lparr>om_Labels := mergeLabels (om_Labels (sts_Meta sts)) (labelsFor (dv_Name v))\<rparr>;
         sts = sts\<lparr>sts_Replicas := Some 1, sts_MinReadySeconds := 10,
           sts_RetentionPolicy := Some (''Retain'', ''Retain'')\<rparr>;
         sts = (if om_CreationTimestamp meta = 0 then
             sts\<lparr>sts_Selector := Some (labelsFor (dv_Name v)), sts_ServiceName := dv_Name v,
               sts_VolumeClaimTemplates := [\<lparr>pvc_Meta = new_meta ([], dataVolume),
                 pvc_AccessModes = [''ReadWriteOnce''], pvc_StorageClassName = StorageClassName (Spec v),
                 pvc_Requests = Some [''storage'' \<mapsto> Storage (Spec v)], pvc_other = []\<rparr>]\<rparr>
           else sts);
         sts = sts\<lparr>sts_TemplateLabels := mergeLabels (sts_TemplateLabels sts) (labelsFor (dv_Name v)),
           sts_PodSpec := applyPodSpec (sts_PodSpec sts) v\<rparr>
     in map_sum id (\<lambda>m. sts\<lparr>sts_Meta := m\<rparr>) (SetControllerReference r v meta))"

definition reconcileStatefulSet ::
  "('s, 'q) DezhanVaultReconciler \<Rightarrow> 'q DezhanVault \<Rightarrow> ('s, api_err, unit) io" where
  "reconcileStatefulSet r v =
     io_try (api (CreateOrUpdate_StatefulSet r (dv_key v) (mutateStatefulSet r v))) io_throw (\<lambda>op.
       io_when (op \<noteq> OperationResultNone) (Eventf r v ''Normal'' ''Reconciled'' (''statefulset '' @ op)))"

definition mutatePDB ::
  "('s, 'q) DezhanVaultReconciler \<Rightarrow> 'q DezhanVault \<Rightarrow> PodDisruptionBudget \<Rightarrow> api_err + PodDisruptionBudget" where
  "mutatePDB r v pdb =
    (let meta = (pdb_Meta pdb)\<lparr>om_Labels := mergeLabels (om_Labels (pdb_Meta pdb)) (labelsFor (dv_Name v))\<rparr>;
         pdb = pdb\<lparr>pdb_MinAvailable := Some (FromInt32 1), pdb_Selector := Some (labelsFor (dv_Name v))\<rparr>
     in map_sum id (\<lambda>m. pdb\<lparr>pdb_Meta := m\<rparr>) (SetControllerReference r v meta))"

definition reconcilePDB ::
  "('s, 'q) DezhanVaultReconciler \<Rightarrow> 'q DezhanVault \<Rightarrow> ('s, api_err, unit) io" where
  "reconcilePDB r v =
    (if DisablePodDisruptionBudget (Spec v)
     then io_try (api (Delete_PDB r (dv_key v))) (\<lambda>err. IgnoreNotFound err ()) io_return
     else io_try (api (CreateOrUpdate_PDB r (dv_key v) (mutatePDB r v))) io_throw (\<lambda>_. io_return ()))"

definition pvcName :: "'q DezhanVault \<Rightarrow> string" where
  "pvcName v = dataVolume @ ''-'' @ dv_Name v @ ''-0''"

definition storage_request :: "'q quantity \<Rightarrow> 'q PersistentVolumeClaim \<Rightarrow> 'q" where
  "storage_request q pvc = (case pvc_Requests pvc of None \<Rightarrow> q_zero q
     | Some m \<Rightarrow> (case m ''storage'' of None \<Rightarrow> q_zero q | Some x \<Rightarrow> x))"

definition reconcilePVCExpansion ::
  "('s, 'q) DezhanVaultReconciler \<Rightarrow> 'q DezhanVault \<Rightarrow> ('s, api_err, unit) io" where
  "reconcilePVCExpansion r v =
     io_try (api (Get_PVC r (dv_Namespace v, pvcName v))) (\<lambda>err. IgnoreNotFound err ()) (\<lambda>pvc.
       let cur = storage_request (Quantity r) pvc in
       if q_Cmp (Quantity r) (Storage (Spec v)) cur \<le> 0 then io_return ()
       else
         let requests = (case pvc_Requests pvc of None \<Rightarrow> Map.empty | Some m \<Rightarrow> m);
             grown = pvc\<lparr>pvc_Requests := Some (requests(''storage'' \<mapsto> Storage (Spec v)))\<rparr>
         in io_try (api (Patch_PVC r pvc grown)) io_throw (\<lambda>_.
              Eventf r v ''Normal'' ''Expanded''
                (''PVC '' @ pvcName v @ '' grown to '' @ q_String (Quantity r) (Storage (Spec v)))))"

definition newStatus ::
  "(Condition list \<Rightarrow> Condition \<Rightarrow> Condition list) \<Rightarrow> 'q DezhanVault \<Rightarrow> bool \<Rightarrow> 'q DezhanVault \<Rightarrow> DezhanVaultStatus" where
  "newStatus set_condition v ready cur =
    (let gen = om_Generation (dv_Meta cur);
         cond = \<lparr>cond_Type = ''Available'', cond_Status = (if ready then ''True'' else ''False''),
           cond_ObservedGeneration = gen, cond_LastTransitionTime = 0,
           cond_Reason = (if ready then ''StatefulSetReady'' else ''StatefulSetNotReady''),
           cond_Message = (if ready then ''vault pod is ready'' else ''vault pod is not ready'')\<rparr>
     in (Status cur)\<lparr>ObservedGeneration := gen, Ready := ready,
          Endpoint := dv_Name v @ ''.'' @ dv_Namespace v @ ''.svc:'' @ Itoa (sint (Port (Spec v))),
          Conditions := set_condition (Conditions (Status cur)) cond\<rparr>)"

definition updateStatus ::
  "('s, 'q) DezhanVaultReconciler \<Rightarrow> 'q DezhanVault \<Rightarrow> bool \<Rightarrow> ('s, api_err, unit) io" where
  "updateStatus r v ready =
     io_try (api (Get_DezhanVault r (dv_key v))) (\<lambda>err. IgnoreNotFound err ()) (\<lambda>cur.
       api (Patch_Status r cur (cur\<lparr>Status := newStatus (SetStatusCondition r) v ready cur\<rparr>)))"

definition fail ::
  "('s, 'q) DezhanVaultReconciler \<Rightarrow> 'q DezhanVault \<Rightarrow> string \<Rightarrow> api_err \<Rightarrow> ('s, api_err, nat) io" where
  "fail r v reason err = io_bind (Eventf r v ''Warning'' reason (api_message err)) (\<lambda>_.
     io_try (updateStatus r v False) (\<lambda>_. io_throw err) (\<lambda>_. io_throw err))"

text \<open>The result of a pass is \<open>RequeueAfter\<close> in seconds, 0 for none.\<close>

definition Reconcile ::
  "('s, 'q) DezhanVaultReconciler \<Rightarrow> NamespacedName \<Rightarrow> ('s, api_err, nat) io" where
  "Reconcile r req = io_try (api (Get_DezhanVault r req)) (\<lambda>err. IgnoreNotFound err 0) (\<lambda>vault.
     if om_DeletionTimestamp (dv_Meta vault) \<notin> {None, Some 0} then io_return 0
     else let v = applyDefaults (Quantity r) vault in
       io_try (reconcileService r v) (fail r v ''ServiceError'') (\<lambda>_.
       io_try (reconcileStatefulSet r v) (fail r v ''StatefulSetError'') (\<lambda>_.
       io_try (reconcilePVCExpansion r v) (fail r v ''ExpansionError'') (\<lambda>_.
       io_try (reconcilePDB r v) (fail r v ''PDBError'') (\<lambda>_.
       io_try (api (Get_StatefulSet r req)) io_throw (\<lambda>sts.
         let ready = sint (sts_ReadyReplicas sts) \<ge> 1 in
         io_try (updateStatus r v ready) io_throw (\<lambda>_.
           io_return (if ready then 0 else requeueWait))))))))"

end
