(* ===== verification/Operator_Api.thy ===== *)
theory Operator_Api
  imports Operator
begin

text \<open>
  What the operator relies on of Kubernetes (\<open>quantity_order\<close>, \<open>kube_api\<close>), what a pass of \<open>Reconcile\<close>
  then achieves, and what no sequence of passes can do to the vault's data.

  The contract is the documented behaviour of the API server, \<open>controllerutil\<close> and \<open>meta\<close>: a
  write that fails may still have been applied; what is stored agrees with what was sent on the
  fields that were set (\<open>svc_core\<close>, \<open>sts_core\<close>, \<open>pdb_core\<close>, \<open>pvc_core\<close>), while defaults may appear in
  others.  Between two calls of one pass nobody else writes the vault's objects.
\<close>

section \<open>The cluster\<close>

record 'q cluster =
  vaults :: "NamespacedName \<rightharpoonup> 'q DezhanVault"
  services :: "NamespacedName \<rightharpoonup> Service"
  sets :: "NamespacedName \<rightharpoonup> 'q StatefulSet"
  claims :: "NamespacedName \<rightharpoonup> 'q PersistentVolumeClaim"
  budgets :: "NamespacedName \<rightharpoonup> PodDisruptionBudget"

definition meta_key :: "ObjectMeta \<Rightarrow> NamespacedName" where
  "meta_key m = (om_Namespace m, om_Name m)"

text \<open>The object that \<open>CreateOrUpdate\<close> hands to the mutate function when there is none yet.\<close>

definition new_service :: "NamespacedName \<Rightarrow> Service" where
  "new_service k = \<lparr>svc_Meta = new_meta k, svc_Type = [], svc_Selector = None, svc_ClusterIP = [],
     svc_Ports = [], svc_other = []\<rparr>"

definition new_pod_spec :: PodSpec where
  "new_pod_spec = \<lparr>ps_SecurityContext = None, ps_PriorityClassName = [],
     ps_TerminationGracePeriodSeconds = None, ps_Containers = [], ps_other = []\<rparr>"

definition new_set :: "NamespacedName \<Rightarrow> 'q StatefulSet" where
  "new_set k = \<lparr>sts_Meta = new_meta k, sts_Replicas = None, sts_MinReadySeconds = 0, sts_RetentionPolicy = None,
     sts_Selector = None, sts_ServiceName = [], sts_VolumeClaimTemplates = [], sts_TemplateLabels = None,
     sts_PodSpec = new_pod_spec, sts_ReadyReplicas = 0, sts_other = []\<rparr>"

definition new_budget :: "NamespacedName \<Rightarrow> PodDisruptionBudget" where
  "new_budget k = \<lparr>pdb_Meta = new_meta k, pdb_MinAvailable = None, pdb_Selector = None, pdb_other = []\<rparr>"

definition existing :: "('k \<Rightarrow> 'o) \<Rightarrow> ('k \<rightharpoonup> 'o) \<Rightarrow> 'k \<Rightarrow> 'o" where
  "existing new m k = (case m k of None \<Rightarrow> new k | Some x \<Rightarrow> x)"

section \<open>What is kept of an object when it is stored\<close>

definition svc_core where
  "svc_core x = (om_Labels (svc_Meta x), om_Annotations (svc_Meta x), om_OwnerReferences (svc_Meta x),
     svc_Type x, svc_Selector x, map (\<lambda>p. (sp_Name p, sp_Protocol p, sp_Port p, sp_TargetPort p)) (svc_Ports x))"

definition pvc_core where
  "pvc_core x = (om_Name (pvc_Meta x), pvc_AccessModes x, pvc_StorageClassName x, pvc_Requests x)"

definition container_core where
  "container_core c = (c_Name c, c_Image c, c_Args c, map (\<lambda>e. (ev_Name e, ev_Value e)) (c_Env c),
     map ef_SecretRef (c_EnvFrom c), map (\<lambda>p. (cp_Name p, cp_ContainerPort p, cp_Protocol p)) (c_Ports c),
     map (\<lambda>m. (vm_Name m, vm_MountPath m)) (c_VolumeMounts c))"

definition sts_core where
  "sts_core x = (om_Labels (sts_Meta x), om_OwnerReferences (sts_Meta x), sts_Replicas x, sts_MinReadySeconds x,
     sts_RetentionPolicy x, sts_Selector x, sts_ServiceName x, map pvc_core (sts_VolumeClaimTemplates x),
     sts_TemplateLabels x, map container_core (ps_Containers (sts_PodSpec x)))"

definition pdb_core where
  "pdb_core x = (om_Labels (pdb_Meta x), om_OwnerReferences (pdb_Meta x), pdb_MinAvailable x, pdb_Selector x)"

section \<open>The contract\<close>

locale quantity_order =
  fixes q :: "'q quantity" and val :: "'q \<Rightarrow> int"
  assumes cmp: "q_Cmp q a b \<le> 0 \<longleftrightarrow> val a \<le> val b"

locale kube_api = quantity_order "Quantity r" val
  for r :: "('s, 'q) DezhanVaultReconciler" and val :: "'q \<Rightarrow> int" +
  fixes cluster :: "'s \<Rightarrow> 'q cluster"
  assumes get_vault: "Get_DezhanVault r k s = (x, t) \<Longrightarrow> cluster t = cluster s \<and>
      (\<forall>v. x = Inr v \<longrightarrow> vaults (cluster s) k = Some v \<and> meta_key (dv_Meta v) = k) \<and>
      (\<forall>m. x = Inl (NotFound m) \<longrightarrow> vaults (cluster s) k = None)"
    and get_set: "Get_StatefulSet r k s = (y, t) \<Longrightarrow> cluster t = cluster s \<and>
      (\<forall>v. y = Inr v \<longrightarrow> sets (cluster s) k = Some v)"
    and get_claim: "Get_PVC r k s = (z, t) \<Longrightarrow> cluster t = cluster s \<and>
      (\<forall>p. z = Inr p \<longrightarrow> claims (cluster s) k = Some p \<and> meta_key (pvc_Meta p) = k) \<and>
      (\<forall>m. z = Inl (NotFound m) \<longrightarrow> claims (cluster s) k = None)"
    and put_service: "CreateOrUpdate_Service r k f s = (op, t) \<Longrightarrow>
      (\<exists>e. op = Inl e) \<and> cluster t = cluster s \<or>
      (\<exists>a b. f (existing new_service (services (cluster s)) k) = Inr a \<and> svc_core b = svc_core a \<and>
         cluster t = (cluster s)\<lparr>services := (services (cluster s))(k \<mapsto> b)\<rparr>)"
    and put_set: "CreateOrUpdate_StatefulSet r k g s = (op, t) \<Longrightarrow>
      (\<exists>e. op = Inl e) \<and> cluster t = cluster s \<or>
      (\<exists>a b. g (existing new_set (sets (cluster s)) k) = Inr a \<and> sts_core b = sts_core a \<and>
         om_CreationTimestamp (sts_Meta b) \<noteq> 0 \<and>
         cluster t = (cluster s)\<lparr>sets := (sets (cluster s))(k \<mapsto> b)\<rparr>)"
    and put_budget: "CreateOrUpdate_PDB r k h s = (op, t) \<Longrightarrow>
      (\<exists>e. op = Inl e) \<and> cluster t = cluster s \<or>
      (\<exists>a b. h (existing new_budget (budgets (cluster s)) k) = Inr a \<and> pdb_core b = pdb_core a \<and>
         cluster t = (cluster s)\<lparr>budgets := (budgets (cluster s))(k \<mapsto> b)\<rparr>)"
    and delete_budget: "Delete_PDB r k s = (u, t) \<Longrightarrow>
      (\<exists>e. u = Inl e) \<and> cluster t = cluster s \<and> (\<forall>m. u = Inl (NotFound m) \<longrightarrow> budgets (cluster s) k = None) \<or>
      cluster t = (cluster s)\<lparr>budgets := (budgets (cluster s))(k := None)\<rparr>"
    and patch_claim: "Patch_PVC r p p' s = (u, t) \<Longrightarrow> claims (cluster s) (meta_key (pvc_Meta p)) = Some p \<Longrightarrow>
      (\<exists>e. u = Inl e) \<and> cluster t = cluster s \<or>
      (\<exists>b. pvc_core b = pvc_core p' \<and>
         cluster t = (cluster s)\<lparr>claims := (claims (cluster s))(meta_key (pvc_Meta p) \<mapsto> b)\<rparr>)"
    and patch_status: "Patch_Status r v v' s = (u, t) \<Longrightarrow>
      (\<exists>e. u = Inl e) \<and> cluster t = cluster s \<or>
      (\<exists>b. Spec b = Spec v \<and> Status b = Status v' \<and>
         cluster t = (cluster s)\<lparr>vaults := (vaults (cluster s))(meta_key (dv_Meta v) \<mapsto> b)\<rparr>)"
    and recorder: "Recorder r = Some rec \<Longrightarrow> cluster (rec v kind reason msg s) = cluster s"
    and controller_reference: "SetControllerReference r v m = Inr m' \<Longrightarrow>
      m' = m\<lparr>om_OwnerReferences := om_OwnerReferences m'\<rparr> \<and>
      (om_UID (dv_Meta v), True) \<in> set (om_OwnerReferences m')"
    and status_condition: "\<exists>c\<in>set (SetStatusCondition r cs c0). cond_Type c = cond_Type c0 \<and>
      cond_Status c = cond_Status c0 \<and> cond_Reason c = cond_Reason c0 \<and> cond_Message c = cond_Message c0"

section \<open>Specification\<close>

text \<open>The objects of a vault as its resource \<open>v\<close>, with defaults applied, asks for them.\<close>

definition service_ok :: "'q DezhanVault \<Rightarrow> Service \<Rightarrow> bool" where
  "service_ok v x \<longleftrightarrow> svc_Type x = ServiceType (Spec v) \<and> svc_Selector x = Some (labelsFor (dv_Name v)) \<and>
     map (\<lambda>p. (sp_Port p, sp_TargetPort p)) (svc_Ports x) = [(Port (Spec v), FromInt32 (Port (Spec v)))] \<and>
     (\<exists>l. om_Annotations (svc_Meta x) = Some l \<and> l ''prometheus.io/port'' = Some (port_text (Port (Spec v)))) \<and>
     (om_UID (dv_Meta v), True) \<in> set (om_OwnerReferences (svc_Meta x))"

definition container_ok :: "'q DezhanVault \<Rightarrow> Container \<Rightarrow> bool" where
  "container_ok v c \<longleftrightarrow> c_Name c = containerName \<and> c_Image c = Image (Spec v) \<and>
     c_Args c = [port_text (Port (Spec v)), ''/data''] \<and>
     map (\<lambda>e. (ev_Name e, ev_Value e)) (c_Env c) = map (\<lambda>e. (ev_Name e, ev_Value e)) (vaultEnv v) \<and>
     map ef_SecretRef (c_EnvFrom c) = (if SecretName (Spec v) = [] then [] else [Some (SecretName (Spec v))]) \<and>
     map (\<lambda>m. (vm_Name m, vm_MountPath m)) (c_VolumeMounts c) = [(dataVolume, ''/data'')]"

definition set_ok :: "'q DezhanVault \<Rightarrow> 'q StatefulSet \<Rightarrow> bool" where
  "set_ok v x \<longleftrightarrow> sts_Replicas x = Some 1 \<and> sts_RetentionPolicy x = Some (''Retain'', ''Retain'') \<and>
     (\<exists>l. sts_TemplateLabels x = Some l \<and> labelsFor (dv_Name v) \<subseteq>\<^sub>m l) \<and>
     (\<exists>c\<in>set (ps_Containers (sts_PodSpec x)). container_ok v c) \<and>
     (om_UID (dv_Meta v), True) \<in> set (om_OwnerReferences (sts_Meta x))"

definition budget_ok :: "'q DezhanVault \<Rightarrow> PodDisruptionBudget option \<Rightarrow> bool" where
  "budget_ok v b \<longleftrightarrow> (if DisablePodDisruptionBudget (Spec v) then b = None
     else \<exists>x. b = Some x \<and> pdb_MinAvailable x = Some (FromInt32 1) \<and>
       pdb_Selector x = Some (labelsFor (dv_Name v)))"

definition claim_ok :: "'q quantity \<Rightarrow> ('q \<Rightarrow> int) \<Rightarrow> 'q DezhanVault \<Rightarrow> 'q PersistentVolumeClaim option \<Rightarrow>
    'q PersistentVolumeClaim option \<Rightarrow> bool" where
  "claim_ok q val v p p' \<longleftrightarrow> (case p of None \<Rightarrow> p' = None | Some x \<Rightarrow> \<exists>x'. p' = Some x' \<and>
     val (storage_request q x') = max (val (storage_request q x)) (val (Storage (Spec v))) \<and>
     pvc_AccessModes x' = pvc_AccessModes x \<and> pvc_StorageClassName x' = pvc_StorageClassName x)"

text \<open>Fields the API server never lets change: \<open>x\<close> is a stored set, \<open>y\<close> its next version.\<close>

definition same_template :: "'q StatefulSet option \<Rightarrow> 'q StatefulSet \<Rightarrow> bool" where
  "same_template x y \<longleftrightarrow> (case x of None \<Rightarrow> True | Some x \<Rightarrow> om_CreationTimestamp (sts_Meta x) \<noteq> 0 \<longrightarrow>
     sts_Selector y = sts_Selector x \<and> sts_ServiceName y = sts_ServiceName x \<and>
     map pvc_core (sts_VolumeClaimTemplates y) = map pvc_core (sts_VolumeClaimTemplates x))"

definition status_ok :: "'q DezhanVault \<Rightarrow> bool \<Rightarrow> DezhanVaultStatus \<Rightarrow> bool" where
  "status_ok v ready st \<longleftrightarrow> Ready st = ready \<and> ObservedGeneration st = om_Generation (dv_Meta v) \<and>
     Endpoint st = dv_Name v @ ''.'' @ dv_Namespace v @ ''.svc:'' @ port_text (Port (Spec v)) \<and>
     (\<exists>c\<in>set (Conditions st). cond_Type c = ''Available'' \<and> cond_Status c = (if ready then ''True'' else ''False''))"

text \<open>
  What a pass may never lose: data claims stay and do not shrink, the immutable part of a created stateful
  set stays, services and resources stay, and resources keep their specification.
\<close>

definition data_kept :: "'q quantity \<Rightarrow> ('q \<Rightarrow> int) \<Rightarrow> 'q cluster \<Rightarrow> 'q cluster \<Rightarrow> bool" where
  "data_kept q val c c' \<longleftrightarrow>
     (\<forall>k p. claims c k = Some p \<longrightarrow> (\<exists>p'. claims c' k = Some p' \<and>
        val (storage_request q p) \<le> val (storage_request q p') \<and>
        pvc_AccessModes p' = pvc_AccessModes p \<and> pvc_StorageClassName p' = pvc_StorageClassName p)) \<and>
     (\<forall>k x. sets c k = Some x \<longrightarrow> om_CreationTimestamp (sts_Meta x) \<noteq> 0 \<longrightarrow> (\<exists>y. sets c' k = Some y \<and>
        om_CreationTimestamp (sts_Meta y) \<noteq> 0 \<and> same_template (Some x) y)) \<and>
     (\<forall>k v. vaults c k = Some v \<longrightarrow> (\<exists>w. vaults c' k = Some w \<and> Spec w = Spec v)) \<and>
     dom (services c) \<subseteq> dom (services c')"

lemma data_kept_refl: "data_kept q val c c"
  by (auto simp: data_kept_def same_template_def)

lemma data_kept_trans: "data_kept q val c d \<Longrightarrow> data_kept q val d e \<Longrightarrow> data_kept q val c e"
proof -
  assume a: "data_kept q val c d" and b: "data_kept q val d e"
  have "\<exists>p'. claims e k = Some p' \<and> val (storage_request q p) \<le> val (storage_request q p') \<and>
      pvc_AccessModes p' = pvc_AccessModes p \<and> pvc_StorageClassName p' = pvc_StorageClassName p"
    if "claims c k = Some p" for k p
  proof -
    from a that obtain p1 where "claims d k = Some p1" "val (storage_request q p) \<le> val (storage_request q p1)"
      "pvc_AccessModes p1 = pvc_AccessModes p" "pvc_StorageClassName p1 = pvc_StorageClassName p"
      unfolding data_kept_def by blast
    moreover from b this(1) obtain p2 where "claims e k = Some p2" "val (storage_request q p1) \<le> val (storage_request q p2)"
      "pvc_AccessModes p2 = pvc_AccessModes p1" "pvc_StorageClassName p2 = pvc_StorageClassName p1"
      unfolding data_kept_def by blast
    ultimately show ?thesis by auto
  qed
  moreover have "\<exists>y. sets e k = Some y \<and> om_CreationTimestamp (sts_Meta y) \<noteq> 0 \<and> same_template (Some x) y"
    if "sets c k = Some x" "om_CreationTimestamp (sts_Meta x) \<noteq> 0" for k x
  proof -
    from a that obtain y where y: "sets d k = Some y" "om_CreationTimestamp (sts_Meta y) \<noteq> 0" "same_template (Some x) y"
      unfolding data_kept_def by blast
    moreover from b y(1,2) obtain z where "sets e k = Some z" "om_CreationTimestamp (sts_Meta z) \<noteq> 0" "same_template (Some y) z"
      unfolding data_kept_def by blast
    ultimately show ?thesis using that(2) by (auto simp: same_template_def)
  qed
  moreover have "\<forall>k v. vaults c k = Some v \<longrightarrow> (\<exists>w. vaults e k = Some w \<and> Spec w = Spec v)"
    using a b unfolding data_kept_def by metis
  moreover have "dom (services c) \<subseteq> dom (services e)" using a b unfolding data_kept_def by blast
  ultimately show ?thesis unfolding data_kept_def by blast
qed

text \<open>A pass for any resource, whatever its outcome.\<close>

inductive op_step :: "('s, 'q) DezhanVaultReconciler \<Rightarrow> 's \<Rightarrow> 's \<Rightarrow> bool" for r where
  reconcile: "Reconcile r k s = Some (x, t) \<Longrightarrow> op_step r s t"

section \<open>What the mutate functions do\<close>

lemma update_container_mem: "\<exists>c. c_Name c = name \<and> f c \<in> set (update_container name f cs)"
proof (induction cs)
  case Nil
  have "c_Name (new_container name) = name" by (simp add: new_container_def)
  then show ?case by force
qed auto

lemma applyContainer_ok: "c_Name c = containerName \<Longrightarrow> container_ok v (applyContainer v c)"
  by (simp add: container_ok_def applyContainer_def dataVolume_def vaultEnvFrom_def)

lemma applyPodSpec_container: "\<exists>c\<in>set (ps_Containers (applyPodSpec spec v)). container_ok v c"
  using update_container_mem [of containerName "applyContainer v" "ps_Containers spec"]
  by (auto simp: applyPodSpec_def intro: applyContainer_ok)

lemma container_ok_core: "container_core c = container_core c' \<Longrightarrow> container_ok v c \<Longrightarrow> container_ok v c'"
  by (simp add: container_core_def container_ok_def)

lemma containers_core:
  assumes "map container_core cs = map container_core cs'" and "\<exists>c\<in>set cs. container_ok v c"
  shows "\<exists>c\<in>set cs'. container_ok v c"
proof -
  from assms(2) obtain c where c: "c \<in> set cs" "container_ok v c" by blast
  then have "container_core c \<in> set (map container_core cs')" by (simp flip: assms(1))
  with c container_ok_core show ?thesis by (metis (no_types, lifting) imageE list.set_map)
qed

lemma mergeLabels_le: "mergeLabels dst src = Some l \<Longrightarrow> src \<subseteq>\<^sub>m l"
  by (auto simp: mergeLabels_def)

lemma mergeLabels_idem: "mergeLabels (mergeLabels dst src) src = mergeLabels dst src"
  by (auto simp: mergeLabels_def map_add_def fun_eq_iff split: option.split)

lemma update_container_idem:
  assumes "\<And>c. f (f c) = f c" and "\<And>c. c_Name (f c) = c_Name c"
  shows "update_container n f (update_container n f cs) = update_container n f cs"
  using assms by (induction cs) (auto simp: new_container_def)

lemma update_container_others:
  assumes "\<And>c. c_Name (f c) = c_Name c"
  shows "filter (\<lambda>c. c_Name c \<noteq> n) (update_container n f cs) = filter (\<lambda>c. c_Name c \<noteq> n) cs"
  using assms by (induction cs) (auto simp: new_container_def)

lemma find_update_container:
  assumes "\<And>c. c_Name (f c) = c_Name c" and "find (\<lambda>c. c_Name c = n) cs = Some c"
  shows "find (\<lambda>c. c_Name c = n) (update_container n f cs) = Some (f c)"
  using assms by (induction cs) auto

lemma applyContainer_idem [simp]:
  "applyContainer v (applyContainer v c) = applyContainer v c" "c_Name (applyContainer v c) = c_Name c"
  by (simp_all add: applyContainer_def)

lemma applyPodSpec_idem: "applyPodSpec (applyPodSpec spec v) v = applyPodSpec spec v"
  by (simp add: applyPodSpec_def update_container_idem)

lemma applyDefaults_Meta [simp]: "dv_Meta (applyDefaults q v) = dv_Meta v"
  by (simp add: applyDefaults_def Let_def)

lemma mutateStatefulSet_PodSpec:
  "mutateStatefulSet r v x = Inr y \<Longrightarrow> sts_PodSpec y = applyPodSpec (sts_PodSpec x) v"
  by (auto simp: mutateStatefulSet_def Let_def map_sum_def split: sum.splits if_splits)

context kube_api
begin

lemma reference_fields:
  assumes "SetControllerReference r v m = Inr m'"
  shows "om_Labels m' = om_Labels m \<and> om_Annotations m' = om_Annotations m \<and>
    om_CreationTimestamp m' = om_CreationTimestamp m \<and> (om_UID (dv_Meta v), True) \<in> set (om_OwnerReferences m')"
proof -
  obtain o' where "m' = m\<lparr>om_OwnerReferences := o'\<rparr>" "(om_UID (dv_Meta v), True) \<in> set (om_OwnerReferences m')"
    using controller_reference [OF assms] by blast
  then show ?thesis by simp
qed

lemma mutateService_ok:
  assumes "mutateService r v x = Inr y" and "svc_core z = svc_core y"
  shows "service_ok v z"
proof -
  from assms(1) have "svc_Type y = ServiceType (Spec v)" "svc_Selector y = Some (labelsFor (dv_Name v))"
    "map (\<lambda>p. (sp_Name p, sp_Protocol p, sp_Port p, sp_TargetPort p)) (svc_Ports y) =
       [(''s3'', ''TCP'', Port (Spec v), FromInt32 (Port (Spec v)))]"
    "\<exists>l. om_Annotations (svc_Meta y) = Some l \<and> l ''prometheus.io/port'' = Some (port_text (Port (Spec v)))"
    "(om_UID (dv_Meta v), True) \<in> set (om_OwnerReferences (svc_Meta y))"
    by (auto simp: mutateService_def Let_def mergeLabels_def map_sum_def dest!: reference_fields split: sum.splits)
  with assms(2) show ?thesis by (auto simp: svc_core_def service_ok_def map_eq_Cons_conv)
qed

lemma mutateStatefulSet_ok:
  assumes "mutateStatefulSet r v x = Inr y" and "sts_core z = sts_core y"
  shows "set_ok v z"
proof -
  from assms(1) have y: "sts_Replicas y = Some 1" "sts_RetentionPolicy y = Some (''Retain'', ''Retain'')"
    "sts_TemplateLabels y = mergeLabels (sts_TemplateLabels x) (labelsFor (dv_Name v))"
    "sts_PodSpec y = applyPodSpec (sts_PodSpec x) v"
    "(om_UID (dv_Meta v), True) \<in> set (om_OwnerReferences (sts_Meta y))"
    by (auto simp: mutateStatefulSet_def Let_def map_sum_def dest!: reference_fields split: sum.splits if_splits)
  have "map container_core (ps_Containers (sts_PodSpec y)) = map container_core (ps_Containers (sts_PodSpec z))"
    using assms(2) by (simp add: sts_core_def)
  from containers_core [OF this] have "\<exists>c\<in>set (ps_Containers (sts_PodSpec z)). container_ok v c"
    using y(4) applyPodSpec_container by metis
  with assms(2) y show ?thesis by (auto simp: sts_core_def set_ok_def mergeLabels_def)
qed

lemma mutateStatefulSet_immutable:
  assumes "mutateStatefulSet r v x = Inr y" and "om_CreationTimestamp (sts_Meta x) \<noteq> 0"
  shows "sts_Selector y = sts_Selector x \<and> sts_ServiceName y = sts_ServiceName x \<and>
     sts_VolumeClaimTemplates y = sts_VolumeClaimTemplates x"
  using assms by (auto simp: mutateStatefulSet_def Let_def map_sum_def split: sum.splits)

lemma mutatePDB_ok:
  assumes "mutatePDB r v x = Inr y" and "pdb_core z = pdb_core y"
  shows "pdb_MinAvailable z = Some (FromInt32 1) \<and> pdb_Selector z = Some (labelsFor (dv_Name v))"
  using assms by (auto simp: mutatePDB_def Let_def pdb_core_def map_sum_def split: sum.splits)

text \<open>The writes of a pass, as changes of the cluster.\<close>

definition service_put :: "'q DezhanVault \<Rightarrow> 's \<Rightarrow> 's \<Rightarrow> bool" where
  "service_put v s t \<longleftrightarrow> (\<exists>y. service_ok v y \<and>
     cluster t = (cluster s)\<lparr>services := (services (cluster s))(dv_key v \<mapsto> y)\<rparr>)"

definition set_put :: "'q DezhanVault \<Rightarrow> 's \<Rightarrow> 's \<Rightarrow> bool" where
  "set_put v s t \<longleftrightarrow> (\<exists>y. set_ok v y \<and> om_CreationTimestamp (sts_Meta y) \<noteq> 0 \<and>
     same_template (sets (cluster s) (dv_key v)) y \<and>
     cluster t = (cluster s)\<lparr>sets := (sets (cluster s))(dv_key v \<mapsto> y)\<rparr>)"

definition claim_put :: "'q DezhanVault \<Rightarrow> 's \<Rightarrow> 's \<Rightarrow> bool" where
  "claim_put v s t \<longleftrightarrow> (let k = (dv_Namespace v, pvcName v) in
     \<exists>p. claim_ok (Quantity r) val v (claims (cluster s) k) p \<and>
       cluster t = (cluster s)\<lparr>claims := (claims (cluster s))(k := p)\<rparr>)"

definition budget_put :: "'q DezhanVault \<Rightarrow> 's \<Rightarrow> 's \<Rightarrow> bool" where
  "budget_put v s t \<longleftrightarrow> (\<exists>b. budget_ok v b \<and>
     cluster t = (cluster s)\<lparr>budgets := (budgets (cluster s))(dv_key v := b)\<rparr>)"

definition status_put :: "'q DezhanVault \<Rightarrow> bool \<Rightarrow> 's \<Rightarrow> 's \<Rightarrow> bool" where
  "status_put v ready s t \<longleftrightarrow> (\<exists>cur w. vaults (cluster s) (dv_key v) = Some cur \<and> Spec w = Spec cur \<and>
     Ready (Status w) = ready \<and> (dv_Meta v = dv_Meta cur \<longrightarrow> status_ok v ready (Status w)) \<and>
     cluster t = (cluster s)\<lparr>vaults := (vaults (cluster s))(dv_key v \<mapsto> w)\<rparr>)"

lemma Eventf_wp: "io_wp (Eventf r v kind reason msg) (\<lambda>_ t. cluster t = cluster s) E s"
  by (cases "Recorder r") (simp_all add: Eventf_def io_rules recorder)

lemma Eventf_post:
  assumes "\<And>t. cluster t = cluster s \<Longrightarrow> Q t"
  shows "io_wp (Eventf r v kind reason msg) (\<lambda>_. Q) E s"
  by (rule io_wp_mono [OF Eventf_wp]) (auto intro: assms)

lemma reconcileService_wp:
  "io_wp (reconcileService r v) (\<lambda>_. service_put v s) (\<lambda>_ t. cluster t = cluster s \<or> service_put v s t) s"
proof -
  obtain op t where c: "CreateOrUpdate_Service r (dv_key v) (mutateService r v) s = (op, t)" by fastforce
  from put_service [OF c] have "(\<exists>e. op = Inl e) \<and> cluster t = cluster s \<or> service_put v s t"
    unfolding service_put_def using mutateService_ok by blast
  moreover have "service_put v s u" if "service_put v s t" "cluster u = cluster t" for u
    using that by (simp add: service_put_def)
  ultimately show ?thesis
    unfolding reconcileService_def by (cases op) (auto simp: io_rules c intro!: Eventf_post)
qed

lemma reconcileStatefulSet_wp:
  "io_wp (reconcileStatefulSet r v) (\<lambda>_. set_put v s) (\<lambda>_ t. cluster t = cluster s \<or> set_put v s t) s"
proof -
  obtain op t where c: "CreateOrUpdate_StatefulSet r (dv_key v) (mutateStatefulSet r v) s = (op, t)" by fastforce
  have "same_template (sets (cluster s) (dv_key v)) b"
    if "mutateStatefulSet r v (existing new_set (sets (cluster s)) (dv_key v)) = Inr a" "sts_core b = sts_core a" for a b
    using that mutateStatefulSet_immutable [OF that(1)]
    by (auto simp: same_template_def existing_def sts_core_def split: option.split)
  with put_set [OF c] have "(\<exists>e. op = Inl e) \<and> cluster t = cluster s \<or> set_put v s t"
    unfolding set_put_def using mutateStatefulSet_ok by blast
  moreover have "set_put v s u" if "set_put v s t" "cluster u = cluster t" for u
    using that by (simp add: set_put_def)
  ultimately show ?thesis
    unfolding reconcileStatefulSet_def by (cases op) (auto simp: io_rules c intro!: Eventf_post)
qed

lemma reconcilePDB_wp:
  "io_wp (reconcilePDB r v) (\<lambda>_. budget_put v s) (\<lambda>_ t. cluster t = cluster s \<or> budget_put v s t) s"
proof (cases "DisablePodDisruptionBudget (Spec v)")
  case True
  obtain u t where d: "Delete_PDB r (dv_key v) s = (u, t)" by fastforce
  have "budget_put v s t" if "cluster t = cluster s" "budgets (cluster s) (dv_key v) = None"
    unfolding budget_put_def using that True by (intro exI [of _ None]) (simp add: budget_ok_def fun_upd_idem)
  moreover have "budget_put v s t" if "cluster t = (cluster s)\<lparr>budgets := (budgets (cluster s))(dv_key v := None)\<rparr>"
    unfolding budget_put_def using that True by (intro exI [of _ None]) (simp add: budget_ok_def)
  ultimately show ?thesis using True delete_budget [OF d]
    by (cases u) (auto simp: reconcilePDB_def io_rules d IgnoreNotFound_def split: api_err.split)
next
  case False
  obtain op t where c: "CreateOrUpdate_PDB r (dv_key v) (mutatePDB r v) s = (op, t)" by fastforce
  have "budget_put v s t" if "mutatePDB r v x = Inr a" "pdb_core b = pdb_core a"
    "cluster t = (cluster s)\<lparr>budgets := (budgets (cluster s))(dv_key v \<mapsto> b)\<rparr>" for x a b
    unfolding budget_put_def using that False mutatePDB_ok [OF that(1,2)]
    by (intro exI [of _ "Some b"]) (simp add: budget_ok_def)
  with put_budget [OF c] have "(\<exists>e. op = Inl e) \<and> cluster t = cluster s \<or> budget_put v s t" by blast
  with False show ?thesis
    unfolding reconcilePDB_def by (cases op) (auto simp: io_rules c)
qed

lemma grown_claim_ok:
  assumes "\<not> q_Cmp (Quantity r) (Storage (Spec v)) (storage_request (Quantity r) p) \<le> 0"
    and "pvc_core b = pvc_core (p\<lparr>pvc_Requests := Some (m(''storage'' \<mapsto> Storage (Spec v)))\<rparr>)"
  shows "claim_ok (Quantity r) val v (Some p) (Some b)"
proof -
  have "val (storage_request (Quantity r) p) < val (Storage (Spec v))" using assms(1) cmp by auto
  moreover have "storage_request (Quantity r) b = Storage (Spec v)"
    using assms(2) by (simp add: pvc_core_def storage_request_def)
  ultimately show ?thesis using assms(2) by (simp add: claim_ok_def pvc_core_def)
qed

lemma reconcilePVCExpansion_wp:
  "io_wp (reconcilePVCExpansion r v) (\<lambda>_. claim_put v s) (\<lambda>_ t. cluster t = cluster s \<or> claim_put v s t) s"
proof -
  let ?k = "(dv_Namespace v, pvcName v)"
  have same: "claim_put v s t" if "cluster t = cluster s" "claim_ok (Quantity r) val v (claims (cluster s) ?k) (claims (cluster s) ?k)" for t
    unfolding claim_put_def Let_def using that by (intro exI [of _ "claims (cluster s) ?k"]) (simp add: fun_upd_idem)
  obtain x t where g: "Get_PVC r ?k s = (x, t)" by fastforce
  note got = get_claim [OF g]
  show ?thesis
  proof (cases x)
    case (Inl e)
    then have "claim_put v s t" if "e = NotFound m" for m
      using got that by (intro same) (auto simp: claim_ok_def)
    with Inl got show ?thesis
      by (auto simp: reconcilePVCExpansion_def io_rules g IgnoreNotFound_def split: api_err.split)
  next
    case (Inr p)
    with got have p: "claims (cluster s) ?k = Some p" "meta_key (pvc_Meta p) = ?k" "cluster t = cluster s" by auto
    show ?thesis
    proof (cases "q_Cmp (Quantity r) (Storage (Spec v)) (storage_request (Quantity r) p) \<le> 0")
      case True
      then have "claim_put v s t" using p cmp by (intro same) (simp_all add: claim_ok_def)
      with True Inr show ?thesis by (simp add: reconcilePVCExpansion_def io_rules g)
    next
      case False
      let ?m = "case pvc_Requests p of None \<Rightarrow> Map.empty | Some m \<Rightarrow> m"
      let ?p' = "p\<lparr>pvc_Requests := Some (?m(''storage'' \<mapsto> Storage (Spec v)))\<rparr>"
      obtain u t' where c: "Patch_PVC r p ?p' t = (u, t')" by fastforce
      have "claim_put v s w" if "pvc_core b = pvc_core ?p'" "cluster w = (cluster s)\<lparr>claims := (claims (cluster s))(?k \<mapsto> b)\<rparr>" for b w
        unfolding claim_put_def Let_def using that p grown_claim_ok [OF False that(1)] by (intro exI [of _ "Some b"]) simp
      with patch_claim [OF c] p have "(\<exists>e. u = Inl e) \<and> cluster t' = cluster s \<or> claim_put v s t'" by auto
      moreover have "claim_put v s w" if "claim_put v s t'" "cluster w = cluster t'" for w
        using that by (simp add: claim_put_def)
      ultimately show ?thesis using False Inr
        by (cases u) (auto simp: reconcilePVCExpansion_def io_rules g c Let_def intro!: Eventf_post)
    qed
  qed
qed

lemma newStatus_ok:
  assumes "dv_Meta v = dv_Meta cur"
  shows "status_ok v ready (newStatus (SetStatusCondition r) v ready cur)"
proof -
  obtain c where "c \<in> set (Conditions (newStatus (SetStatusCondition r) v ready cur))" "cond_Type c = ''Available''"
    "cond_Status c = (if ready then ''True'' else ''False'')"
    using status_condition [of "Conditions (Status cur)"] by (fastforce simp: newStatus_def Let_def)
  then show ?thesis using assms by (auto simp: status_ok_def newStatus_def Let_def port_text_def)
qed

lemma updateStatus_wp:
  "io_wp (updateStatus r v ready)
     (\<lambda>_ t. cluster t = cluster s \<and> vaults (cluster s) (dv_key v) = None \<or> status_put v ready s t)
     (\<lambda>_ t. cluster t = cluster s \<or> status_put v ready s t) s"
proof -
  obtain x t where g: "Get_DezhanVault r (dv_key v) s = (x, t)" by fastforce
  note got = get_vault [OF g]
  show ?thesis
  proof (cases x)
    case (Inl e)
    with got show ?thesis
      by (auto simp: updateStatus_def io_rules g IgnoreNotFound_def split: api_err.split)
  next
    case (Inr cur)
    with got have cur: "vaults (cluster s) (dv_key v) = Some cur" "meta_key (dv_Meta cur) = dv_key v" "cluster t = cluster s"
      by auto
    let ?cur' = "cur\<lparr>Status := newStatus (SetStatusCondition r) v ready cur\<rparr>"
    obtain u t' where c: "Patch_Status r cur ?cur' t = (u, t')" by fastforce
    have "status_put v ready s t'" if "Spec b = Spec cur" "Status b = Status ?cur'"
      "cluster t' = (cluster s)\<lparr>vaults := (vaults (cluster s))(dv_key v \<mapsto> b)\<rparr>" for b
      unfolding status_put_def using that cur newStatus_ok [of v cur ready]
      by (rule_tac exI [of _ cur], rule_tac exI [of _ b]) (simp add: newStatus_def Let_def)
    with patch_status [OF c] cur have "(\<exists>e. u = Inl e) \<and> cluster t' = cluster s \<or> status_put v ready s t'" by auto
    with Inr show ?thesis by (cases u) (auto simp: updateStatus_def io_rules g c)
  qed
qed

text \<open>\<open>fail\<close> returns the error it was given.\<close>

lemma fail_wp:
  "io_wp (fail r v reason err) (\<lambda>_ _. False) (\<lambda>e t. e = err \<and> (cluster t = cluster s \<or> status_put v False s t)) s"
proof -
  have "io_wp (updateStatus r v False) (\<lambda>_ t. cluster t = cluster s \<or> status_put v False s t)
      (\<lambda>_ t. cluster t = cluster s \<or> status_put v False s t) u" if "cluster u = cluster s" for u
    by (rule io_wp_mono [OF updateStatus_wp]) (auto simp: that status_put_def)
  then show ?thesis unfolding fail_def io_wp_bind by (intro Eventf_post) (simp add: io_wp_try io_wp_throw [THEN ext])
qed

lemma fail_Inr: "fail r v reason err s \<noteq> Some (Inr n, t)"
  using io_wlp_result [OF io_wp_imp_wlp [OF fail_wp [of v reason err s]]] by blast

text \<open>A pass that succeeds has written all five objects, in order.\<close>

lemma Reconcile_Inr:
  assumes "Reconcile r k s = Some (Inr n, t)" and "vaults (cluster s) k = Some vault"
    and "om_DeletionTimestamp (dv_Meta vault) \<in> {None, Some 0}"
  defines "v \<equiv> applyDefaults (Quantity r) vault"
  obtains s0 s1 s2 s3 s4 sts where "cluster s0 = cluster s" "dv_key v = k" "service_put v s0 s1" "set_put v s1 s2"
    "claim_put v s2 s3" "budget_put v s3 s4" "sets (cluster s4) k = Some sts"
    "status_put v (sint (sts_ReadyReplicas sts) \<ge> 1) s4 t" "n = (if sint (sts_ReadyReplicas sts) \<ge> 1 then 0 else requeueWait)"
proof -
  obtain x s0 where g: "Get_DezhanVault r k s = (x, s0)" by fastforce
  have "x \<noteq> Inl e" for e
    using get_vault [OF g] assms(1,2) g
    by (cases e) (auto simp: Reconcile_def io_try_Some api_def IgnoreNotFound_def io_throw_def)
  with get_vault [OF g] assms(2) have x: "x = Inr vault" and c0: "cluster s0 = cluster s" and k: "meta_key (dv_Meta vault) = k"
    by (cases x; auto)+
  have v: "dv_key v = k" using k by (simp add: v_def meta_key_def)
  from assms(1) x g assms(3) obtain s1 s2 s3 s4 sts s5 where run:
    "reconcileService r v s0 = Some (Inr (), s1)" "reconcileStatefulSet r v s1 = Some (Inr (), s2)"
    "reconcilePVCExpansion r v s2 = Some (Inr (), s3)" "reconcilePDB r v s3 = Some (Inr (), s4)"
    "Get_StatefulSet r k s4 = (Inr sts, s5)"
    "updateStatus r v (sint (sts_ReadyReplicas sts) \<ge> 1) s5 = Some (Inr (), t)"
    "n = (if sint (sts_ReadyReplicas sts) \<ge> 1 then 0 else requeueWait)"
    unfolding Reconcile_def io_try_Some [of "api (Get_DezhanVault r k)"]
    by (auto simp: io_try_Inr fail_Inr api_def v_def Let_def io_return_def)
  note puts = io_wlp_result [OF io_wp_imp_wlp [OF reconcileService_wp] run(1)]
    io_wlp_result [OF io_wp_imp_wlp [OF reconcileStatefulSet_wp] run(2)]
    io_wlp_result [OF io_wp_imp_wlp [OF reconcilePVCExpansion_wp] run(3)]
    io_wlp_result [OF io_wp_imp_wlp [OF reconcilePDB_wp] run(4)]
  have c5: "cluster s5 = cluster s4" "sets (cluster s4) k = Some sts" using get_set [OF run(5)] by auto
  have "vaults (cluster s4) k = Some vault"
    using puts assms(2) c0 by (auto simp: service_put_def set_put_def claim_put_def budget_put_def Let_def)
  with io_wlp_result [OF io_wp_imp_wlp [OF updateStatus_wp] run(6)] c5 v
  have "status_put v (sint (sts_ReadyReplicas sts) \<ge> 1) s4 t" by (auto simp: status_put_def)
  with puts c0 v c5 run(7) show thesis by (intro that) auto
qed

text \<open>Passes as steps that keep the data: \<open>safe\<close> is closed under the combinators.\<close>

definition kept :: "'s \<Rightarrow> 's \<Rightarrow> bool" where
  "kept s t \<longleftrightarrow> data_kept (Quantity r) val (cluster s) (cluster t)"

definition safe :: "('s, api_err, 'a) io \<Rightarrow> bool" where
  "safe m \<longleftrightarrow> (\<forall>s. io_wp m (\<lambda>_. kept s) (\<lambda>_. kept s) s)"

lemma kept_same: "cluster t = cluster s \<Longrightarrow> kept s t"
  by (simp add: kept_def data_kept_refl)

lemma kept_trans: "kept s t \<Longrightarrow> kept t u \<Longrightarrow> kept s u"
  unfolding kept_def by (rule data_kept_trans)

lemma safe_after: "safe m \<Longrightarrow> kept s u \<Longrightarrow> io_wp m (\<lambda>_. kept s) (\<lambda>_. kept s) u"
  by (rule io_wp_mono [of m "\<lambda>_. kept u" "\<lambda>_. kept u"]) (auto simp: safe_def intro: kept_trans)

lemma safe_try [intro]:
  assumes "safe m" and "\<And>e. safe (h e)" and "\<And>x. safe (k x)"
  shows "safe (io_try m h k)"
  unfolding safe_def io_wp_try
proof
  fix s
  have "io_wp m (\<lambda>_. kept s) (\<lambda>_. kept s) s" using assms(1) by (simp add: safe_def)
  then show "io_wp m (\<lambda>x. io_wp (k x) (\<lambda>_. kept s) (\<lambda>_. kept s)) (\<lambda>e. io_wp (h e) (\<lambda>_. kept s) (\<lambda>_. kept s)) s"
    by (rule io_wp_mono) (auto intro: safe_after assms(2,3))
qed

lemma safe_return [intro]: "safe (io_return x)" "safe (io_throw e)"
  by (simp_all add: safe_def io_rules kept_same)

lemma safe_get [intro]: "safe (api (Get_DezhanVault r k))" "safe (api (Get_StatefulSet r k))"
  by (auto simp: safe_def io_rules intro!: kept_same split: prod.split sum.split
      dest!: get_vault [of k] get_set [of k])

lemma kept_puts:
  "service_put v s t \<Longrightarrow> kept s t" "set_put v s t \<Longrightarrow> kept s t" "claim_put v s t \<Longrightarrow> kept s t"
  "budget_put v s t \<Longrightarrow> kept s t" "status_put v ready s t \<Longrightarrow> kept s t"
  by (auto simp: kept_def data_kept_def service_put_def set_put_def claim_put_def budget_put_def status_put_def
      claim_ok_def same_template_def Let_def split: option.splits)

lemma safe_parts [intro]:
  "safe (reconcileService r v)" "safe (reconcileStatefulSet r v)" "safe (reconcilePVCExpansion r v)"
  "safe (reconcilePDB r v)" "safe (updateStatus r v ready)" "safe (fail r v reason err)"
  unfolding safe_def
  by (safe; rule io_wp_mono, rule reconcileService_wp reconcileStatefulSet_wp reconcilePVCExpansion_wp
      reconcilePDB_wp updateStatus_wp fail_wp; auto intro: kept_same kept_puts)+

lemma Reconcile_safe: "safe (Reconcile r k)"
  unfolding Reconcile_def IgnoreNotFound_def Let_def
  by (auto intro!: safe_try safe_get safe_parts safe_return split: api_err.split)

lemma op_steps_kept:
  assumes "(op_step r)\<^sup>*\<^sup>* s t"
  shows "kept s t"
  using assms
proof induction
  case (step t u)
  then obtain k x where "Reconcile r k t = Some (x, u)" by (auto elim: op_step.cases)
  with Reconcile_safe [of k] have "kept t u" by (cases x) (auto simp: safe_def io_wp_def dest: spec [of _ t])
  with step.IH show ?case by (auto simp: kept_def intro: data_kept_trans)
qed (simp add: kept_same)

text \<open>A pass reports readiness truthfully: what it writes as ready was ready.\<close>

definition honest :: "NamespacedName \<Rightarrow> 's \<Rightarrow> 's \<Rightarrow> bool" where
  "honest k s t \<longleftrightarrow> vaults (cluster t) k = vaults (cluster s) k \<or>
     (\<exists>w. vaults (cluster t) k = Some w \<and> (Ready (Status w) \<longrightarrow>
        (\<exists>x. sets (cluster t) k = Some x \<and> sint (sts_ReadyReplicas x) \<ge> 1)))"

lemma parts_vaults:
  "io_wp (reconcileService r v) (\<lambda>_ t. vaults (cluster t) = vaults (cluster s)) (\<lambda>_ t. vaults (cluster t) = vaults (cluster s)) s"
  "io_wp (reconcileStatefulSet r v) (\<lambda>_ t. vaults (cluster t) = vaults (cluster s)) (\<lambda>_ t. vaults (cluster t) = vaults (cluster s)) s"
  "io_wp (reconcilePVCExpansion r v) (\<lambda>_ t. vaults (cluster t) = vaults (cluster s)) (\<lambda>_ t. vaults (cluster t) = vaults (cluster s)) s"
  "io_wp (reconcilePDB r v) (\<lambda>_ t. vaults (cluster t) = vaults (cluster s)) (\<lambda>_ t. vaults (cluster t) = vaults (cluster s)) s"
  by (rule io_wp_mono, rule reconcileService_wp reconcileStatefulSet_wp reconcilePVCExpansion_wp reconcilePDB_wp,
      auto simp: service_put_def set_put_def claim_put_def budget_put_def Let_def)+

lemma fail_honest:
  assumes "vaults (cluster t) = vaults (cluster s)" and "dv_key v = k"
  shows "io_wp (fail r v reason err) (\<lambda>_. honest k s) (\<lambda>_. honest k s) t"
  by (rule io_wp_mono [OF fail_wp]) (use assms in \<open>auto simp: honest_def status_put_def\<close>)

lemma report_honest:
  assumes "vaults (cluster t) = vaults (cluster s)" and "dv_key v = k" and "sets (cluster t) k = Some sts"
    and "ready \<longleftrightarrow> sint (sts_ReadyReplicas sts) \<ge> 1"
  shows "io_wp (updateStatus r v ready) (\<lambda>_. honest k s) (\<lambda>_. honest k s) t"
  by (rule io_wp_mono [OF updateStatus_wp]) (use assms in \<open>auto simp: honest_def status_put_def\<close>)

lemma Reconcile_honest: "io_wp (Reconcile r k) (\<lambda>_. honest k s) (\<lambda>_. honest k s) s"
proof -
  obtain x s0 where g: "Get_DezhanVault r k s = (x, s0)" by fastforce
  note got = get_vault [OF g]
  show ?thesis
  proof (cases x)
    case (Inl e)
    with got show ?thesis
      by (cases e) (auto simp: Reconcile_def io_rules g IgnoreNotFound_def honest_def)
  next
    case (Inr vault)
    define v where "v = applyDefaults (Quantity r) vault"
    have k: "dv_key v = k" using got Inr by (auto simp: v_def meta_key_def)
    have c0: "vaults (cluster s0) = vaults (cluster s)" using got by simp
    have last: "io_wp (io_try (api (Get_StatefulSet r k)) io_throw (\<lambda>sts.
         io_try (updateStatus r v (sint (sts_ReadyReplicas sts) \<ge> 1)) io_throw (\<lambda>_.
           io_return (if sint (sts_ReadyReplicas sts) \<ge> 1 then 0 else requeueWait))))
         (\<lambda>_. honest k s) (\<lambda>_. honest k s) t" if "vaults (cluster t) = vaults (cluster s)" for t
    proof -
      obtain y u where gs: "Get_StatefulSet r k t = (y, u)" by fastforce
      from get_set [OF gs] that k show ?thesis
        by (cases y) (auto simp: io_wp_try io_wp_api gs io_wp_throw [THEN ext] io_wp_return [THEN ext] honest_def [of k s u]
            intro!: report_honest)
    qed
    show ?thesis
    proof (cases "om_DeletionTimestamp (dv_Meta vault) \<in> {None, Some 0}")
      case False
      with Inr c0 show ?thesis by (auto simp: Reconcile_def io_rules g honest_def)
    next
      case True
      have "io_wp (io_try (reconcileService r v) (fail r v ''ServiceError'') (\<lambda>_.
         io_try (reconcileStatefulSet r v) (fail r v ''StatefulSetError'') (\<lambda>_.
         io_try (reconcilePVCExpansion r v) (fail r v ''ExpansionError'') (\<lambda>_.
         io_try (reconcilePDB r v) (fail r v ''PDBError'') (\<lambda>_.
         io_try (api (Get_StatefulSet r k)) io_throw (\<lambda>sts.
           io_try (updateStatus r v (sint (sts_ReadyReplicas sts) \<ge> 1)) io_throw (\<lambda>_.
             io_return (if sint (sts_ReadyReplicas sts) \<ge> 1 then 0 else requeueWait))))))))
         (\<lambda>_. honest k s) (\<lambda>_. honest k s) s0"
        by (intro io_wp_try_keep [where V = "\<lambda>t. vaults (cluster t)" and c = "vaults (cluster s)"]
            parts_vaults c0 fail_honest k last) assumption+
      then show ?thesis using True Inr by (auto simp: Reconcile_def Let_def io_wp_try io_wp_api g v_def)
    qed
  qed
qed

end

end
