(* ===== verification/Operator_Kube.thy ===== *)
theory Operator_Kube
  imports Operator_Api
begin

text \<open>
  An API server in memory that keeps the contract \<open>kube_api\<close>, and the properties of the operator on
  any server that keeps it.
\<close>

section \<open>An API server in memory\<close>

text \<open>
  A server that keeps the contract: objects are stored with a creation time and, in the pod template,
  with the defaults Kubernetes documents for probes.  \<open>CreateOrUpdate\<close> writes unless the mutate
  function changes nothing; a second controller reference is refused; sizes are numbers of bytes.
\<close>

record kube =
  kb_Cluster :: "int cluster"
  kb_Events :: "(string \<times> string \<times> string) list"

definition created :: "ObjectMeta \<Rightarrow> ObjectMeta" where
  "created m = (if om_CreationTimestamp m = 0 then m\<lparr>om_CreationTimestamp := 1\<rparr> else m)"

definition or_default :: "'a::zero \<Rightarrow> 'a \<Rightarrow> 'a" where
  "or_default d x = (if x = 0 then d else x)"

definition default_probe :: "corev1_Probe \<Rightarrow> corev1_Probe" where
  "default_probe p = p\<lparr>pr_TimeoutSeconds := or_default 1 (pr_TimeoutSeconds p),
     pr_PeriodSeconds := or_default 10 (pr_PeriodSeconds p), pr_SuccessThreshold := or_default 1 (pr_SuccessThreshold p),
     pr_FailureThreshold := or_default 3 (pr_FailureThreshold p),
     pr_HTTPGet := map_option (\<lambda>h. if hg_Scheme h = [] then h\<lparr>hg_Scheme := ''HTTP''\<rparr> else h) (pr_HTTPGet p)\<rparr>"

definition default_container :: "Container \<Rightarrow> Container" where
  "default_container c = c\<lparr>c_ReadinessProbe := map_option default_probe (c_ReadinessProbe c),
     c_LivenessProbe := map_option default_probe (c_LivenessProbe c),
     c_StartupProbe := map_option default_probe (c_StartupProbe c)\<rparr>"

definition stored_set :: "'q StatefulSet \<Rightarrow> 'q StatefulSet" where
  "stored_set x = x\<lparr>sts_Meta := created (sts_Meta x),
     sts_PodSpec := (sts_PodSpec x)\<lparr>ps_Containers := map default_container (ps_Containers (sts_PodSpec x))\<rparr>\<rparr>"

definition upsert ::
  "(int cluster \<Rightarrow> NamespacedName \<rightharpoonup> 'o) \<Rightarrow>
     ((NamespacedName \<rightharpoonup> 'o) \<Rightarrow> int cluster \<Rightarrow> int cluster) \<Rightarrow> ('o \<Rightarrow> 'o) \<Rightarrow>
     (NamespacedName \<Rightarrow> 'o) \<Rightarrow> NamespacedName \<Rightarrow> ('o \<Rightarrow> api_err + 'o) \<Rightarrow> kube \<Rightarrow> (api_err + string) \<times> kube" where
  "upsert get upd store new k f s =
     (let cur = get (kb_Cluster s) k in
      case f (existing new (get (kb_Cluster s)) k) of
        Inl e \<Rightarrow> (Inl e, s)
      | Inr a \<Rightarrow> if cur = Some a \<and> store a = a then (Inr OperationResultNone, s)
          else (Inr (if cur = None then ''created'' else ''updated''),
                s\<lparr>kb_Cluster := upd ((get (kb_Cluster s))(k \<mapsto> store a)) (kb_Cluster s)\<rparr>))"

definition kube_fetch :: "(int cluster \<Rightarrow> NamespacedName \<rightharpoonup> 'o) \<Rightarrow> ('o \<Rightarrow> ObjectMeta) \<Rightarrow> NamespacedName \<Rightarrow> kube \<Rightarrow>
    (api_err + 'o) \<times> kube" where
  "kube_fetch get meta k s = (case get (kb_Cluster s) k of
       None \<Rightarrow> (Inl (NotFound ''not found''), s)
     | Some x \<Rightarrow> (if meta_key (meta x) = k then Inr x else Inl (ApiError ''wrong key''), s))"

definition mem_quantity :: "int quantity" where
  "mem_quantity = \<lparr>q_zero = 0, q_IsZero = (\<lambda>x. x = 0),
     q_MustParse = (\<lambda>t. if t = ''50Gi'' then 53687091200 else 0), q_Cmp = (\<lambda>a b. sgn (a - b)), q_String = Itoa\<rparr>"

definition mem_reference :: "int DezhanVault \<Rightarrow> ObjectMeta \<Rightarrow> api_err + ObjectMeta" where
  "mem_reference v m =
    (let me = (om_UID (dv_Meta v), True) in
     if list_ex (\<lambda>ref. snd ref \<and> ref \<noteq> me) (om_OwnerReferences m) then Inl (ApiError ''already owned'')
     else if me \<in> set (om_OwnerReferences m) then Inr m
     else Inr (m\<lparr>om_OwnerReferences := om_OwnerReferences m @ [me]\<rparr>))"

definition mem_kube :: "(kube, int) DezhanVaultReconciler" where
  "mem_kube = \<lparr>Get_DezhanVault = kube_fetch vaults dv_Meta, Get_StatefulSet = kube_fetch sets sts_Meta,
     Get_PVC = kube_fetch claims pvc_Meta,
     CreateOrUpdate_Service = upsert services (\<lambda>m c. c\<lparr>services := m\<rparr>) (\<lambda>x. x\<lparr>svc_Meta := created (svc_Meta x)\<rparr>) new_service,
     CreateOrUpdate_StatefulSet = upsert sets (\<lambda>m c. c\<lparr>sets := m\<rparr>) stored_set new_set,
     CreateOrUpdate_PDB = upsert budgets (\<lambda>m c. c\<lparr>budgets := m\<rparr>) (\<lambda>x. x\<lparr>pdb_Meta := created (pdb_Meta x)\<rparr>) new_budget,
     Delete_PDB = (\<lambda>k s. if budgets (kb_Cluster s) k = None then (Inl (NotFound ''not found''), s)
        else (Inr (), s\<lparr>kb_Cluster := (kb_Cluster s)\<lparr>budgets := (budgets (kb_Cluster s))(k := None)\<rparr>\<rparr>)),
     Patch_PVC = (\<lambda>p p' s. (Inr (), s\<lparr>kb_Cluster := (kb_Cluster s)\<lparr>claims :=
        (claims (kb_Cluster s))(meta_key (pvc_Meta p) \<mapsto> p')\<rparr>\<rparr>)),
     Patch_Status = (\<lambda>v v' s. (Inr (), s\<lparr>kb_Cluster := (kb_Cluster s)\<lparr>vaults :=
        (vaults (kb_Cluster s))(meta_key (dv_Meta v) \<mapsto> v\<lparr>Status := Status v'\<rparr>)\<rparr>\<rparr>)),
     SetControllerReference = mem_reference,
     SetStatusCondition = (\<lambda>cs c. filter (\<lambda>d. cond_Type d \<noteq> cond_Type c) cs @ [c]),
     Recorder = Some (\<lambda>v kind reason msg s. s\<lparr>kb_Events := kb_Events s @ [(kind, reason, msg)]\<rparr>),
     Quantity = mem_quantity\<rparr>"

lemma mem_reference_idem:
  assumes "mem_reference v m = Inr m'"
  shows "mem_reference v m' = Inr m'"
proof (cases "(om_UID (dv_Meta v), True) \<in> set (om_OwnerReferences m)")
  case True
  with assms have "m' = m" by (simp add: mem_reference_def Let_def split: if_splits)
  with assms show ?thesis by simp
next
  case False
  with assms have "m' = m\<lparr>om_OwnerReferences := om_OwnerReferences m @ [(om_UID (dv_Meta v), True)]\<rparr>"
    by (simp add: mem_reference_def Let_def split: if_splits)
  with assms show ?thesis by (simp add: mem_reference_def Let_def split: if_splits)
qed

lemma fetch_spec:
  "kube_fetch get meta k s = (x, t) \<Longrightarrow> t = s \<and> (\<forall>v. x = Inr v \<longrightarrow> get (kb_Cluster s) k = Some v \<and> meta_key (meta v) = k) \<and>
     (\<forall>m. x = Inl (NotFound m) \<longrightarrow> get (kb_Cluster s) k = None)"
  by (auto simp: kube_fetch_def split: option.splits if_splits)

lemma upsert_spec:
  assumes "upsert get upd store new k f s = (op, t)"
    and "\<And>c m. get c k = Some m \<Longrightarrow> upd ((get c)(k \<mapsto> m)) c = c"
    and "\<And>a. core (store a) = core a" and "\<And>a. good (store a)"
  shows "(\<exists>e. op = Inl e) \<and> kb_Cluster t = kb_Cluster s \<or>
     (\<exists>a b. f (existing new (get (kb_Cluster s)) k) = Inr a \<and> core b = core a \<and> good b \<and>
        kb_Cluster t = upd ((get (kb_Cluster s))(k \<mapsto> b)) (kb_Cluster s))"
proof (cases "f (existing new (get (kb_Cluster s)) k)")
  case (Inl e)
  with assms(1) show ?thesis by (auto simp: upsert_def Let_def)
next
  case (Inr a)
  have "kb_Cluster t = upd ((get (kb_Cluster s))(k \<mapsto> store a)) (kb_Cluster s)"
    using assms(1,2) Inr by (auto simp: upsert_def Let_def split: if_splits)
  with Inr assms(3,4) show ?thesis by blast
qed

lemma created_simps [simp]:
  "om_Labels (created m) = om_Labels m" "om_Annotations (created m) = om_Annotations m"
  "om_OwnerReferences (created m) = om_OwnerReferences m" "om_CreationTimestamp (created m) \<noteq> 0"
  by (simp_all add: created_def)

lemma container_core_default [simp]: "container_core (default_container c) = container_core c"
  by (simp add: container_core_def default_container_def)

lemma stored_core [simp]:
  "svc_core (x\<lparr>svc_Meta := created (svc_Meta x)\<rparr>) = svc_core x"
  "pdb_core (y\<lparr>pdb_Meta := created (pdb_Meta y)\<rparr>) = pdb_core y"
  "sts_core (stored_set z) = sts_core z" "om_CreationTimestamp (sts_Meta (stored_set z)) \<noteq> 0"
  by (simp_all add: svc_core_def pdb_core_def sts_core_def stored_set_def comp_def)

interpretation mk: kube_api mem_kube "\<lambda>n. n" kb_Cluster
proof (unfold_locales, goal_cases)
  case (1 a b)
  then show ?case by (simp add: mem_kube_def mem_quantity_def sgn_if)
next
  case (2 k s x t)
  then show ?case by (auto simp: mem_kube_def dest!: fetch_spec)
next
  case (3 k s y t)
  then show ?case by (auto simp: mem_kube_def dest!: fetch_spec)
next
  case (4 k s z t)
  then show ?case by (auto simp: mem_kube_def dest!: fetch_spec)
next
  case (5 k f s op t)
  then have "upsert services (\<lambda>m c. c\<lparr>services := m\<rparr>) (\<lambda>x. x\<lparr>svc_Meta := created (svc_Meta x)\<rparr>) new_service k f s = (op, t)"
    by (simp add: mem_kube_def)
  from upsert_spec [OF this, of svc_core "\<lambda>_. True"] show ?case by (simp add: fun_upd_idem)
next
  case (6 k g s op t)
  then have "upsert sets (\<lambda>m c. c\<lparr>sets := m\<rparr>) stored_set new_set k g s = (op, t)" by (simp add: mem_kube_def)
  from upsert_spec [OF this, of sts_core "\<lambda>b. om_CreationTimestamp (sts_Meta b) \<noteq> 0"] show ?case by (simp add: fun_upd_idem)
next
  case (7 k h s op t)
  then have "upsert budgets (\<lambda>m c. c\<lparr>budgets := m\<rparr>) (\<lambda>x. x\<lparr>pdb_Meta := created (pdb_Meta x)\<rparr>) new_budget k h s = (op, t)"
    by (simp add: mem_kube_def)
  from upsert_spec [OF this, of pdb_core "\<lambda>_. True"] show ?case by (simp add: fun_upd_idem)
next
  case (8 k s u t)
  then show ?case by (auto simp: mem_kube_def split: if_splits)
next
  case (9 p p' s u t)
  then show ?case by (auto simp: mem_kube_def)
next
  case (10 v v' s u t)
  then show ?case by (intro disjI2 exI [of _ "v\<lparr>Status := Status v'\<rparr>"]) (auto simp: mem_kube_def)
next
  case (11 recf v kind reason msg s)
  then show ?case by (auto simp: mem_kube_def)
next
  case (12 v m m')
  then show ?case by (auto simp: mem_kube_def mem_reference_def Let_def split: if_splits)
next
  case (13 cs c0)
  then show ?case by (auto simp: mem_kube_def)
qed

section \<open>Samples\<close>

definition sample_vault :: "int DezhanVault" where
  "sample_vault = \<lparr>dv_Meta = (new_meta (''ns'', ''v''))\<lparr>om_UID := ''u1'', om_CreationTimestamp := 1\<rparr>,
     Spec = \<lparr>Image = [], Port = 0, Storage = 10, StorageClassName = None, RequireAuth = True, DeleteQuorum = 0,
       ScrubIntervalSeconds = 0, SecretName = ''keys'', Resources = [], ServiceType = [], PriorityClassName = [],
       DisablePodDisruptionBudget = False\<rparr>,
     Status = \<lparr>ObservedGeneration = 0, Ready = False, Endpoint = [], Conditions = []\<rparr>\<rparr>"

definition sample_claim :: "int PersistentVolumeClaim" where
  "sample_claim = \<lparr>pvc_Meta = (new_meta (''ns'', ''data-v-0''))\<lparr>om_CreationTimestamp := 1\<rparr>,
     pvc_AccessModes = [''ReadWriteOnce''], pvc_StorageClassName = None, pvc_Requests = Some [''storage'' \<mapsto> 5],
     pvc_other = []\<rparr>"

definition sample_kube :: kube where
  "sample_kube = \<lparr>kb_Cluster = \<lparr>vaults = [(''ns'', ''v'') \<mapsto> sample_vault], services = Map.empty, sets = Map.empty,
     claims = [(''ns'', ''data-v-0'') \<mapsto> sample_claim], budgets = Map.empty\<rparr>, kb_Events = []\<rparr>"

lemmas mem_simps = mem_kube_def upsert_def kube_fetch_def existing_def mem_reference_def mem_quantity_def Let_def
  meta_key_def new_meta_def

lemma sample_reconciles: "\<exists>t. Reconcile mem_kube (''ns'', ''v'') sample_kube = Some (Inr 20, t)"
  by (simp add: Reconcile_def sample_kube_def sample_vault_def sample_claim_def mem_simps io_defs
      reconcileService_def reconcileStatefulSet_def reconcilePVCExpansion_def reconcilePDB_def updateStatus_def
      mutateService_def mutateStatefulSet_def mutatePDB_def new_service_def new_set_def new_budget_def
      Eventf_def applyDefaults_def OperationResultNone_def pvcName_def dataVolume_def storage_request_def
      stored_set_def created_def requeueWait_def)

section \<open>Properties\<close>



text \<open>
  C6: The operator cannot lose data.  Over any sequence of passes for any resources, whatever each pass
  returns: no data claim disappears, shrinks or changes its access modes or class; no created
  stateful set disappears or changes its selector, service name or claim templates; no service
  and no resource disappears, and no resource's specification changes.  And every pass returns.
\<close>

theorem Reconcile_keeps_data:
  assumes "kube_api r val cluster" and "(op_step r)\<^sup>*\<^sup>* s t"
  shows "data_kept (Quantity r) val (cluster s) (cluster t) \<and> (\<exists>x u. Reconcile r k t = Some (x, u))"
proof -
  have "\<exists>x u. Reconcile r k t = Some (x, u)"
    using kube_api.Reconcile_honest [OF assms(1)] by (rule io_wp_returns)
  with kube_api.op_steps_kept [OF assms] kube_api.kept_def [OF assms(1)] show ?thesis by blast
qed

theorem Reconcile_keeps_data_witness:
  "\<exists>t p. Reconcile mem_kube (''ns'', ''v'') sample_kube = Some (Inr 20, t) \<and>
     claims (kb_Cluster t) (''ns'', ''data-v-0'') = Some p \<and> storage_request mem_quantity p \<ge> 5"
proof -
  obtain t where t: "Reconcile mem_kube (''ns'', ''v'') sample_kube = Some (Inr 20, t)"
    using sample_reconciles by blast
  then have "(op_step mem_kube)\<^sup>*\<^sup>* sample_kube t" by (intro r_into_rtranclp) (rule op_step.reconcile)
  from Reconcile_keeps_data [OF mk.kube_api_axioms this]
  have "data_kept mem_quantity (\<lambda>n. n) (kb_Cluster sample_kube) (kb_Cluster t)"
    by (simp add: mem_kube_def)
  moreover have "claims (kb_Cluster sample_kube) (''ns'', ''data-v-0'') = Some sample_claim"
    "storage_request mem_quantity sample_claim = 5"
    by (simp_all add: sample_kube_def sample_claim_def storage_request_def)
  ultimately have "\<exists>p. claims (kb_Cluster t) (''ns'', ''data-v-0'') = Some p \<and> 5 \<le> storage_request mem_quantity p"
    unfolding data_kept_def by metis
  with t show ?thesis by blast
qed

text \<open>
  Readiness is reported truthfully: whatever a pass returns, if the resource's status says ready
  afterwards, either this pass did not touch the resource, or its stateful set has a ready replica.
\<close>

lemma Reconcile_ready_honest:
  assumes "kube_api r val cluster" and "Reconcile r k s = Some (x, t)"
    and "vaults (cluster t) k = Some w" "Ready (Status w)" and "vaults (cluster s) k \<noteq> Some w"
  shows "\<exists>sts. sets (cluster t) k = Some sts \<and> sint (sts_ReadyReplicas sts) \<ge> 1"
proof -
  have "kube_api.honest cluster k s t"
    using kube_api.Reconcile_honest [OF assms(1), of k s] assms(2) by (cases x) (simp_all add: io_wp_def)
  then show ?thesis using assms(3-5) by (auto simp: kube_api.honest_def [OF assms(1)])
qed

text \<open>A cluster whose stateful set has a ready replica.\<close>

definition ready_kube :: kube where
  "ready_kube = sample_kube\<lparr>kb_Cluster := (kb_Cluster sample_kube)\<lparr>
     sets := [(''ns'', ''v'') \<mapsto> (new_set (''ns'', ''v''))\<lparr>sts_ReadyReplicas := 1\<rparr>]\<rparr>\<rparr>"

text \<open>
  Setting the desired state twice is setting it once.  On a stateful set that exists, the mutate
  function applied to its own result changes nothing, and it leaves containers other than the
  vault's, and every field it does not name, as they are.
\<close>

lemma mutateStatefulSet_idempotent:
  assumes "kube_api r val cluster"
    and "\<forall>m m'. SetControllerReference r v m = Inr m' \<longrightarrow> SetControllerReference r v m' = Inr m'"
    and "om_CreationTimestamp (sts_Meta x) \<noteq> 0" and "mutateStatefulSet r v x = Inr y"
  shows "mutateStatefulSet r v y = Inr y \<and>
     filter (\<lambda>c. c_Name c \<noteq> containerName) (ps_Containers (sts_PodSpec y)) =
       filter (\<lambda>c. c_Name c \<noteq> containerName) (ps_Containers (sts_PodSpec x)) \<and>
     ps_other (sts_PodSpec y) = ps_other (sts_PodSpec x) \<and> sts_other y = sts_other x"
proof -
  let ?n = "dv_Name v"
  let ?m = "(sts_Meta x)\<lparr>om_Labels := mergeLabels (om_Labels (sts_Meta x)) (labelsFor ?n)\<rparr>"
  from assms(3,4) obtain m' where m': "SetControllerReference r v ?m = Inr m'"
    and y: "y = x\<lparr>sts_Meta := m', sts_Replicas := Some 1, sts_MinReadySeconds := 10,
      sts_RetentionPolicy := Some (''Retain'', ''Retain''),
      sts_TemplateLabels := mergeLabels (sts_TemplateLabels x) (labelsFor ?n),
      sts_PodSpec := applyPodSpec (sts_PodSpec x) v\<rparr>"
    by (auto simp: mutateStatefulSet_def Let_def map_sum_def split: sum.splits)
  from kube_api.reference_fields [OF assms(1) m'] have m: "om_Labels m' = om_Labels ?m" "om_CreationTimestamp m' \<noteq> 0"
    using assms(3) by simp_all
  have "m'\<lparr>om_Labels := mergeLabels (om_Labels m') (labelsFor ?n)\<rparr> = m'"
    by (simp add: m mergeLabels_idem)
  with assms(2) m' have "SetControllerReference r v (m'\<lparr>om_Labels := mergeLabels (om_Labels m') (labelsFor ?n)\<rparr>) = Inr m'"
    by simp
  with m(2) have "mutateStatefulSet r v y = Inr y"
    by (simp add: mutateStatefulSet_def y applyPodSpec_idem mergeLabels_idem)
  then show ?thesis by (simp add: y applyPodSpec_def update_container_others)
qed

text \<open>
  C40: Every pass rewrites a stateful set that carries the API server's probe defaults.  The operator
  replaces the container's probes whole, with a zero success threshold, so on a stored set
  whose vault container has a readiness probe with the threshold the server filled in, the
  mutate function never returns its argument, and \<open>CreateOrUpdate\<close> writes.
\<close>

theorem mutateStatefulSet_drops_defaults:
  assumes "find (\<lambda>c. c_Name c = containerName) (ps_Containers (sts_PodSpec x)) = Some c"
    and "c_ReadinessProbe c = Some p" and "pr_SuccessThreshold p \<noteq> 0"
  shows "mutateStatefulSet r v x \<noteq> Inr x"
proof
  assume "mutateStatefulSet r v x = Inr x"
  then have "ps_Containers (sts_PodSpec x) = ps_Containers (applyPodSpec (sts_PodSpec x) v)"
    by (rule arg_cong [OF mutateStatefulSet_PodSpec])
  then have "ps_Containers (sts_PodSpec x) = update_container containerName (applyContainer v) (ps_Containers (sts_PodSpec x))"
    by (simp add: applyPodSpec_def)
  then have "find (\<lambda>c. c_Name c = containerName) (ps_Containers (sts_PodSpec x)) = Some (applyContainer v c)"
    using find_update_container [OF _ assms(1), of "applyContainer v"] by simp
  then have "c = applyContainer v c" using assms(1) by simp
  then have "c_ReadinessProbe c = c_ReadinessProbe (applyContainer v c)" by (rule arg_cong)
  with assms(2) have "p = healthProbe (Port (Spec v)) 3" by (simp add: applyContainer_def)
  with assms(3) show False by (simp add: healthProbe_def)
qed

theorem mutateStatefulSet_drops_defaults_witness:
  "\<exists>y. mutateStatefulSet mem_kube sample_vault (new_set (''ns'', ''v'')) = Inr y \<and>
     mutateStatefulSet mem_kube sample_vault (stored_set y) \<noteq> Inr (stored_set y)"
proof -
  have "\<exists>y. mutateStatefulSet mem_kube sample_vault (new_set (''ns'', ''v'')) = Inr y"
    by (simp add: mutateStatefulSet_def mem_kube_def mem_reference_def Let_def new_set_def new_meta_def)
  then obtain y where y: "mutateStatefulSet mem_kube sample_vault (new_set (''ns'', ''v'')) = Inr y" by blast
  let ?c = "default_container (applyContainer sample_vault (new_container containerName))"
  have "find (\<lambda>c. c_Name c = containerName) (ps_Containers (sts_PodSpec (stored_set y))) = Some ?c"
    using mutateStatefulSet_PodSpec [OF y]
    by (simp add: stored_set_def applyPodSpec_def new_set_def new_pod_spec_def default_container_def new_container_def)
  moreover have "\<exists>p. c_ReadinessProbe ?c = Some p \<and> pr_SuccessThreshold p \<noteq> 0"
    by (simp add: default_container_def applyContainer_def default_probe_def or_default_def)
  ultimately show ?thesis using y mutateStatefulSet_drops_defaults by blast
qed

end
