(* ===== verification/Operator_DeepCopy.thy ===== *)
theory Operator_DeepCopy
  imports Operator "HOL-Library.Sublist"
begin

text \<open>
  The deep copies of \<open>src/operator/api/v1alpha1/zz_generated.deepcopy.go\<close>, over an explicit memory: a Go pointer is an
  address, a slice an array's address with an offset and a length, and a struct holds the addresses its
  fields hold.  The reconciler takes a copy of the resource before it changes the status in place and
  sends the difference to the API server, so the copy must share nothing with the original.

  The \<open>DeepCopy\<close> functions of \<open>metav1\<close>, \<open>corev1\<close> and \<open>resource\<close> are parameters; the locale \<open>deep_copy\<close> is what each
  promises, and each function of this file is proved to promise it too.
\<close>

section \<open>Memory\<close>

text \<open>Two memories agree on a set of addresses that both have.\<close>

definition agree :: "nat set \<Rightarrow> 'k list \<Rightarrow> 'k list \<Rightarrow> bool" where
  "agree S h h' \<longleftrightarrow> (\<forall>i\<in>S. i < length h \<and> i < length h' \<and> h ! i = h' ! i)"

lemma agree_mono: "agree T h h' \<Longrightarrow> S \<subseteq> T \<Longrightarrow> agree S h h'"
  by (auto simp: agree_def)

lemma agree_prefix: "S \<subseteq> {..<length h} \<Longrightarrow> prefix h h' \<Longrightarrow> agree S h h'"
  by (auto simp: agree_def prefix_def nth_append)

lemma agree_trans: "agree S h h' \<Longrightarrow> agree S h' h'' \<Longrightarrow> agree S h h''"
  by (auto simp: agree_def)

lemma prefix_length: "prefix h h' \<Longrightarrow> length h \<le> length h'"
  by (auto simp: prefix_def)

text \<open>What a deep copy promises: \<open>den\<close> is the value a struct stands for, \<open>refs\<close> the addresses it reaches.\<close>

locale deep_copy =
  fixes den :: "'a \<Rightarrow> 'k list \<Rightarrow> 'v"
    and refs :: "'a \<Rightarrow> 'k list \<Rightarrow> nat set"
    and copy :: "'a \<Rightarrow> 'k list \<Rightarrow> 'a \<times> 'k list"
  assumes refs_local: "agree (refs x h) h h2 \<Longrightarrow> refs x h2 = refs x h"
    and den_local: "agree (refs x h) h h2 \<Longrightarrow> den x h2 = den x h"
    and copy_spec: "refs x h \<subseteq> {..<length h} \<Longrightarrow> copy x h = (y, h') \<Longrightarrow>
      prefix h h' \<and> den y h' = den x h \<and> refs y h' \<subseteq> {length h..<length h'}"
begin

lemma den_prefix: "refs x h \<subseteq> {..<length h} \<Longrightarrow> prefix h h' \<Longrightarrow> den x h' = den x h"
  by (rule den_local) (rule agree_prefix)

lemma refs_prefix: "refs x h \<subseteq> {..<length h} \<Longrightarrow> prefix h h' \<Longrightarrow> refs x h' = refs x h"
  by (rule refs_local) (rule agree_prefix)

end

section \<open>Lists, slices and pointers\<close>

fun copy_list :: "('a \<Rightarrow> 'k list \<Rightarrow> 'a \<times> 'k list) \<Rightarrow> 'a list \<Rightarrow> 'k list \<Rightarrow> 'a list \<times> 'k list" where
  "copy_list copy [] h = ([], h)"
| "copy_list copy (x # xs) h = (let (y, h1) = copy x h; (ys, h2) = copy_list copy xs h1 in (y # ys, h2))"

definition den_list :: "('a \<Rightarrow> 'k list \<Rightarrow> 'v) \<Rightarrow> 'a list \<Rightarrow> 'k list \<Rightarrow> 'v list" where
  "den_list den xs h = map (\<lambda>x. den x h) xs"

definition refs_list :: "('a \<Rightarrow> 'k list \<Rightarrow> nat set) \<Rightarrow> 'a list \<Rightarrow> 'k list \<Rightarrow> nat set" where
  "refs_list refs xs h = (\<Union>x\<in>set xs. refs x h)"

context deep_copy begin

lemma copy_list_spec:
  assumes "refs_list refs xs h \<subseteq> {..<length h}" and "copy_list copy xs h = (ys, h')"
  shows "prefix h h' \<and> den_list den ys h' = den_list den xs h \<and> refs_list refs ys h' \<subseteq> {length h..<length h'}"
  using assms
proof (induction xs arbitrary: h ys)
  case (Cons x xs)
  obtain y h1 zs where c: "copy x h = (y, h1)" "copy_list copy xs h1 = (zs, h')" and ys: "ys = y # zs"
    using Cons.prems(2) by (auto split: prod.splits)
  have x: "refs x h \<subseteq> {..<length h}" and xs: "refs_list refs xs h \<subseteq> {..<length h}"
    using Cons.prems(1) by (auto simp: refs_list_def)
  have y: "prefix h h1" "den y h1 = den x h" "refs y h1 \<subseteq> {length h..<length h1}" using copy_spec [OF x c(1)] by simp_all
  have keep: "refs z h1 = refs z h" "den z h1 = den z h" if "z \<in> set xs" for z
    using that xs y(1) by (auto simp: refs_list_def intro!: refs_prefix den_prefix)
  have "refs_list refs xs h1 \<subseteq> {..<length h1}"
    using xs keep(1) prefix_length [OF y(1)] by (fastforce simp: refs_list_def)
  note zs = Cons.IH [OF this c(2)]
  have y1: "refs y h1 \<subseteq> {..<length h1}" using y(3) by auto
  have "prefix h1 h'" using zs by simp
  note y' = refs_prefix [OF y1 this] den_prefix [OF y1 this]
  have len: "length h \<le> length h1" "length h1 \<le> length h'" using prefix_length [OF y(1)] prefix_length zs by blast+
  have "prefix h h'" using y(1) zs prefix_order.trans by blast
  moreover have "den_list den ys h' = den_list den (x # xs) h"
    using y(2) y'(2) zs keep(2) by (simp add: ys den_list_def)
  moreover have "refs_list refs ys h' = refs y h1 \<union> refs_list refs zs h'" using y'(1) by (simp add: ys refs_list_def)
  moreover have "refs y h1 \<subseteq> {length h..<length h'}" "refs_list refs zs h' \<subseteq> {length h..<length h'}"
    using y(3) zs len by (auto dest!: subsetD)
  ultimately show ?case by simp
qed (simp add: den_list_def refs_list_def)

lemma deep_copy_list: "deep_copy (den_list den) (refs_list refs) (copy_list copy)"
proof
  fix xs h h2
  assume "agree (refs_list refs xs h) h h2"
  then have *: "agree (refs x h) h h2" if "x \<in> set xs" for x using that by (auto simp: refs_list_def intro: agree_mono)
  show "refs_list refs xs h2 = refs_list refs xs h" using refs_local [OF *] by (simp add: refs_list_def)
  show "den_list den xs h2 = den_list den xs h" using den_local [OF *] by (simp add: den_list_def)
qed (use copy_list_spec in blast)+

end

text \<open>
  A slice: the address of its array, an offset and a length.  \<open>mk\<close> and \<open>elems\<close> make a memory cell of an array and read
  it.  The array of the copy is allocated when its elements are known; that moves its address only.
\<close>

datatype slice = NilSlice | Slice nat nat nat

definition slice_elems :: "('k \<Rightarrow> 'a list) \<Rightarrow> slice \<Rightarrow> 'k list \<Rightarrow> 'a list" where
  "slice_elems elems s h = (case s of NilSlice \<Rightarrow> [] | Slice a i n \<Rightarrow> take n (drop i (elems (h ! a))))"

definition copy_slice ::
  "('k \<Rightarrow> 'a list) \<Rightarrow> ('a list \<Rightarrow> 'k) \<Rightarrow> ('a \<Rightarrow> 'k list \<Rightarrow> 'a \<times> 'k list) \<Rightarrow> slice \<Rightarrow> 'k list \<Rightarrow> slice \<times> 'k list" where
  "copy_slice elems mk copy s h = (if s = NilSlice then (NilSlice, h) else
     let (ys, h1) = copy_list copy (slice_elems elems s h) h in (Slice (length h1) 0 (length ys), h1 @ [mk ys]))"

definition den_slice :: "('k \<Rightarrow> 'a list) \<Rightarrow> ('a \<Rightarrow> 'k list \<Rightarrow> 'v) \<Rightarrow> slice \<Rightarrow> 'k list \<Rightarrow> 'v list option" where
  "den_slice elems den s h = (if s = NilSlice then None else Some (den_list den (slice_elems elems s h) h))"

definition refs_slice :: "('k \<Rightarrow> 'a list) \<Rightarrow> ('a \<Rightarrow> 'k list \<Rightarrow> nat set) \<Rightarrow> slice \<Rightarrow> 'k list \<Rightarrow> nat set" where
  "refs_slice elems refs s h = (case s of NilSlice \<Rightarrow> {} | Slice a i n \<Rightarrow> insert a (refs_list refs (slice_elems elems s h) h))"

context deep_copy begin

lemma deep_copy_slice:
  assumes "\<And>xs. elems (mk xs) = xs"
  shows "deep_copy (den_slice elems den) (refs_slice elems refs) (copy_slice elems mk copy)"
proof -
  note l = deep_copy_list
  show ?thesis
  proof
    fix s h h2
    assume a: "agree (refs_slice elems refs s h) h h2"
    have e: "slice_elems elems s h2 = slice_elems elems s h"
      using a by (auto simp: slice_elems_def refs_slice_def agree_def split: slice.split)
    show "refs_slice elems refs s h2 = refs_slice elems refs s h"
    proof (cases s)
      case (Slice x i n)
      then have "agree (refs_list refs (slice_elems elems s h) h) h h2" using a by (auto simp: refs_slice_def intro: agree_mono)
      from deep_copy.refs_local [OF l this] Slice e show ?thesis by (simp add: refs_slice_def)
    qed (simp add: refs_slice_def)
    show "den_slice elems den s h2 = den_slice elems den s h"
    proof (cases s)
      case (Slice x i n)
      then have "agree (refs_list refs (slice_elems elems s h) h) h h2" using a by (auto simp: refs_slice_def intro: agree_mono)
      from deep_copy.den_local [OF l this] Slice e show ?thesis by (simp add: den_slice_def)
    qed (simp add: den_slice_def)
  next
    fix s h y h'
    assume r: "refs_slice elems refs s h \<subseteq> {..<length h}" and c: "copy_slice elems mk copy s h = (y, h')"
    have "prefix h h' \<and> den_slice elems den y h' = den_slice elems den s h \<and> refs_slice elems refs y h' \<subseteq> {length h..<length h'}"
    proof (cases "s = NilSlice")
      case False
      then have xs: "refs_list refs (slice_elems elems s h) h \<subseteq> {..<length h}" using r by (cases s) (auto simp: refs_slice_def)
      obtain ys h1 where k: "copy_list copy (slice_elems elems s h) h = (ys, h1)"
        and y: "y = Slice (length h1) 0 (length ys)" "h' = h1 @ [mk ys]"
        using c False by (auto simp: copy_slice_def split: prod.splits)
      note ys = copy_list_spec [OF xs k]
      have fresh: "refs_list refs ys h1 \<subseteq> {..<length h1}" using ys by auto
      have p: "prefix h1 h'" by (simp add: y(2))
      have "slice_elems elems y h' = ys" by (simp add: y slice_elems_def assms)
      moreover have "refs_list refs ys h' = refs_list refs ys h1" "den_list den ys h' = den_list den ys h1"
        by (fact deep_copy.refs_prefix [OF l fresh p] deep_copy.den_prefix [OF l fresh p])+
      moreover have "refs_slice elems refs y h' = insert (length h1) (refs_list refs ys h1)"
        using calculation by (simp add: refs_slice_def y(1))
      moreover have "length h \<le> length h1" using ys prefix_length by blast
      moreover have "prefix h h'" using ys y(2) by simp
      moreover have "den_slice elems den y h' = den_slice elems den s h"
        using calculation ys False by (simp add: den_slice_def y(1))
      moreover have "insert (length h1) (refs_list refs ys h1) \<subseteq> {length h..<length h'}"
        using ys calculation(5) by (auto simp: y(2))
      ultimately show ?thesis by simp
    qed (use c in \<open>auto simp: copy_slice_def den_slice_def refs_slice_def\<close>)
    then show "prefix h h' \<and> den_slice elems den y h' = den_slice elems den s h \<and> refs_slice elems refs y h' \<subseteq> {length h..<length h'}" .
  qed
qed

end

text \<open>Two parts copied one after the other, and a struct whose parts are copied.\<close>

definition copy_pair ::
  "('a \<Rightarrow> 'k list \<Rightarrow> 'a \<times> 'k list) \<Rightarrow> ('b \<Rightarrow> 'k list \<Rightarrow> 'b \<times> 'k list) \<Rightarrow> 'a \<times> 'b \<Rightarrow> 'k list \<Rightarrow> ('a \<times> 'b) \<times> 'k list" where
  "copy_pair c1 c2 p h = (let (a, h1) = c1 (fst p) h; (b, h2) = c2 (snd p) h1 in ((a, b), h2))"

definition den_pair :: "('a \<Rightarrow> 'k list \<Rightarrow> 'v) \<Rightarrow> ('b \<Rightarrow> 'k list \<Rightarrow> 'w) \<Rightarrow> 'a \<times> 'b \<Rightarrow> 'k list \<Rightarrow> 'v \<times> 'w" where
  "den_pair d1 d2 p h = (d1 (fst p) h, d2 (snd p) h)"

definition refs_pair :: "('a \<Rightarrow> 'k list \<Rightarrow> nat set) \<Rightarrow> ('b \<Rightarrow> 'k list \<Rightarrow> nat set) \<Rightarrow> 'a \<times> 'b \<Rightarrow> 'k list \<Rightarrow> nat set" where
  "refs_pair r1 r2 p h = r1 (fst p) h \<union> r2 (snd p) h"

lemma deep_copy_pair:
  assumes d1: "deep_copy d1 r1 c1" and d2: "deep_copy d2 r2 c2"
  shows "deep_copy (den_pair d1 d2) (refs_pair r1 r2) (copy_pair c1 c2)"
proof
  fix p h h2
  assume a: "agree (refs_pair r1 r2 p h) h h2"
  have a1: "agree (r1 (fst p) h) h h2" by (rule agree_mono [OF a]) (simp add: refs_pair_def)
  have a2: "agree (r2 (snd p) h) h h2" by (rule agree_mono [OF a]) (simp add: refs_pair_def)
  show "refs_pair r1 r2 p h2 = refs_pair r1 r2 p h"
    by (simp add: refs_pair_def deep_copy.refs_local [OF d1 a1] deep_copy.refs_local [OF d2 a2])
  show "den_pair d1 d2 p h2 = den_pair d1 d2 p h"
    by (simp add: den_pair_def deep_copy.den_local [OF d1 a1] deep_copy.den_local [OF d2 a2])
next
  fix p h q h'
  assume r: "refs_pair r1 r2 p h \<subseteq> {..<length h}" and c: "copy_pair c1 c2 p h = (q, h')"
  obtain a h1 b where k: "c1 (fst p) h = (a, h1)" "c2 (snd p) h1 = (b, h')" and q: "q = (a, b)"
    using c by (auto simp: copy_pair_def split: prod.splits)
  have r1: "r1 (fst p) h \<subseteq> {..<length h}" and r2: "r2 (snd p) h \<subseteq> {..<length h}" using r by (auto simp: refs_pair_def)
  have x: "prefix h h1" "d1 a h1 = d1 (fst p) h" "r1 a h1 \<subseteq> {length h..<length h1}"
    using deep_copy.copy_spec [OF d1 r1 k(1)] by simp_all
  have y2: "r2 (snd p) h1 = r2 (snd p) h" by (rule deep_copy.refs_prefix [OF d2 r2 x(1)])
  have "r2 (snd p) h1 \<subseteq> {..<length h1}" unfolding y2 using r2 prefix_length [OF x(1)] by auto
  from deep_copy.copy_spec [OF d2 this k(2)] have
    y: "prefix h1 h'" "d2 b h' = d2 (snd p) h1" "r2 b h' \<subseteq> {length h1..<length h'}" by simp_all
  have x1: "r1 a h1 \<subseteq> {..<length h1}" using x(3) by auto
  have "d1 a h' = d1 (fst p) h" "r1 a h' = r1 a h1" "d2 b h' = d2 (snd p) h"
    using deep_copy.den_prefix [OF d1 x1 y(1)] deep_copy.refs_prefix [OF d1 x1 y(1)] x(2) y(2)
      deep_copy.den_prefix [OF d2 r2 x(1)] by simp_all
  moreover have "prefix h h'" using x(1) y(1) prefix_order.trans by blast
  moreover have "r1 a h1 \<union> r2 b h' \<subseteq> {length h..<length h'}"
    using x(3) y(3) prefix_length [OF x(1)] prefix_length [OF y(1)] by fastforce
  ultimately show "prefix h h' \<and> den_pair d1 d2 q h' = den_pair d1 d2 p h \<and> refs_pair r1 r2 q h' \<subseteq> {length h..<length h'}"
    by (simp add: q den_pair_def refs_pair_def)
qed

lemma deep_copy_struct:
  assumes "deep_copy d r c" and "\<And>x t. get (put x t) = t" and "\<And>x t v. F (put x t) v = F x v"
    and "\<And>x h. den x h = F x (d (get x) h)" and "\<And>x h. refs x h = r (get x) h"
    and "\<And>x h. copy x h = (let (t, h') = c (get x) h in (put x t, h'))"
  shows "deep_copy den refs copy"
proof
  fix x h h2
  assume "agree (refs x h) h h2"
  then show "refs x h2 = refs x h" "den x h2 = den x h"
    using deep_copy.refs_local [OF assms(1)] deep_copy.den_local [OF assms(1)] by (simp_all add: assms(4,5))
next
  fix x h y h'
  assume "refs x h \<subseteq> {..<length h}" "copy x h = (y, h')"
  then obtain t where t: "c (get x) h = (t, h')" "y = put x t" and r: "r (get x) h \<subseteq> {..<length h}"
    by (auto simp: assms(5,6) split: prod.splits)
  from deep_copy.copy_spec [OF assms(1) r t(1)]
  show "prefix h h' \<and> den y h' = den x h \<and> refs y h' \<subseteq> {length h..<length h'}" by (simp add: assms(2-5) t(2))
qed

section \<open>The structs\<close>

text \<open>
  The structs of \<open>dezhanvault_types.go\<close> as memory holds them: \<open>g_StorageClassName\<close> is a pointer, \<open>g_Conditions\<close> and
  \<open>g_Items\<close> are slices; \<open>'m\<close>, \<open>'l\<close>, \<open>'q\<close>, \<open>'r\<close> and \<open>'c\<close> are the foreign structs \<open>ObjectMeta\<close>, \<open>ListMeta\<close>, \<open>Quantity\<close>,
  \<open>ResourceRequirements\<close> and \<open>Condition\<close>, and \<open>OtherCell\<close> the memory they allocate.
\<close>

record ('q, 'r) go_Spec =
  g_Image :: string
  g_Port :: int32
  g_Storage :: 'q
  g_StorageClassName :: "nat option"
  g_RequireAuth :: bool
  g_DeleteQuorum :: int32
  g_ScrubIntervalSeconds :: int32
  g_SecretName :: string
  g_Resources :: 'r
  g_ServiceType :: string
  g_PriorityClassName :: string
  g_DisablePodDisruptionBudget :: bool

record go_Status =
  g_ObservedGeneration :: int64
  g_Ready :: bool
  g_Endpoint :: string
  g_Conditions :: slice

record ('m, 'q, 'r) go_Vault =
  g_TypeMeta :: "string \<times> string"
  g_ObjectMeta :: 'm
  g_Spec :: "('q, 'r) go_Spec"
  g_Status :: go_Status

record 'l go_List =
  g_ListTypeMeta :: "string \<times> string"
  g_ListMeta :: 'l
  g_Items :: slice

datatype ('f, 'm, 'l, 'q, 'r, 'c) cell =
    StringCell string
  | ConditionArray "'c list"
  | SpecCell "('q, 'r) go_Spec"
  | StatusCell go_Status
  | VaultCell "('m, 'q, 'r) go_Vault"
  | VaultArray "('m, 'q, 'r) go_Vault list"
  | ListCell "'l go_List"
  | OtherCell 'f

type_synonym ('f, 'm, 'l, 'q, 'r, 'c) mem = "('f, 'm, 'l, 'q, 'r, 'c) cell list"

text \<open>Arrays are read through a pointer of their type; Go's types rule the other cells out.\<close>

fun conditions_at :: "('f, 'm, 'l, 'q, 'r, 'c) cell \<Rightarrow> 'c list" where
  "conditions_at (ConditionArray cs) = cs"
| "conditions_at _ = []"

fun vaults_at :: "('f, 'm, 'l, 'q, 'r, 'c) cell \<Rightarrow> ('m, 'q, 'r) go_Vault list" where
  "vaults_at (VaultArray vs) = vs"
| "vaults_at _ = []"

fun string_at :: "('f, 'm, 'l, 'q, 'r, 'c) cell \<Rightarrow> string" where
  "string_at (StringCell s) = s"
| "string_at _ = []"

section \<open>The copies\<close>

record ('f, 'm, 'l, 'q, 'r, 'c) apimachinery =
  ObjectMeta_DeepCopyInto :: "'m \<Rightarrow> ('f, 'm, 'l, 'q, 'r, 'c) mem \<Rightarrow> 'm \<times> ('f, 'm, 'l, 'q, 'r, 'c) mem"
  ListMeta_DeepCopyInto :: "'l \<Rightarrow> ('f, 'm, 'l, 'q, 'r, 'c) mem \<Rightarrow> 'l \<times> ('f, 'm, 'l, 'q, 'r, 'c) mem"
  Quantity_DeepCopy :: "'q \<Rightarrow> ('f, 'm, 'l, 'q, 'r, 'c) mem \<Rightarrow> 'q \<times> ('f, 'm, 'l, 'q, 'r, 'c) mem"
  Resources_DeepCopyInto :: "'r \<Rightarrow> ('f, 'm, 'l, 'q, 'r, 'c) mem \<Rightarrow> 'r \<times> ('f, 'm, 'l, 'q, 'r, 'c) mem"
  Condition_DeepCopyInto :: "'c \<Rightarrow> ('f, 'm, 'l, 'q, 'r, 'c) mem \<Rightarrow> 'c \<times> ('f, 'm, 'l, 'q, 'r, 'c) mem"

text \<open>
  \<open>DeepCopyInto\<close> gives the struct that \<open>*out\<close> holds at the end; it starts as \<open>*in\<close>.  \<open>copy_string\<close> is the copy of
  the pointer field.
\<close>

definition copy_string :: "nat option \<Rightarrow> ('f, 'm, 'l, 'q, 'r, 'c) mem \<Rightarrow> nat option \<times> ('f, 'm, 'l, 'q, 'r, 'c) mem" where
  "copy_string p h = (case p of None \<Rightarrow> (None, h) | Some a \<Rightarrow> (Some (length h), h @ [StringCell (string_at (h ! a))]))"

definition Spec_DeepCopyInto ::
  "('f, 'm, 'l, 'q, 'r, 'c) apimachinery \<Rightarrow> ('q, 'r) go_Spec \<Rightarrow> ('f, 'm, 'l, 'q, 'r, 'c) mem \<Rightarrow>
     ('q, 'r) go_Spec \<times> ('f, 'm, 'l, 'q, 'r, 'c) mem" where
  "Spec_DeepCopyInto am x h =
    (let (q, h1) = Quantity_DeepCopy am (g_Storage x) h;
         (s, h2) = copy_string (g_StorageClassName x) h1;
         (r, h3) = Resources_DeepCopyInto am (g_Resources x) h2
     in (x\<lparr>g_Storage := q, g_StorageClassName := s, g_Resources := r\<rparr>, h3))"

definition Status_DeepCopyInto ::
  "('f, 'm, 'l, 'q, 'r, 'c) apimachinery \<Rightarrow> go_Status \<Rightarrow> ('f, 'm, 'l, 'q, 'r, 'c) mem \<Rightarrow>
     go_Status \<times> ('f, 'm, 'l, 'q, 'r, 'c) mem" where
  "Status_DeepCopyInto am x h =
    (let (cs, h1) = copy_slice conditions_at ConditionArray (Condition_DeepCopyInto am) (g_Conditions x) h
     in (x\<lparr>g_Conditions := cs\<rparr>, h1))"

definition Vault_DeepCopyInto ::
  "('f, 'm, 'l, 'q, 'r, 'c) apimachinery \<Rightarrow> ('m, 'q, 'r) go_Vault \<Rightarrow> ('f, 'm, 'l, 'q, 'r, 'c) mem \<Rightarrow>
     ('m, 'q, 'r) go_Vault \<times> ('f, 'm, 'l, 'q, 'r, 'c) mem" where
  "Vault_DeepCopyInto am x h =
    (let (m, h1) = ObjectMeta_DeepCopyInto am (g_ObjectMeta x) h;
         (sp, h2) = Spec_DeepCopyInto am (g_Spec x) h1;
         (st, h3) = Status_DeepCopyInto am (g_Status x) h2
     in (x\<lparr>g_TypeMeta := g_TypeMeta x, g_ObjectMeta := m, g_Spec := sp, g_Status := st\<rparr>, h3))"

definition List_DeepCopyInto ::
  "('f, 'm, 'l, 'q, 'r, 'c) apimachinery \<Rightarrow> 'l go_List \<Rightarrow> ('f, 'm, 'l, 'q, 'r, 'c) mem \<Rightarrow>
     'l go_List \<times> ('f, 'm, 'l, 'q, 'r, 'c) mem" where
  "List_DeepCopyInto am x h =
    (let (m, h1) = ListMeta_DeepCopyInto am (g_ListMeta x) h;
         (vs, h2) = copy_slice vaults_at VaultArray (Vault_DeepCopyInto am) (g_Items x) h1
     in (x\<lparr>g_ListTypeMeta := g_ListTypeMeta x, g_ListMeta := m, g_Items := vs\<rparr>, h2))"

text \<open>
  \<open>DeepCopy\<close> of a pointer: nil for nil, otherwise a new struct, filled by \<open>DeepCopyInto\<close>.  \<^term>\<open>None\<close> is a pointer to a
  struct of another type, which Go rules out.
\<close>

definition new_copy ::
  "('k \<Rightarrow> 'a option) \<Rightarrow> ('a \<Rightarrow> 'k) \<Rightarrow> ('a \<Rightarrow> 'k list \<Rightarrow> 'a \<times> 'k list) \<Rightarrow> nat option \<Rightarrow> 'k list \<Rightarrow> (nat option \<times> 'k list) option" where
  "new_copy el mk copy p h = (case p of None \<Rightarrow> Some (None, h) | Some a \<Rightarrow>
     (if length h \<le> a then None else (case el (h ! a) of None \<Rightarrow> None | Some x \<Rightarrow>
        let (y, h1) = copy x (h @ [mk x]) in Some (Some (length h), h1[length h := mk y]))))"

fun vault_at :: "('f, 'm, 'l, 'q, 'r, 'c) cell \<Rightarrow> ('m, 'q, 'r) go_Vault option" where
  "vault_at (VaultCell x) = Some x"
| "vault_at _ = None"

fun list_at :: "('f, 'm, 'l, 'q, 'r, 'c) cell \<Rightarrow> 'l go_List option" where
  "list_at (ListCell x) = Some x"
| "list_at _ = None"

fun spec_at :: "('f, 'm, 'l, 'q, 'r, 'c) cell \<Rightarrow> ('q, 'r) go_Spec option" where
  "spec_at (SpecCell x) = Some x"
| "spec_at _ = None"

fun status_at :: "('f, 'm, 'l, 'q, 'r, 'c) cell \<Rightarrow> go_Status option" where
  "status_at (StatusCell x) = Some x"
| "status_at _ = None"

definition Vault_DeepCopy :: "('f, 'm, 'l, 'q, 'r, 'c) apimachinery \<Rightarrow> nat option \<Rightarrow> ('f, 'm, 'l, 'q, 'r, 'c) mem \<Rightarrow>
    (nat option \<times> ('f, 'm, 'l, 'q, 'r, 'c) mem) option" where
  "Vault_DeepCopy am = new_copy vault_at VaultCell (Vault_DeepCopyInto am)"

definition List_DeepCopy :: "('f, 'm, 'l, 'q, 'r, 'c) apimachinery \<Rightarrow> nat option \<Rightarrow> ('f, 'm, 'l, 'q, 'r, 'c) mem \<Rightarrow>
    (nat option \<times> ('f, 'm, 'l, 'q, 'r, 'c) mem) option" where
  "List_DeepCopy am = new_copy list_at ListCell (List_DeepCopyInto am)"

definition Spec_DeepCopy :: "('f, 'm, 'l, 'q, 'r, 'c) apimachinery \<Rightarrow> nat option \<Rightarrow> ('f, 'm, 'l, 'q, 'r, 'c) mem \<Rightarrow>
    (nat option \<times> ('f, 'm, 'l, 'q, 'r, 'c) mem) option" where
  "Spec_DeepCopy am = new_copy spec_at SpecCell (Spec_DeepCopyInto am)"

definition Status_DeepCopy :: "('f, 'm, 'l, 'q, 'r, 'c) apimachinery \<Rightarrow> nat option \<Rightarrow> ('f, 'm, 'l, 'q, 'r, 'c) mem \<Rightarrow>
    (nat option \<times> ('f, 'm, 'l, 'q, 'r, 'c) mem) option" where
  "Status_DeepCopy am = new_copy status_at StatusCell (Status_DeepCopyInto am)"

text \<open>The interface value of \<open>DeepCopyObject\<close>: a nil pointer gives the nil interface, not an interface that holds nil.\<close>

datatype runtime_Object = NilObject | VaultObject "nat option" | ListObject "nat option"

definition Vault_DeepCopyObject :: "('f, 'm, 'l, 'q, 'r, 'c) apimachinery \<Rightarrow> nat option \<Rightarrow> ('f, 'm, 'l, 'q, 'r, 'c) mem \<Rightarrow>
    (runtime_Object \<times> ('f, 'm, 'l, 'q, 'r, 'c) mem) option" where
  "Vault_DeepCopyObject am p h = map_option (\<lambda>(c, h'). (if c \<noteq> None then VaultObject c else NilObject, h')) (Vault_DeepCopy am p h)"

definition List_DeepCopyObject :: "('f, 'm, 'l, 'q, 'r, 'c) apimachinery \<Rightarrow> nat option \<Rightarrow> ('f, 'm, 'l, 'q, 'r, 'c) mem \<Rightarrow>
    (runtime_Object \<times> ('f, 'm, 'l, 'q, 'r, 'c) mem) option" where
  "List_DeepCopyObject am p h = map_option (\<lambda>(c, h'). (if c \<noteq> None then ListObject c else NilObject, h')) (List_DeepCopy am p h)"

section \<open>The values\<close>

text \<open>The value a struct stands for, in the types the reconciler's model works on.\<close>

definition den_string :: "nat option \<Rightarrow> ('f, 'm, 'l, 'q, 'r, 'c) mem \<Rightarrow> string option" where
  "den_string p h = map_option (\<lambda>a. string_at (h ! a)) p"

definition den_Spec where
  "den_Spec qd rd x h = \<lparr>Image = g_Image x, Port = g_Port x, Storage = qd (g_Storage x) h,
     StorageClassName = den_string (g_StorageClassName x) h, RequireAuth = g_RequireAuth x, DeleteQuorum = g_DeleteQuorum x,
     ScrubIntervalSeconds = g_ScrubIntervalSeconds x, SecretName = g_SecretName x, Resources = rd (g_Resources x) h,
     ServiceType = g_ServiceType x, PriorityClassName = g_PriorityClassName x,
     DisablePodDisruptionBudget = g_DisablePodDisruptionBudget x\<rparr>"

definition den_Status where
  "den_Status cd x h = \<lparr>ObservedGeneration = g_ObservedGeneration x, Ready = g_Ready x, Endpoint = g_Endpoint x,
     Conditions = (case den_slice conditions_at cd (g_Conditions x) h of None \<Rightarrow> [] | Some cs \<Rightarrow> cs)\<rparr>"

definition den_Vault where
  "den_Vault md qd rd cd x h = (g_TypeMeta x, \<lparr>dv_Meta = md (g_ObjectMeta x) h, Spec = den_Spec qd rd (g_Spec x) h,
     Status = den_Status cd (g_Status x) h\<rparr>)"

definition den_List where
  "den_List ld vd x h = (g_ListTypeMeta x, ld (g_ListMeta x) h, den_slice vaults_at vd (g_Items x) h)"

definition refs_string :: "nat option \<Rightarrow> ('f, 'm, 'l, 'q, 'r, 'c) mem \<Rightarrow> nat set" where
  "refs_string p h = set_option p"

definition refs_Spec where
  "refs_Spec qr rr x h = qr (g_Storage x) h \<union> (refs_string (g_StorageClassName x) h \<union> rr (g_Resources x) h)"

definition refs_Status where
  "refs_Status cr x h = refs_slice conditions_at cr (g_Conditions x) h"

definition refs_Vault where
  "refs_Vault mr qr rr cr x h = mr (g_ObjectMeta x) h \<union> (refs_Spec qr rr (g_Spec x) h \<union> refs_Status cr (g_Status x) h)"

definition refs_List where
  "refs_List lr vr x h = lr (g_ListMeta x) h \<union> refs_slice vaults_at vr (g_Items x) h"

lemma deep_copy_string: "deep_copy den_string refs_string copy_string"
  by standard (auto simp: den_string_def refs_string_def copy_string_def agree_def intro!: option.map_cong split: option.splits)

lemma deep_copy_Spec:
  assumes "deep_copy qd qr (Quantity_DeepCopy am)" and "deep_copy rd rr (Resources_DeepCopyInto am)"
  shows "deep_copy (den_Spec qd rd) (refs_Spec qr rr) (Spec_DeepCopyInto am)"
  by (rule deep_copy_struct [OF deep_copy_pair [OF assms(1) deep_copy_pair [OF deep_copy_string assms(2)]],
        where get = "\<lambda>x. (g_Storage x, g_StorageClassName x, g_Resources x)"
          and put = "\<lambda>x (q, s, r). x\<lparr>g_Storage := q, g_StorageClassName := s, g_Resources := r\<rparr>"
          and F = "\<lambda>x (q, s, r). den_Spec (\<lambda>_ _. q) (\<lambda>_ _. r) x []\<lparr>StorageClassName := s\<rparr>"])
    (auto simp: Spec_DeepCopyInto_def den_Spec_def refs_Spec_def den_pair_def refs_pair_def copy_pair_def split: prod.splits)

lemma deep_copy_Status:
  assumes "deep_copy cd cr (Condition_DeepCopyInto am)"
  shows "deep_copy (den_Status cd) (refs_Status cr) (Status_DeepCopyInto am)"
  by (rule deep_copy_struct [OF deep_copy.deep_copy_slice [OF assms, where elems = conditions_at and mk = ConditionArray],
        where get = g_Conditions and put = "\<lambda>x cs. x\<lparr>g_Conditions := cs\<rparr>"
          and F = "\<lambda>x cs. \<lparr>ObservedGeneration = g_ObservedGeneration x, Ready = g_Ready x, Endpoint = g_Endpoint x,
            Conditions = (case cs of None \<Rightarrow> [] | Some cs \<Rightarrow> cs)\<rparr>"])
    (auto simp: Status_DeepCopyInto_def den_Status_def refs_Status_def)

lemma deep_copy_Vault:
  assumes "deep_copy md mr (ObjectMeta_DeepCopyInto am)" and "deep_copy qd qr (Quantity_DeepCopy am)"
    and "deep_copy rd rr (Resources_DeepCopyInto am)" and "deep_copy cd cr (Condition_DeepCopyInto am)"
  shows "deep_copy (den_Vault md qd rd cd) (refs_Vault mr qr rr cr) (Vault_DeepCopyInto am)"
  by (rule deep_copy_struct [OF deep_copy_pair [OF assms(1) deep_copy_pair [OF deep_copy_Spec [OF assms(2,3)] deep_copy_Status [OF assms(4)]]],
        where get = "\<lambda>x. (g_ObjectMeta x, g_Spec x, g_Status x)"
          and put = "\<lambda>x (m, sp, st). x\<lparr>g_ObjectMeta := m, g_Spec := sp, g_Status := st\<rparr>"
          and F = "\<lambda>x (m, sp, st). (g_TypeMeta x, \<lparr>dv_Meta = m, Spec = sp, Status = st\<rparr>)"])
    (auto simp: Vault_DeepCopyInto_def den_Vault_def refs_Vault_def den_pair_def refs_pair_def copy_pair_def split: prod.splits)

lemma deep_copy_List:
  assumes "deep_copy ld lr (ListMeta_DeepCopyInto am)" and "deep_copy vd vr (Vault_DeepCopyInto am)"
  shows "deep_copy (den_List ld vd) (refs_List lr vr) (List_DeepCopyInto am)"
  by (rule deep_copy_struct [OF deep_copy_pair [OF assms(1) deep_copy.deep_copy_slice [OF assms(2), where elems = vaults_at and mk = VaultArray]],
        where get = "\<lambda>x. (g_ListMeta x, g_Items x)" and put = "\<lambda>x (m, vs). x\<lparr>g_ListMeta := m, g_Items := vs\<rparr>"
          and F = "\<lambda>x (m, vs). (g_ListTypeMeta x, m, vs)"])
    (auto simp: List_DeepCopyInto_def den_List_def refs_List_def den_pair_def refs_pair_def copy_pair_def split: prod.splits)

section \<open>Copies through pointers\<close>

lemma new_copy_spec:
  assumes dc: "deep_copy den refs copy" and "\<And>y. el (mk y) = Some y"
    and "a < length h" and "el (h ! a) = Some x" and "refs x h \<subseteq> {..<length h}"
  shows "\<exists>y h'. new_copy el mk copy (Some a) h = Some (Some (length h), h') \<and> prefix h h' \<and> length h < length h' \<and>
     el (h' ! length h) = Some y \<and> den y h' = den x h \<and> refs y h' \<subseteq> {length h..<length h'}"
proof -
  let ?h = "h @ [mk x]"
  have p: "prefix h ?h" by simp
  note old = deep_copy.refs_prefix [OF dc assms(5) p] deep_copy.den_prefix [OF dc assms(5) p]
  have r: "refs x ?h \<subseteq> {..<length ?h}" unfolding old using assms(5) by auto
  obtain y h1 where c: "copy x ?h = (y, h1)" by (cases "copy x ?h")
  have y: "prefix ?h h1" "den y h1 = den x h" "refs y h1 \<subseteq> {length ?h..<length h1}"
    using deep_copy.copy_spec [OF dc r c] old by simp_all
  let ?h' = "h1[length h := mk y]"
  have len: "length h < length h1" using prefix_length [OF y(1)] by simp
  have "agree (refs y h1) h1 ?h'" using y(3) by (auto simp: agree_def nth_list_update)
  note new = deep_copy.refs_local [OF dc this] deep_copy.den_local [OF dc this]
  obtain t where "h1 = h @ [mk x] @ t" using y(1) by (auto simp: prefix_def)
  then have "prefix h ?h'" by (simp add: list_update_append)
  with c y new len assms(2-4) show ?thesis
    by (intro exI [of _ y] exI [of _ ?h']) (auto simp: new_copy_def Let_def)
qed

definition ptr_value :: "('k \<Rightarrow> 'a option) \<Rightarrow> ('a \<Rightarrow> 'k list \<Rightarrow> 'v) \<Rightarrow> nat \<Rightarrow> 'k list \<Rightarrow> 'v option" where
  "ptr_value el den a h = map_option (\<lambda>x. den x h) (el (h ! a))"

lemma new_copy_independent:
  assumes dc: "deep_copy den refs copy" and "\<And>y. el (mk y) = Some y"
    and "a < length h" and "el (h ! a) = Some x" and "refs x h \<subseteq> {..<length h}"
  shows "\<exists>b h'. new_copy el mk copy (Some a) h = Some (Some b, h') \<and> prefix h h' \<and>
     (\<forall>h2. agree {length h..<length h'} h' h2 \<longrightarrow> ptr_value el den b h2 = ptr_value el den a h) \<and>
     (\<forall>h2. agree {..<length h} h' h2 \<longrightarrow> ptr_value el den a h2 = ptr_value el den a h)"
proof -
  obtain y h' where c: "new_copy el mk copy (Some a) h = Some (Some (length h), h')" "prefix h h'" "length h < length h'"
    "el (h' ! length h) = Some y" "den y h' = den x h" "refs y h' \<subseteq> {length h..<length h'}"
    using new_copy_spec [of den refs copy el mk a h x] assms by auto
  have v: "ptr_value el den a h = Some (den x h)" using assms(4) by (simp add: ptr_value_def)
  have "ptr_value el den (length h) h2 = Some (den x h)" if "agree {length h..<length h'} h' h2" for h2
  proof -
    have "h2 ! length h = h' ! length h" using that c(3) by (auto simp: agree_def)
    moreover have "den y h2 = den y h'" by (rule deep_copy.den_local [OF dc agree_mono [OF that c(6)]])
    ultimately show ?thesis using c by (simp add: ptr_value_def)
  qed
  moreover have "ptr_value el den a h2 = Some (den x h)" if g: "agree {..<length h} h' h2" for h2
  proof -
    have h: "agree {..<length h} h h2" by (rule agree_trans [OF agree_prefix [OF order_refl c(2)] g])
    then have "h2 ! a = h ! a" using assms(3) by (auto simp: agree_def)
    moreover have "den x h2 = den x h" by (rule deep_copy.den_local [OF dc agree_mono [OF h assms(5)]])
    ultimately show ?thesis using assms(4) by (simp add: ptr_value_def)
  qed
  ultimately show ?thesis unfolding v using c(1,2) by blast
qed

definition vault_value where
  "vault_value md qd rd cd = ptr_value vault_at (den_Vault md qd rd cd)"

text \<open>
  C7: The copy shares nothing with the original.  If the deep copies of the foreign structs keep their contract, \<open>DeepCopy\<close> of a
  pointer to a vault in memory returns a pointer to a new struct and leaves the old memory as it was; whatever is written
  afterwards to memory that existed before the copy, in place or through any slice, map or pointer of the original,
  the copy stands for the resource as it was when copied, and whatever is written to new memory leaves the original alone.
  So the base of the status patch is the resource as read, although \<open>SetStatusCondition\<close> changes its conditions in place.
\<close>

theorem DeepCopy_independent:
  assumes "deep_copy md mr (ObjectMeta_DeepCopyInto am)" and "deep_copy qd qr (Quantity_DeepCopy am)"
    and "deep_copy rd rr (Resources_DeepCopyInto am)" and "deep_copy cd cr (Condition_DeepCopyInto am)"
    and "a < length h" and "h ! a = VaultCell x" and "refs_Vault mr qr rr cr x h \<subseteq> {..<length h}"
  shows "\<exists>b h'. Vault_DeepCopy am (Some a) h = Some (Some b, h') \<and> prefix h h' \<and>
     (\<forall>h2. agree {length h..<length h'} h' h2 \<longrightarrow> vault_value md qd rd cd b h2 = vault_value md qd rd cd a h) \<and>
     (\<forall>h2. agree {..<length h} h' h2 \<longrightarrow> vault_value md qd rd cd a h2 = vault_value md qd rd cd a h)"
  unfolding vault_value_def Vault_DeepCopy_def
  by (rule new_copy_independent [OF deep_copy_Vault [OF assms(1-4)] _ assms(5) _ assms(7)]) (simp_all add: assms(6))

lemma List_DeepCopy_independent:
  assumes "deep_copy ld lr (ListMeta_DeepCopyInto am)" and "deep_copy vd vr (Vault_DeepCopyInto am)"
    and "a < length h" and "h ! a = ListCell x" and "refs_List lr vr x h \<subseteq> {..<length h}"
  shows "\<exists>b h'. List_DeepCopy am (Some a) h = Some (Some b, h') \<and> prefix h h' \<and>
     (\<forall>h2. agree {length h..<length h'} h' h2 \<longrightarrow> ptr_value list_at (den_List ld vd) b h2 = ptr_value list_at (den_List ld vd) a h) \<and>
     (\<forall>h2. agree {..<length h} h' h2 \<longrightarrow> ptr_value list_at (den_List ld vd) a h2 = ptr_value list_at (den_List ld vd) a h)"
  unfolding List_DeepCopy_def
  by (rule new_copy_independent [OF deep_copy_List [OF assms(1,2)] _ assms(3) _ assms(5)]) (simp_all add: assms(4))

lemma DeepCopyObject_nil: "Vault_DeepCopyObject am None h = Some (NilObject, h)" "List_DeepCopyObject am None h = Some (NilObject, h)"
  by (simp_all add: Vault_DeepCopyObject_def List_DeepCopyObject_def Vault_DeepCopy_def List_DeepCopy_def new_copy_def)

text \<open>
  Foreign structs for evaluation: an \<open>ObjectMeta\<close> is its name and a pointer to its labels, which its copy copies; quantities,
  resources and conditions hold no pointers.
\<close>

fun labels_at :: "((string \<times> string) list, 'm, 'l, 'q, 'r, 'c) cell \<Rightarrow> (string \<times> string) list" where
  "labels_at (OtherCell ls) = ls"
| "labels_at _ = []"

type_synonym sample_mem = "((string \<times> string) list, string \<times> nat, string, int, string, Condition) mem"

definition copy_flat :: "'a \<Rightarrow> sample_mem \<Rightarrow> 'a \<times> sample_mem" where
  "copy_flat x h = (x, h)"

definition copy_labels :: "string \<times> nat \<Rightarrow> sample_mem \<Rightarrow> (string \<times> nat) \<times> sample_mem" where
  "copy_labels m h = ((fst m, length h), h @ [OtherCell (labels_at (h ! snd m))])"

definition sample_am :: "((string \<times> string) list, string \<times> nat, string, int, string, Condition) apimachinery" where
  "sample_am = \<lparr>ObjectMeta_DeepCopyInto = copy_labels, ListMeta_DeepCopyInto = copy_flat, Quantity_DeepCopy = copy_flat,
     Resources_DeepCopyInto = copy_flat, Condition_DeepCopyInto = copy_flat\<rparr>"

definition den_labels :: "string \<times> nat \<Rightarrow> sample_mem \<Rightarrow> ObjectMeta" where
  "den_labels m h = new_meta ([], fst m)\<lparr>om_Labels := Some (map_of (labels_at (h ! snd m)))\<rparr>"

lemma deep_copy_flat: "deep_copy (\<lambda>x h. f x) (\<lambda>x h. {}) copy_flat"
  by standard (auto simp: copy_flat_def)

lemma deep_copy_labels: "deep_copy den_labels (\<lambda>m h. {snd m}) copy_labels"
  by standard (auto simp: den_labels_def copy_labels_def agree_def)

interpretation go_vault: deep_copy "den_Vault den_labels (\<lambda>q _. q) (\<lambda>r _. [(r, r)]) (\<lambda>c _. c)"
  "refs_Vault (\<lambda>m _. {snd m}) (\<lambda>_ _. {}) (\<lambda>_ _. {}) (\<lambda>_ _. {})" "Vault_DeepCopyInto sample_am"
  by (rule deep_copy_Vault) (simp_all add: sample_am_def deep_copy_flat deep_copy_labels)

interpretation go_list: deep_copy "den_List (\<lambda>l _. l) (den_Vault den_labels (\<lambda>q _. q) (\<lambda>r _. [(r, r)]) (\<lambda>c _. c))"
  "refs_List (\<lambda>_ _. {}) (refs_Vault (\<lambda>m _. {snd m}) (\<lambda>_ _. {}) (\<lambda>_ _. {}) (\<lambda>_ _. {}))" "List_DeepCopyInto sample_am"
  by (rule deep_copy_List [OF _ go_vault.deep_copy_axioms]) (simp add: sample_am_def deep_copy_flat)

text \<open>A vault with labels, a storage class and a condition; then the array of its conditions is overwritten.\<close>

definition sample_memory :: sample_mem where
  "sample_memory =
    [VaultCell \<lparr>g_TypeMeta = (''DezhanVault'', ''v1alpha1''), g_ObjectMeta = (''v'', 1),
       g_Spec = \<lparr>g_Image = [], g_Port = 8080, g_Storage = 50, g_StorageClassName = Some 3, g_RequireAuth = True,
         g_DeleteQuorum = 0, g_ScrubIntervalSeconds = 0, g_SecretName = [], g_Resources = [], g_ServiceType = [],
         g_PriorityClassName = [], g_DisablePodDisruptionBudget = False\<rparr>,
       g_Status = \<lparr>g_ObservedGeneration = 1, g_Ready = False, g_Endpoint = [], g_Conditions = Slice 2 0 1\<rparr>\<rparr>,
     OtherCell [(''app'', ''dezhan'')],
     ConditionArray [\<lparr>cond_Type = ''Available'', cond_Status = ''False'', cond_ObservedGeneration = 1, cond_LastTransitionTime = 0,
       cond_Reason = [], cond_Message = []\<rparr>],
     StringCell ''fast'']"

theorem DeepCopy_independent_witness:
  "\<exists>b h'. Vault_DeepCopy sample_am (Some 0) sample_memory = Some (Some b, h') \<and>
     vault_value den_labels (\<lambda>q _. q) (\<lambda>r _. [(r, r)]) (\<lambda>c _. c) b (h'[2 := ConditionArray []]) =
     vault_value den_labels (\<lambda>q _. q) (\<lambda>r _. [(r, r)]) (\<lambda>c _. c) 0 sample_memory"
proof -
  have len: "length sample_memory = 4" by (simp add: sample_memory_def)
  obtain x where x: "sample_memory ! 0 = VaultCell x" "refs_Vault (\<lambda>m _. {snd m}) (\<lambda>_ _. {}) (\<lambda>_ _. {}) (\<lambda>_ _. {}) x sample_memory \<subseteq> {..<4}"
    by (simp add: sample_memory_def refs_Vault_def refs_Spec_def refs_Status_def refs_string_def refs_slice_def refs_list_def)
  from DeepCopy_independent [where am = sample_am and md = den_labels and qd = "\<lambda>q _. q" and rd = "\<lambda>r _. [(r, r)]" and cd = "\<lambda>c _. c"
      and h = sample_memory and a = 0, OF _ _ _ _ _ x(1) x(2) [folded len]]
  obtain b h' where d: "Vault_DeepCopy sample_am (Some 0) sample_memory = Some (Some b, h')" "prefix sample_memory h'"
    "\<And>h2. agree {4..<length h'} h' h2 \<Longrightarrow> vault_value den_labels (\<lambda>q _. q) (\<lambda>r _. [(r, r)]) (\<lambda>c _. c) b h2 =
       vault_value den_labels (\<lambda>q _. q) (\<lambda>r _. [(r, r)]) (\<lambda>c _. c) 0 sample_memory"
    unfolding len by (auto simp: sample_am_def deep_copy_flat deep_copy_labels)
  have "agree {4..<length h'} h' (h'[2 := ConditionArray []])" by (auto simp: agree_def nth_list_update)
  with d show ?thesis by blast
qed

end
