(* ===== verification/Operator_Main.thy ===== *)
theory Operator_Main
  imports Operator
begin

text \<open>
  The process entry of the operator, \<open>src/operator/cmd/main.go\<close>, the registration of its types in
  \<open>src/operator/api/v1alpha1/groupversion_info.go\<close> and of its controller, \<open>SetupWithManager\<close> of the reconciler.

  The calls of \<open>controller-runtime\<close> are the steps of a trace; \<open>manager_api\<close> says which of them fail, with which error.
  Errors of the scheme registration are dropped, as in the source.
\<close>

section \<open>Types and flags\<close>

record GroupVersion =
  gv_Group :: string
  gv_Version :: string

definition GroupVersion_v1alpha1 :: GroupVersion where
  "GroupVersion_v1alpha1 = \<lparr>gv_Group = ''dezhan.obsernetics.io'', gv_Version = ''v1alpha1''\<rparr>"

text \<open>The types that \<open>SchemeBuilder.Register\<close> adds under the group version.\<close>

definition SchemeBuilder :: "(GroupVersion \<times> string) list" where
  "SchemeBuilder = map (Pair GroupVersion_v1alpha1) [''DezhanVault'', ''DezhanVaultList'']"

record op_flags =
  metricsAddr :: string
  probeAddr :: string
  enableLeaderElection :: bool

definition default_op_flags :: op_flags where
  "default_op_flags = \<lparr>metricsAddr = '':8443'', probeAddr = '':8081'', enableLeaderElection = False\<rparr>"

record manager_options =
  mo_Metrics :: string
  mo_HealthProbe :: string
  mo_LeaderElection :: bool
  mo_LeaderElectionID :: string

definition manager_options_of :: "op_flags \<Rightarrow> manager_options" where
  "manager_options_of fl = \<lparr>mo_Metrics = metricsAddr fl, mo_HealthProbe = probeAddr fl,
     mo_LeaderElection = enableLeaderElection fl, mo_LeaderElectionID = ''dezhan-operator.obsernetics.io''\<rparr>"

section \<open>The trace\<close>

datatype op_effect = AddToScheme "(GroupVersion \<times> string) list" | AddClientGoScheme | NewManager manager_options
  | GetEventRecorderFor string | For string | Owns string | Complete | AddHealthzCheck string | AddReadyzCheck string
  | SetupLog string | Start

record manager_api =
  err_NewManager :: "manager_options \<Rightarrow> string option"
  err_Complete :: "string option"
  err_AddHealthzCheck :: "string option"
  err_AddReadyzCheck :: "string option"
  err_Start :: "string option"

text \<open>The recorder is set when the reconciler has none, as in \<open>main\<close>.\<close>

definition SetupWithManager :: "manager_api \<Rightarrow> bool \<Rightarrow> op_effect list \<times> string option" where
  "SetupWithManager m has_recorder =
    ((if has_recorder then [] else [GetEventRecorderFor ''dezhan-operator'']) @
     [For ''DezhanVault'', Owns ''StatefulSet'', Owns ''Service'', Owns ''PodDisruptionBudget'', Complete], err_Complete m)"

definition op_init :: "op_effect list" where
  "op_init = [AddClientGoScheme, AddToScheme SchemeBuilder]"

definition op_main :: "manager_api \<Rightarrow> op_flags \<Rightarrow> op_effect list \<times> nat" where
  "op_main m fl =
    (let opts = manager_options_of fl; t1 = op_init @ [NewManager opts]
     in case err_NewManager m opts of Some e \<Rightarrow> (t1 @ [SetupLog ''unable to start manager''], 1) | None \<Rightarrow>
    (let (t2, r) = SetupWithManager m False; t2 = t1 @ t2
     in case r of Some e \<Rightarrow> (t2 @ [SetupLog ''unable to create controller''], 1) | None \<Rightarrow>
    (let t3 = t2 @ [AddHealthzCheck ''healthz'']
     in case err_AddHealthzCheck m of Some e \<Rightarrow> (t3 @ [SetupLog ''unable to set up health check''], 1) | None \<Rightarrow>
    (let t4 = t3 @ [AddReadyzCheck ''readyz'']
     in case err_AddReadyzCheck m of Some e \<Rightarrow> (t4 @ [SetupLog ''unable to set up ready check''], 1) | None \<Rightarrow>
    (let t5 = t4 @ [SetupLog ''starting dezhan operator'', Start]
     in case err_Start m of Some e \<Rightarrow> (t5 @ [SetupLog ''problem running manager''], 1) | None \<Rightarrow> (t5, 0))))))"

section \<open>Properties\<close>

text \<open>The position of an effect in a trace.\<close>

definition before :: "op_effect \<Rightarrow> op_effect \<Rightarrow> op_effect list \<Rightarrow> bool" where
  "before a b t \<longleftrightarrow> (\<exists>p q. t = p @ b # q \<and> a \<in> set p)"

text \<open>
  The operator starts its manager only when everything is in place.  If \<open>main\<close> gets as far as starting the manager, the
  resource types were added to the scheme, the controller for \<open>DezhanVault\<close> was completed with all three kinds of
  objects it creates as owned ones, so that their changes trigger a pass, and both probes were added, all before the start;
  the exit status is 0 exactly when the manager was started and ended without an error.
\<close>

lemma op_main_starts:
  assumes "op_main m fl = (effs, code)"
  shows "(Start \<in> set effs \<longrightarrow> before (AddToScheme SchemeBuilder) Start effs \<and>
       before (NewManager (manager_options_of fl)) (For ''DezhanVault'') effs \<and>
       (\<forall>k\<in>{''StatefulSet'', ''Service'', ''PodDisruptionBudget''}. before (Owns k) Complete effs) \<and>
       before Complete Start effs \<and> before (AddHealthzCheck ''healthz'') Start effs \<and> before (AddReadyzCheck ''readyz'') Start effs) \<and>
     (code = 0 \<longleftrightarrow> Start \<in> set effs \<and> err_Start m = None) \<and> (code = 0 \<or> code = 1)"
proof (cases "Start \<in> set effs")
  case True
  let ?t = "[AddClientGoScheme, AddToScheme SchemeBuilder, NewManager (manager_options_of fl), GetEventRecorderFor ''dezhan-operator'',
    For ''DezhanVault'', Owns ''StatefulSet'', Owns ''Service'', Owns ''PodDisruptionBudget'', Complete, AddHealthzCheck ''healthz'',
    AddReadyzCheck ''readyz'', SetupLog ''starting dezhan operator'', Start]"
  have e: "\<exists>q. effs = ?t @ q" and c: "code = 0 \<longleftrightarrow> err_Start m = None" "code = 0 \<or> code = 1"
    using assms True by (auto simp: op_main_def SetupWithManager_def op_init_def Let_def split: option.splits)
  then obtain q where q: "effs = ?t @ q" by blast
  have pos: "before a (?t ! i) effs" if "i < 13" and "a \<in> set (take i ?t)" for a i
    unfolding before_def q using that id_take_nth_drop [of i ?t]
    by (intro exI [of _ "take i ?t"] exI [of _ "drop (Suc i) ?t @ q"]) (simp add: append_assoc [symmetric])
  show ?thesis using True c pos [of 12] pos [of 8] pos [of 4] by (auto simp: numeral_nat)
qed (use assms in \<open>auto simp: op_main_def SetupWithManager_def Let_def split: option.splits\<close>)

end
