(* ===== verification/Vault_Persist.thy ===== *)
theory Vault_Persist
  imports Vault
begin

text \<open>
  Persistence of the vault, the second section of \<open>src/vault/src/dezhan-vault.adb\<close>: the text records
  of the snapshot and the journal, \<open>Save\<close>, \<open>Append_Jrnl\<close>, \<open>Commit_Jrnl\<close>, \<open>Apply_Line\<close>, \<open>Load\<close> and \<open>Open\<close>.

  A text file is the list of its lines.  \<open>vi\<close> is \<open>Trusted_Time'Value\<close> on texts that are not plain
  decimal numerals.  The durable part of a state (\<open>durable\<close>) is what the records say of it, with the
  containers as maps; each line of a file has the effect \<open>dur_apply\<close> on it.  \<open>Durable_Rename\<close>
  replaces the snapshot in one step; the journal is emptied in a second one, so a crash can leave the new
  snapshot beside the old journal.
\<close>

section \<open>Hexadecimal texts\<close>

definition Hex_Digits :: string where
  "Hex_Digits = ''0123456789abcdef''"

definition hex_byte :: "nat \<Rightarrow> string" where
  "hex_byte b = [Hex_Digits ! (b div 16), Hex_Digits ! (b mod 16)]"

definition To_Hex :: "Digest \<Rightarrow> string" where
  "To_Hex d = concat (map (\<lambda>b. hex_byte (unat b)) d)"

definition Str_To_Hex :: "string \<Rightarrow> string" where
  "Str_To_Hex s = concat (map (\<lambda>c. hex_byte (of_char c)) s)"

text \<open>The range checks of \<open>Natural\<close>, \<open>Character'Val\<close> and \<open>Byte\<close> raise \<open>Constraint_Error\<close>, \<^term>\<open>None\<close>.\<close>

definition Nibble :: "char \<Rightarrow> nat option" where
  "Nibble c = (let p = of_char c :: nat in
     if 48 \<le> p \<and> p \<le> 57 then Some (p - 48) else if 87 \<le> p then Some (p - 87) else None)"

definition hex_pair :: "char \<Rightarrow> char \<Rightarrow> nat option" where
  "hex_pair a b = (case Nibble a of None \<Rightarrow> None | Some x \<Rightarrow> (case Nibble b of None \<Rightarrow> None | Some y \<Rightarrow>
     if x * 16 + y \<le> 255 then Some (x * 16 + y) else None))"

fun Hex_To_Str :: "string \<Rightarrow> string option" where
  "Hex_To_Str (a # b # s) = (case hex_pair a b of None \<Rightarrow> None | Some n \<Rightarrow> map_option (Cons (char_of n)) (Hex_To_Str s))"
| "Hex_To_Str s = Some []"

definition From_Hex :: "string \<Rightarrow> Digest option" where
  "From_Hex s = (if length s < 64 then None else map_option (map of_char) (Hex_To_Str (take 64 s)))"

section \<open>Fields\<close>

text \<open>The scan of \<open>Field\<close>: the text between blanks; \<open>acc\<close> is what has been read of the current one.\<close>

fun fields_of :: "string \<Rightarrow> string \<Rightarrow> string list" where
  "fields_of acc [] = (if acc = [] then [] else [rev acc])"
| "fields_of acc (c # s) = (if c = CHR '' '' then (if acc = [] then fields_of [] s else rev acc # fields_of [] s)
     else fields_of (c # acc) s)"

definition Field :: "string \<Rightarrow> nat \<Rightarrow> string" where
  "Field line n = (if n - 1 < length (fields_of [] line) then fields_of [] line ! (n - 1) else [])"

section \<open>Records\<close>

definition image_text :: "nat \<Rightarrow> string" where
  "image_text n = CHR '' '' # digits_of_nat n"

definition bit_text :: "bool \<Rightarrow> string" where
  "bit_text b = (if b then '' 1'' else '' 0'')"

primrec Mode_Pos :: "Lock_Mode \<Rightarrow> nat" where
  "Mode_Pos Unlocked = 0"
| "Mode_Pos Governance = 1"
| "Mode_Pos Compliance = 2"

definition Mode_Val :: "nat \<Rightarrow> Lock_Mode option" where
  "Mode_Val n = (if n < 3 then Some ([Unlocked, Governance, Compliance] ! n) else None)"

definition Event_Val :: "nat \<Rightarrow> Audit_Event option" where
  "Event_Val n = (if n < 10 then Some ([Genesis, Lock_Created, Retention_Extended, Delete_Denied, Delete_Allowed,
     Clock_Anomaly, Seal_Engaged, Legal_Hold_Set, Legal_Hold_Released, Object_Quarantined] ! n) else None)"

definition Core_Clock :: "'d vault \<Rightarrow> string" where
  "Core_Clock v = ''CLOCK '' @ image_text (Now (Clock v)) @ bit_text (Is_Sealed (Clock v)) @ bit_text (Op_Sealed v)"

definition Core_Boot :: "'d vault \<Rightarrow> string" where
  "Core_Boot v = ''BOOT '' @ Last_Boot v"

definition Core_Modes :: "'d vault \<Rightarrow> string" where
  "Core_Modes v = ''MODES '' @ (if Ingest_Only v then ''1'' else ''0'') @ '' '' @ (if Sync_Shut v then ''1'' else ''0'')"

definition Core_Vseq :: "'d vault \<Rightarrow> string" where
  "Core_Vseq v = ''VSEQ'' @ image_text (Ver_Seq v)"

definition Bkt_Line :: "string \<Rightarrow> bool \<Rightarrow> string" where
  "Bkt_Line name lock = ''BKT '' @ Str_To_Hex name @ bit_text lock"

definition Vsn_Line :: "string \<Rightarrow> bool \<Rightarrow> string" where
  "Vsn_Line name on = ''VSN '' @ Str_To_Hex name @ bit_text on"

definition Ver_Line :: "string \<Rightarrow> Version_Entry \<Rightarrow> string" where
  "Ver_Line name e = ''VER '' @ Str_To_Hex name @ '' '' @ Vid e @ '' '' @ Ver_Id e @ image_text (Ver_Size e) @
     bit_text (Deleted e) @ '' '' @ Str_To_Hex (Ver_Meta e)"

definition Obj_Line :: "string \<Rightarrow> Meta \<Rightarrow> string" where
  "Obj_Line name m = ''OBJ '' @ Str_To_Hex name @ '' '' @ Id m @ image_text (Mode_Pos (Lock_Mode_Of (Lock m))) @
     image_text (Retain_Until (Lock m)) @ image_text (Created_At (Lock m)) @ bit_text (Composite m) @
     bit_text (Legal_Hold (Lock m)) @ bit_text (Quarantined m) @ image_text (Size m) @ '' '' @ Str_To_Hex (User_Meta m)"

definition A_Line :: "Audit_Entry \<Rightarrow> string" where
  "A_Line e = ''A'' @ image_text (Seq e) @ image_text (Time e) @ image_text (unat (Event_Pos (Kind e))) @ '' '' @ To_Hex (Subject e) @
     image_text (Detail e) @ '' '' @ To_Hex (Prev_Hash e) @ '' '' @ To_Hex (Hash e)"

definition Del_Line :: "string \<Rightarrow> string" where
  "Del_Line name = ''DEL '' @ Str_To_Hex name"

section \<open>Saving\<close>

text \<open>The keys of a container in the order of its iteration.\<close>

definition iterate :: "'d vault_env \<Rightarrow> (string \<times> 'v) list \<Rightarrow> string list" where
  "iterate env m = (let ks = keys_of m in sort_key (rank env ks) ks)"

definition snapshot_lines :: "'d vault_env \<Rightarrow> 'd vault \<Rightarrow> string list" where
  "snapshot_lines env v =
     [''DEZHAN_VAULT 1'', Core_Clock v, Core_Boot v, Core_Modes v] @
     map (\<lambda>k. Bkt_Line k (the (lookup (Buckets v) k))) (iterate env (Buckets v)) @
     map (\<lambda>k. Vsn_Line k True) (filter (\<lambda>k. the (lookup (Versioned v) k)) (iterate env (Versioned v))) @
     [Core_Vseq v] @
     concat (map (\<lambda>k. map (Ver_Line k) (the (lookup (Versions v) k))) (iterate env (Versions v))) @
     map (\<lambda>k. Obj_Line k (the (lookup (Index v) k))) (iterate env (Index v)) @
     [''AUDIT'' @ image_text (length (Log v))] @ map A_Line (Log v)"

record disk =
  State_File :: "string list option"
  Journal_File :: "string list option"

text \<open>The vault with its journal buffer and its files; \<open>Jrnl_Pend\<close> is the length of the buffer.\<close>

record 'd pvault =
  Self :: "'d vault"
  Jrnl_Count :: nat
  Jrnl_Buf :: "string list"
  Disk :: disk

definition Compact_Limit :: nat where
  "Compact_Limit = 20000"

definition Save :: "'d vault_env \<Rightarrow> 'd pvault \<Rightarrow> 'd pvault" where
  "Save env p = p\<lparr>Disk := \<lparr>State_File = Some (snapshot_lines env (Self p)), Journal_File = Some []\<rparr>,
     Jrnl_Count := 0, Jrnl_Buf := []\<rparr>"

definition Append_Jrnl :: "string \<Rightarrow> 'd pvault \<Rightarrow> 'd pvault" where
  "Append_Jrnl line p = p\<lparr>Jrnl_Buf := Jrnl_Buf p @ [line]\<rparr>"

definition Commit_Jrnl :: "'d vault_env \<Rightarrow> 'd pvault \<Rightarrow> 'd pvault" where
  "Commit_Jrnl env p =
    (if Jrnl_Buf p = [] then p
     else if Jrnl_Count p + length (Jrnl_Buf p) \<ge> Compact_Limit then Save env p
     else p\<lparr>Disk := (Disk p)\<lparr>Journal_File := Some ((case Journal_File (Disk p) of None \<Rightarrow> [] | Some ls \<Rightarrow> ls) @ Jrnl_Buf p)\<rparr>,
            Jrnl_Count := Jrnl_Count p + length (Jrnl_Buf p), Jrnl_Buf := []\<rparr>)"

section \<open>Loading\<close>

definition or_raise :: "'a option \<Rightarrow> ('a \<Rightarrow> ada_exn + 'b) \<Rightarrow> ada_exn + 'b" where
  "or_raise x k = (case x of None \<Rightarrow> Inl Constraint_Error | Some a \<Rightarrow> k a)"

text \<open>\<open>Object_Id (S)\<close>: a string of exactly 64 characters.\<close>

definition Object_Id :: "string \<Rightarrow> string option" where
  "Object_Id s = (if length s = 64 then Some s else None)"

definition apply_ver :: "(string \<Rightarrow> Trusted_Time option) \<Rightarrow> string \<Rightarrow> 'd vault \<Rightarrow> ada_exn + 'd vault" where
  "apply_ver vi line v =
     or_raise (Hex_To_Str (Field line 2)) (\<lambda>name.
     or_raise (Object_Id (Field line 4)) (\<lambda>i.
     or_raise (Natural_Value vi (Field line 5)) (\<lambda>sz.
     or_raise (Hex_To_Str (Field line 7)) (\<lambda>meta.
       let e = \<lparr>Vid = Field line 3, Ver_Id = i, Ver_Size = sz, Ver_Meta = meta, Deleted = (Field line 6 = ''1'')\<rparr>;
           vec = (case lookup (Versions v) name of None \<Rightarrow> [] | Some xs \<Rightarrow> xs)
       in if Vid e \<in> Vid ` set vec then Inr v
          else Inr (v\<lparr>Versions := AList.update name (vec @ [e]) (Versions v)\<rparr>)))))"

definition apply_obj :: "(string \<Rightarrow> Trusted_Time option) \<Rightarrow> string \<Rightarrow> 'd vault \<Rightarrow> ada_exn + 'd vault" where
  "apply_obj vi line v =
     or_raise (Hex_To_Str (Field line 2)) (\<lambda>name.
     or_raise (Object_Id (Field line 3)) (\<lambda>i.
     or_raise (Natural_Value vi (Field line 4)) (\<lambda>pos.
     or_raise (Mode_Val pos) (\<lambda>mode.
     or_raise (Time_Value vi (Field line 5)) (\<lambda>until.
     or_raise (Time_Value vi (Field line 6)) (\<lambda>created.
     or_raise (if Field line 10 = [] then Some 0 else Natural_Value vi (Field line 10)) (\<lambda>sz.
     or_raise (Hex_To_Str (Field line 11)) (\<lambda>meta.
       Inr (v\<lparr>Index := AList.update name \<lparr>Id = i,
          Lock = \<lparr>Lock_Mode_Of = mode, Retain_Until = until, Created_At = created, Legal_Hold = (Field line 8 = ''1'')\<rparr>,
          Composite = (Field line 7 = ''1''), Quarantined = (Field line 9 = ''1''), Size = sz, User_Meta = meta\<rparr>
          (Index v)\<rparr>)))))))))"

definition apply_audit :: "(string \<Rightarrow> Trusted_Time option) \<Rightarrow> string \<Rightarrow> 'd vault \<Rightarrow> ada_exn + 'd vault" where
  "apply_audit vi line v =
     or_raise (Natural_Value vi (Field line 2)) (\<lambda>seq.
     if seq \<noteq> length (Log v) then Inr v else
     or_raise (Time_Value vi (Field line 3)) (\<lambda>t.
     or_raise (Natural_Value vi (Field line 4)) (\<lambda>pos.
     or_raise (Event_Val pos) (\<lambda>kind.
     or_raise (From_Hex (Field line 5)) (\<lambda>subject.
     or_raise (Time_Value vi (Field line 6)) (\<lambda>detail.
     or_raise (From_Hex (Field line 7)) (\<lambda>prev.
     or_raise (From_Hex (Field line 8)) (\<lambda>hash.
       Inr (v\<lparr>Log := Log v @ [\<lparr>Seq = seq, Time = t, Kind = kind, Subject = subject, Detail = detail,
          Prev_Hash = prev, Hash = hash\<rparr>]\<rparr>)))))))))"

definition Apply_Line :: "(string \<Rightarrow> Trusted_Time option) \<Rightarrow> string \<Rightarrow> 'd vault \<Rightarrow> ada_exn + 'd vault" where
  "Apply_Line vi line v =
    (let tag = Field line 1 in
     if tag = ''CLOCK'' then or_raise (Time_Value vi (Field line 2)) (\<lambda>t.
       Inr (v\<lparr>Clock := \<lparr>Floor = t, Last_Mono = 0, Last_Real = 0, Anomaly = No_Anomaly, Sealed = (Field line 3 = ''1'')\<rparr>,
         Op_Sealed := (Field line 4 = ''1''), Started := False\<rparr>))
     else if tag = ''BOOT'' then Inr (v\<lparr>Last_Boot := Field line 2\<rparr>)
     else if tag = ''MODES'' then Inr (v\<lparr>Ingest_Only := (Field line 2 = ''1''), Sync_Shut := (Field line 3 = ''1'')\<rparr>)
     else if tag = ''BKT'' then or_raise (Hex_To_Str (Field line 2)) (\<lambda>n.
       Inr (v\<lparr>Buckets := AList.update n (Field line 3 = ''1'') (Buckets v)\<rparr>))
     else if tag = ''BKD'' then or_raise (Hex_To_Str (Field line 2)) (\<lambda>n.
       Inr (v\<lparr>Buckets := AList.delete n (Buckets v)\<rparr>))
     else if tag = ''VSN'' then or_raise (Hex_To_Str (Field line 2)) (\<lambda>n.
       Inr (v\<lparr>Versioned := AList.update n (Field line 3 \<noteq> ''0'') (Versioned v)\<rparr>))
     else if tag = ''VSEQ'' then or_raise (Natural_Value vi (Field line 2)) (\<lambda>n. Inr (v\<lparr>Ver_Seq := n\<rparr>))
     else if tag = ''VER'' then apply_ver vi line v
     else if tag = ''OBJ'' then apply_obj vi line v
     else if tag = ''DEL'' then or_raise (Hex_To_Str (Field line 2)) (\<lambda>n.
       Inr (v\<lparr>Index := AList.delete n (Index v)\<rparr>))
     else if tag = ''A'' then apply_audit vi line v
     else Inr v)"

primrec replay :: "(string \<Rightarrow> Trusted_Time option) \<Rightarrow> string list \<Rightarrow> 'd vault \<Rightarrow> ada_exn + 'd vault" where
  "replay vi [] v = Inr v"
| "replay vi (l # ls) v = (case Apply_Line vi l v of Inl e \<Rightarrow> Inl e | Inr w \<Rightarrow> replay vi ls w)"

text \<open>A new \<open>State\<close> with its defaults; \<open>d\<close> is the content store under the root directory.\<close>

definition new_state :: "'d \<Rightarrow> 'd vault" where
  "new_state d = \<lparr>Clock = \<lparr>Floor = 0, Last_Mono = 0, Last_Real = 0, Anomaly = No_Anomaly, Sealed = False\<rparr>, Started = False,
     Op_Sealed = False, Last_Boot = [], Ingest_Only = False, Sync_Shut = False, Index = [], Log = [], Buckets = [],
     Versioned = [], Versions = [], Ver_Seq = 0, Store = d\<rparr>"

definition Load :: "(string \<Rightarrow> Trusted_Time option) \<Rightarrow> disk \<Rightarrow> string list \<Rightarrow> 'd vault \<Rightarrow> ada_exn + 'd pvault" where
  "Load vi dsk ls v = (case replay vi ls v of Inl e \<Rightarrow> Inl e
     | Inr w \<Rightarrow> (case Journal_File dsk of
          None \<Rightarrow> Inr \<lparr>Self = w, Jrnl_Count = 0, Jrnl_Buf = [], Disk = dsk\<rparr>
        | Some js \<Rightarrow> (case replay vi js w of Inl e \<Rightarrow> Inl e
            | Inr u \<Rightarrow> Inr \<lparr>Self = u, Jrnl_Count = length js, Jrnl_Buf = [], Disk = dsk\<rparr>)))"

definition Open :: "'d vault_env \<Rightarrow> (string \<Rightarrow> Trusted_Time option) \<Rightarrow> disk \<Rightarrow> 'd \<Rightarrow> ada_exn + 'd pvault" where
  "Open env vi dsk d = (case State_File dsk of
       Some ls \<Rightarrow> Load vi dsk ls (new_state d)
     | None \<Rightarrow> Inr \<lparr>Self = (new_state d)\<lparr>Clock := Init \<lparr>Mono = 0, Realtime = 0, Boot_Changed = False\<rparr>,
           Log := [Genesis_Entry (sha256 env) 0]\<rparr>, Jrnl_Count = 0, Jrnl_Buf = [], Disk = dsk\<rparr>)"

section \<open>Reading back what was written\<close>

lemma less_16: "k < (16::nat) \<Longrightarrow> k \<in> {0,1,2,3,4,5,6,7,8,9,10,11,12,13,14,15}"
  by (simp only: insert_iff empty_iff) presburger

lemma Nibble_Hex: "k < 16 \<Longrightarrow> Nibble (Hex_Digits ! k) = Some k"
  by (drule less_16) (auto simp: Nibble_def Hex_Digits_def)

lemma Hex_Digits_plain: "k < 16 \<Longrightarrow> Hex_Digits ! k \<noteq> CHR '' ''"
  by (drule less_16) (auto simp: Hex_Digits_def)

lemma hex_pair_byte: "b < 256 \<Longrightarrow> hex_pair (Hex_Digits ! (b div 16)) (Hex_Digits ! (b mod 16)) = Some b"
proof -
  assume b: "b < 256"
  then have "b div 16 < 16" by (simp add: less_mult_imp_div_less)
  moreover have "b div 16 * 16 + b mod 16 = b" by simp
  ultimately show ?thesis using b by (simp add: hex_pair_def Nibble_Hex)
qed

lemma Hex_To_Str_hex_byte: "b < 256 \<Longrightarrow> Hex_To_Str (hex_byte b @ s) = map_option (Cons (char_of b)) (Hex_To_Str s)"
  by (simp add: hex_byte_def hex_pair_byte)

lemma Hex_To_Str_To_Hex [simp]: "Hex_To_Str (Str_To_Hex s) = Some s"
  by (induction s) (simp_all add: Str_To_Hex_def Hex_To_Str_hex_byte del: Hex_To_Str.simps(1))

lemma unat_byte: "unat (b :: byte) < 256"
  using unsigned_less [of b] by simp

lemma Hex_To_Str_digest: "Hex_To_Str (To_Hex d) = Some (map (\<lambda>b. char_of (unat b)) d)"
  by (induction d) (simp_all add: To_Hex_def Hex_To_Str_hex_byte unat_byte del: Hex_To_Str.simps(1))

lemma length_To_Hex: "length (To_Hex d) = 2 * length d"
  by (induction d) (simp_all add: To_Hex_def hex_byte_def)

lemma of_char_byte: "(of_char (char_of (unat (b :: byte))) :: byte) = b"
proof -
  have "(of_char (char_of (unat b)) :: nat) = unat b" by (simp add: of_char_of unat_byte)
  then have "of_nat (of_char (char_of (unat b)) :: nat) = b" by simp
  then show ?thesis by (simp add: of_char_def)
qed

lemma From_Hex_To_Hex: "length d = 32 \<Longrightarrow> From_Hex (To_Hex d) = Some d"
  by (simp add: From_Hex_def length_To_Hex Hex_To_Str_digest comp_def of_char_byte)

text \<open>A field as \<open>Field\<close> reads it: not empty and without blanks.\<close>

definition field_text :: "string \<Rightarrow> bool" where
  "field_text x \<longleftrightarrow> x \<noteq> [] \<and> CHR '' '' \<notin> set x"

lemma fields_of_append: "CHR '' '' \<notin> set x \<Longrightarrow> fields_of acc (x @ s) = fields_of (rev x @ acc) s"
  by (induction x arbitrary: acc) auto

lemma fields_of_field: "field_text x \<Longrightarrow> fields_of [] (x @ CHR '' '' # s) = x # fields_of [] s"
  by (simp add: field_text_def fields_of_append)

lemma fields_of_last: "field_text x \<Longrightarrow> fields_of [] x = [x]"
  using fields_of_append [of x "[]" "[]"] by (simp add: field_text_def)

lemma hex_byte_plain: "b < 256 \<Longrightarrow> CHR '' '' \<notin> set (hex_byte b)"
  using Hex_Digits_plain [of "b div 16"] Hex_Digits_plain [of "b mod 16"]
  by (auto simp: hex_byte_def less_mult_imp_div_less)

lemma Str_To_Hex_plain: "CHR '' '' \<notin> set (Str_To_Hex s)"
  by (auto simp: Str_To_Hex_def hex_byte_plain)

lemma Str_To_Hex_Nil [simp]: "Str_To_Hex s = [] \<longleftrightarrow> s = []"
  by (cases s) (simp_all add: Str_To_Hex_def hex_byte_def)

lemma field_text_name: "name \<noteq> [] \<Longrightarrow> field_text (Str_To_Hex name)"
  by (simp add: field_text_def Str_To_Hex_plain)

lemma fields_of_meta: "fields_of [] (Str_To_Hex m) = (if m = [] then [] else [Str_To_Hex m])"
  by (simp add: fields_of_last field_text_name) (simp add: Str_To_Hex_def)

lemma field_text_digest: "length d = 32 \<Longrightarrow> field_text (To_Hex d)"
proof -
  assume "length d = 32"
  then have "To_Hex d \<noteq> []" using length_To_Hex [of d] by auto
  then show ?thesis by (auto simp: field_text_def To_Hex_def hex_byte_plain unat_byte)
qed

lemma field_text_digits: "field_text (digits_of_nat n)"
  using digits_of_nat_digits [of "CHR '' ''" n] by (auto simp: field_text_def is_digit_def)

lemma Time_Value_digits: "n \<le> Time_Last \<Longrightarrow> Time_Value vi (digits_of_nat n) = Some n"
  using digits_of_nat_digits by (auto simp: Time_Value_def list_all_iff nat_of_digits_of_nat)

lemma Natural_Value_digits: "n \<le> Natural_Last \<Longrightarrow> Natural_Value vi (digits_of_nat n) = Some n"
  using Time_Value_digits [of n vi] by (simp add: Natural_Value_def Natural_Last_def Time_Last_def)

lemma Mode_Val_Pos: "Mode_Val (Mode_Pos m) = Some m"
  by (cases m) (simp_all add: Mode_Val_def)

lemma Event_Val_Pos: "Event_Val (unat (Event_Pos e)) = Some e"
  by (cases e) (simp_all add: Event_Val_def)

section \<open>The durable state\<close>

text \<open>
  What the files say of a vault, with its containers as the maps they are; a bucket that is not listed
  as versioned is not versioned.
\<close>

record dur =
  d_Clock :: "Trusted_Time \<times> bool"
  d_Sealed :: bool
  d_Boot :: string
  d_Modes :: "bool \<times> bool"
  d_Seq :: nat
  d_Buckets :: "string \<Rightarrow> bool option"
  d_Versioned :: "string \<Rightarrow> bool"
  d_Index :: "string \<Rightarrow> Meta option"
  d_Versions :: "string \<Rightarrow> Version_Entry list"
  d_Log :: "Audit_Entry list"

definition durable :: "'d vault \<Rightarrow> dur" where
  "durable v = \<lparr>d_Clock = (Now (Clock v), Is_Sealed (Clock v)), d_Sealed = Op_Sealed v, d_Boot = Last_Boot v,
     d_Modes = (Ingest_Only v, Sync_Shut v), d_Seq = Ver_Seq v, d_Buckets = lookup (Buckets v),
     d_Versioned = Bucket_Versioned v, d_Index = lookup (Index v),
     d_Versions = (\<lambda>k. case lookup (Versions v) k of None \<Rightarrow> [] | Some xs \<Rightarrow> xs), d_Log = Log v\<rparr>"

datatype entry = E_Clock Trusted_Time bool bool | E_Boot string | E_Modes bool bool | E_Vseq nat
  | E_Bkt string bool | E_Vsn string bool | E_Ver string Version_Entry | E_Obj string Meta
  | E_Del string | E_Audit Audit_Entry | E_Note string

text \<open>The line of an entry, as the serializers write it; a note is a line without effect.\<close>

primrec entry_line :: "entry \<Rightarrow> string" where
  "entry_line (E_Clock t b c) = ''CLOCK '' @ image_text t @ bit_text b @ bit_text c"
| "entry_line (E_Boot b) = ''BOOT '' @ b"
| "entry_line (E_Modes a b) = ''MODES '' @ (if a then ''1'' else ''0'') @ '' '' @ (if b then ''1'' else ''0'')"
| "entry_line (E_Vseq n) = ''VSEQ'' @ image_text n"
| "entry_line (E_Bkt n b) = Bkt_Line n b"
| "entry_line (E_Vsn n b) = Vsn_Line n b"
| "entry_line (E_Ver n e) = Ver_Line n e"
| "entry_line (E_Obj n m) = Obj_Line n m"
| "entry_line (E_Del n) = Del_Line n"
| "entry_line (E_Audit e) = A_Line e"
| "entry_line (E_Note t) = t"

definition meta_ok :: "Meta \<Rightarrow> bool" where
  "meta_ok m \<longleftrightarrow> length (Id m) = 64 \<and> field_text (Id m) \<and> Retain_Until (Lock m) \<le> Time_Last \<and>
     Created_At (Lock m) \<le> Time_Last \<and> Size m \<le> Natural_Last"

definition version_ok :: "Version_Entry \<Rightarrow> bool" where
  "version_ok e \<longleftrightarrow> field_text (Vid e) \<and> length (Ver_Id e) = 64 \<and> field_text (Ver_Id e) \<and> Ver_Size e \<le> Natural_Last"

definition audit_ok :: "Audit_Entry \<Rightarrow> bool" where
  "audit_ok e \<longleftrightarrow> Seq e \<le> Natural_Last \<and> Time e \<le> Time_Last \<and> Detail e \<le> Time_Last \<and>
     length (Subject e) = 32 \<and> length (Prev_Hash e) = 32 \<and> length (Hash e) = 32"

primrec entry_wf :: "entry \<Rightarrow> bool" where
  "entry_wf (E_Clock t b c) = (t \<le> Time_Last)"
| "entry_wf (E_Boot b) = (CHR '' '' \<notin> set b)"
| "entry_wf (E_Modes a b) = True"
| "entry_wf (E_Vseq n) = (n \<le> Natural_Last)"
| "entry_wf (E_Bkt n b) = (n \<noteq> [])"
| "entry_wf (E_Vsn n b) = (n \<noteq> [])"
| "entry_wf (E_Ver n e) = (n \<noteq> [] \<and> version_ok e)"
| "entry_wf (E_Obj n m) = (n \<noteq> [] \<and> meta_ok m)"
| "entry_wf (E_Del n) = (n \<noteq> [])"
| "entry_wf (E_Audit e) = audit_ok e"
| "entry_wf (E_Note t) = (\<exists>n. t = ''DEZHAN_VAULT 1'' \<or> t = ''AUDIT'' @ image_text n)"

primrec dur_apply :: "entry \<Rightarrow> dur \<Rightarrow> dur" where
  "dur_apply (E_Clock t b c) s = s\<lparr>d_Clock := (t, b), d_Sealed := c\<rparr>"
| "dur_apply (E_Boot b) s = s\<lparr>d_Boot := b\<rparr>"
| "dur_apply (E_Modes a b) s = s\<lparr>d_Modes := (a, b)\<rparr>"
| "dur_apply (E_Vseq n) s = s\<lparr>d_Seq := n\<rparr>"
| "dur_apply (E_Bkt n b) s = s\<lparr>d_Buckets := (d_Buckets s)(n \<mapsto> b)\<rparr>"
| "dur_apply (E_Vsn n b) s = s\<lparr>d_Versioned := (d_Versioned s)(n := b)\<rparr>"
| "dur_apply (E_Ver n e) s = (if Vid e \<in> Vid ` set (d_Versions s n) then s
     else s\<lparr>d_Versions := (d_Versions s)(n := d_Versions s n @ [e])\<rparr>)"
| "dur_apply (E_Obj n m) s = s\<lparr>d_Index := (d_Index s)(n \<mapsto> m)\<rparr>"
| "dur_apply (E_Del n) s = s\<lparr>d_Index := (d_Index s)(n := None)\<rparr>"
| "dur_apply (E_Audit e) s = (if Seq e = length (d_Log s) then s\<lparr>d_Log := d_Log s @ [e]\<rparr> else s)"
| "dur_apply (E_Note t) s = s"

lemmas line_defs = image_text_def bit_text_def Bkt_Line_def Vsn_Line_def Ver_Line_def Obj_Line_def Del_Line_def A_Line_def
lemmas field_rules = fields_of_field fields_of_last fields_of_meta field_text_name field_text_digits field_text_digest
lemmas value_rules = Time_Value_digits Natural_Value_digits Mode_Val_Pos Event_Val_Pos From_Hex_To_Hex or_raise_def Object_Id_def

text \<open>The line of a version, an object and an audit entry, read back.\<close>

lemma fields_Obj:
  "name \<noteq> [] \<Longrightarrow> meta_ok m \<Longrightarrow> fields_of [] (Obj_Line name m) = [''OBJ'', Str_To_Hex name, Id m,
     digits_of_nat (Mode_Pos (Lock_Mode_Of (Lock m))), digits_of_nat (Retain_Until (Lock m)),
     digits_of_nat (Created_At (Lock m)), if Composite m then ''1'' else ''0'', if Legal_Hold (Lock m) then ''1'' else ''0'',
     if Quarantined m then ''1'' else ''0'', digits_of_nat (Size m)] @ (if User_Meta m = [] then [] else [Str_To_Hex (User_Meta m)])"
  by (simp add: line_defs meta_ok_def field_rules)

lemma fields_Ver:
  "name \<noteq> [] \<Longrightarrow> version_ok e \<Longrightarrow> fields_of [] (Ver_Line name e) = [''VER'', Str_To_Hex name, Vid e, Ver_Id e,
     digits_of_nat (Ver_Size e), if Deleted e then ''1'' else ''0''] @ (if Ver_Meta e = [] then [] else [Str_To_Hex (Ver_Meta e)])"
  by (simp add: line_defs version_ok_def field_rules)

lemma fields_A:
  "audit_ok e \<Longrightarrow> fields_of [] (A_Line e) = [''A'', digits_of_nat (Seq e), digits_of_nat (Time e),
     digits_of_nat (unat (Event_Pos (Kind e))), To_Hex (Subject e), digits_of_nat (Detail e), To_Hex (Prev_Hash e), To_Hex (Hash e)]"
  by (simp add: line_defs audit_ok_def field_rules)

lemma Natural_Value_Mode: "Natural_Value vi (digits_of_nat (Mode_Pos m)) = Some (Mode_Pos m)"
  by (rule Natural_Value_digits) (cases m, simp_all add: Natural_Last_def)

lemma Natural_Value_Event: "Natural_Value vi (digits_of_nat (unat (Event_Pos e))) = Some (unat (Event_Pos e))"
  by (rule Natural_Value_digits) (cases e, simp_all add: Natural_Last_def)

lemma Apply_Line_Obj:
  assumes "name \<noteq> []" and "meta_ok m"
  shows "Apply_Line vi (Obj_Line name m) v = Inr (v\<lparr>Index := AList.update name m (Index v)\<rparr>)"
  using assms assms(2) [unfolded meta_ok_def]
  by (simp add: Apply_Line_def apply_obj_def Field_def fields_Obj Natural_Value_Mode value_rules)
    (cases m; cases "Lock m"; simp)

lemma Apply_Line_Ver:
  assumes "name \<noteq> []" and "version_ok e"
  shows "Apply_Line vi (Ver_Line name e) v = Inr
    (let vec = (case lookup (Versions v) name of None \<Rightarrow> [] | Some xs \<Rightarrow> xs)
     in if Vid e \<in> Vid ` set vec then v else v\<lparr>Versions := AList.update name (vec @ [e]) (Versions v)\<rparr>)"
  using assms assms(2) [unfolded version_ok_def]
  by (simp add: Apply_Line_def apply_ver_def Field_def fields_Ver value_rules Let_def)
    (cases e; simp)

lemma Apply_Line_A:
  assumes "audit_ok e"
  shows "Apply_Line vi (A_Line e) v = Inr (if Seq e = length (Log v) then v\<lparr>Log := Log v @ [e]\<rparr> else v)"
  using assms assms [unfolded audit_ok_def]
  by (simp add: Apply_Line_def apply_audit_def Field_def fields_A Natural_Value_Event value_rules)

lemma durable_sels:
  "d_Index (durable v) = lookup (Index v)" "d_Log (durable v) = Log v"
  "d_Versions (durable v) k = (case lookup (Versions v) k of None \<Rightarrow> [] | Some xs \<Rightarrow> xs)"
  by (simp_all add: durable_def)

lemma versions_update:
  "(\<lambda>k. case lookup (AList.update n x m) k of None \<Rightarrow> [] | Some xs \<Rightarrow> xs) =
     (\<lambda>k. case lookup m k of None \<Rightarrow> [] | Some xs \<Rightarrow> xs)(n := x)"
  by (rule ext) (simp add: update_conv)

lemma versioned_update:
  "Bucket_Versioned (v\<lparr>Versioned := AList.update n b (Versioned v)\<rparr>) = (Bucket_Versioned v)(n := b)"
  by (rule ext) (simp add: Bucket_Versioned_def update_conv)

text \<open>A line of the serializers loads, and has the effect of its entry.\<close>

lemma Apply_Line_entry:
  assumes "entry_wf e"
  shows "\<exists>w. Apply_Line vi (entry_line e) v = Inr w \<and> durable w = dur_apply e (durable v)"
  using assms
proof (cases e)
  case (E_Boot b)
  with assms have "fields_of [] b = (if b = [] then [] else [b])" by (simp add: fields_of_last field_text_def)
  with E_Boot show ?thesis by (auto simp: Apply_Line_def Field_def durable_def Bucket_Versioned_def)
next
  case (E_Ver n x)
  with assms Apply_Line_Ver [of n x vi v] show ?thesis
    by (auto simp: Let_def durable_def versions_update Bucket_Versioned_def)
next
  case (E_Obj n m)
  with assms Apply_Line_Obj [of n m vi v] show ?thesis
    by (auto simp: durable_def update_conv' Bucket_Versioned_def)
next
  case (E_Audit x)
  with assms Apply_Line_A [of x vi v] show ?thesis by (auto simp: durable_def Bucket_Versioned_def)
next
  case (E_Vsn n b)
  with assms have "Apply_Line vi (entry_line e) v = Inr (v\<lparr>Versioned := AList.update n b (Versioned v)\<rparr>)"
    by (simp add: Apply_Line_def Field_def line_defs field_rules value_rules)
  then show ?thesis using E_Vsn by (auto simp: durable_def versioned_update)
qed (auto simp: Apply_Line_def Field_def line_defs field_rules value_rules durable_def update_conv' delete_conv'
    Bucket_Versioned_def Now_def Is_Sealed_def)

lemma replay_append: "replay vi (ls @ ms) v = (case replay vi ls v of Inl e \<Rightarrow> Inl e | Inr w \<Rightarrow> replay vi ms w)"
  by (induction ls arbitrary: v) (simp_all split: sum.split)

lemma replay_entries:
  assumes "list_all entry_wf es"
  shows "\<exists>w. replay vi (map entry_line es) v = Inr w \<and> durable w = fold dur_apply es (durable v)"
  using assms
proof (induction es arbitrary: v)
  case (Cons e es)
  then obtain u where "Apply_Line vi (entry_line e) v = Inr u" "durable u = dur_apply e (durable v)"
    using Apply_Line_entry [of e vi v] by auto
  with Cons.IH [of u] Cons.prems show ?case by auto
qed simp

section \<open>A snapshot is the durable state\<close>

definition entries :: "'d vault_env \<Rightarrow> 'd vault \<Rightarrow> entry list" where
  "entries env v =
     [E_Note ''DEZHAN_VAULT 1'', E_Clock (Now (Clock v)) (Is_Sealed (Clock v)) (Op_Sealed v), E_Boot (Last_Boot v),
      E_Modes (Ingest_Only v) (Sync_Shut v)] @
     map (\<lambda>k. E_Bkt k (the (lookup (Buckets v) k))) (iterate env (Buckets v)) @
     map (\<lambda>k. E_Vsn k True) (filter (\<lambda>k. the (lookup (Versioned v) k)) (iterate env (Versioned v))) @
     [E_Vseq (Ver_Seq v)] @
     concat (map (\<lambda>k. map (E_Ver k) (the (lookup (Versions v) k))) (iterate env (Versions v))) @
     map (\<lambda>k. E_Obj k (the (lookup (Index v) k))) (iterate env (Index v)) @
     [E_Note (''AUDIT'' @ image_text (length (Log v)))] @ map E_Audit (Log v)"

text \<open>
  The states the records can express: named objects and buckets, identifiers of 64 characters without blanks, numbers
  in their range, version ids that differ, audit entries numbered by their position.
\<close>

definition dur_wf :: "dur \<Rightarrow> bool" where
  "dur_wf s \<longleftrightarrow> fst (d_Clock s) \<le> Time_Last \<and> CHR '' '' \<notin> set (d_Boot s) \<and> d_Seq s \<le> Natural_Last \<and>
     (\<forall>k m. d_Index s k = Some m \<longrightarrow> k \<noteq> [] \<and> meta_ok m) \<and> d_Buckets s [] = None \<and> \<not> d_Versioned s [] \<and>
     d_Versions s [] = [] \<and> (\<forall>k. list_all version_ok (d_Versions s k) \<and> distinct (map Vid (d_Versions s k))) \<and>
     list_all audit_ok (d_Log s) \<and> map Seq (d_Log s) = [0..<length (d_Log s)]"

definition vault_wf :: "'d vault \<Rightarrow> bool" where
  "vault_wf v = dur_wf (durable v)"

lemma dur_wf_apply:
  assumes "dur_wf s" and "entry_wf e"
  shows "dur_wf (dur_apply e s)"
  using assms by (cases e) (auto simp: dur_wf_def)

lemma dur_wf_fold: "dur_wf s \<Longrightarrow> list_all entry_wf es \<Longrightarrow> dur_wf (fold dur_apply es s)"
  by (induction es arbitrary: s) (simp_all add: dur_wf_apply)

lemma vault_wf_versions:
  assumes "vault_wf v" and "lookup (Versions v) k = Some xs"
  shows "list_all version_ok xs \<and> distinct (map Vid xs) \<and> (k = [] \<longrightarrow> xs = [])"
proof -
  have "list_all version_ok (d_Versions (durable v) k) \<and> distinct (map Vid (d_Versions (durable v) k)) \<and>
      d_Versions (durable v) [] = []" using assms(1) by (simp add: vault_wf_def dur_wf_def)
  with assms(2) show ?thesis by (auto simp: durable_sels)
qed

lemma snapshot_entries: "snapshot_lines env v = map entry_line (entries env v)"
  by (simp add: snapshot_lines_def entries_def Core_Clock_def Core_Boot_def Core_Modes_def Core_Vseq_def map_concat comp_def)

lemma set_iterate: "set (iterate env m) = dom (lookup m)"
  by (simp add: iterate_def Let_def keys_of_def dom_map_of_conv_image_fst)

lemma distinct_iterate: "distinct (iterate env m)"
  by (simp add: iterate_def Let_def keys_of_def)

lemma entries_wf:
  assumes "vault_wf v"
  shows "list_all entry_wf (entries env v)"
proof -
  note wf = assms [unfolded vault_wf_def dur_wf_def durable_def, simplified]
  have "list_all entry_wf (map (\<lambda>k. E_Bkt k (the (lookup (Buckets v) k))) (iterate env (Buckets v)))"
    using wf by (auto simp: list_all_iff set_iterate)
  moreover have "list_all entry_wf (map (\<lambda>k. E_Vsn k True) (filter (\<lambda>k. the (lookup (Versioned v) k)) (iterate env (Versioned v))))"
    using wf by (auto simp: list_all_iff set_iterate Bucket_Versioned_def)
  moreover have "list_all entry_wf (concat (map (\<lambda>k. map (E_Ver k) (the (lookup (Versions v) k))) (iterate env (Versions v))))"
    using vault_wf_versions [OF assms] by (fastforce simp: list_all_iff set_iterate)
  moreover have "list_all entry_wf (map (\<lambda>k. E_Obj k (the (lookup (Index v) k))) (iterate env (Index v)))"
    using wf by (auto simp: list_all_iff set_iterate)
  moreover have "list_all entry_wf (map E_Audit (Log v))" using wf by (simp add: list_all_iff)
  ultimately show ?thesis using wf by (auto simp: entries_def)
qed

lemma fold_Bkt:
  "fold dur_apply (map (\<lambda>k. E_Bkt k (f k)) ks) s =
     s\<lparr>d_Buckets := d_Buckets s ++ (\<lambda>k. Some (f k)) |` set ks\<rparr>"
  by (induction ks arbitrary: s) (auto simp: fun_eq_iff map_add_def restrict_map_def)

lemma fold_Vsn:
  "fold dur_apply (map (\<lambda>k. E_Vsn k True) ks) s = s\<lparr>d_Versioned := (\<lambda>k. k \<in> set ks \<or> d_Versioned s k)\<rparr>"
  by (induction ks arbitrary: s) (auto simp: fun_eq_iff)

lemma fold_Obj:
  "fold dur_apply (map (\<lambda>k. E_Obj k (f k)) ks) s =
     s\<lparr>d_Index := d_Index s ++ (\<lambda>k. Some (f k)) |` set ks\<rparr>"
  by (induction ks arbitrary: s) (auto simp: fun_eq_iff map_add_def restrict_map_def)

lemma fold_Ver1:
  "distinct (map Vid (d_Versions s k @ xs)) \<Longrightarrow>
     fold dur_apply (map (E_Ver k) xs) s = s\<lparr>d_Versions := (d_Versions s)(k := d_Versions s k @ xs)\<rparr>"
  by (induction xs arbitrary: s) auto

lemma fold_Ver:
  assumes "distinct ks" and "\<forall>k\<in>set ks. d_Versions s k = [] \<and> distinct (map Vid (f k))"
  shows "fold dur_apply (concat (map (\<lambda>k. map (E_Ver k) (f k)) ks)) s =
     s\<lparr>d_Versions := override_on (d_Versions s) f (set ks)\<rparr>"
  using assms by (induction ks arbitrary: s) (auto simp: fold_Ver1 fun_eq_iff override_on_def)

lemma fold_Audit:
  "map Seq es = [length (d_Log s)..<length (d_Log s) + length es] \<Longrightarrow>
     fold dur_apply (map E_Audit es) s = s\<lparr>d_Log := d_Log s @ es\<rparr>"
proof (induction es arbitrary: s)
  case (Cons e es)
  then have "Seq e = length (d_Log s)" "map Seq es = [length (d_Log s) + 1..<length (d_Log s) + 1 + length es]"
    by (simp_all add: upt_conv_Cons del: upt_Suc)
  with Cons.IH [of "s\<lparr>d_Log := d_Log s @ [e]\<rparr>"] show ?case by simp
qed simp

lemma restrict_all: "(\<lambda>k. Some (the (m k))) |` dom m = m"
  by (auto simp: fun_eq_iff restrict_map_def domIff)

lemma fold_entries:
  assumes "vault_wf v"
  shows "fold dur_apply (entries env v) (durable (new_state d)) = durable v"
proof -
  have ver: "distinct (map Vid (the (lookup (Versions v) k)))" if "k \<in> dom (lookup (Versions v))" for k
    using that vault_wf_versions [OF assms] by auto
  have vers: "override_on (\<lambda>k. []) (\<lambda>k. the (m k)) (dom m) = (\<lambda>k. case m k of None \<Rightarrow> [] | Some xs \<Rightarrow> xs)"
    for m :: "string \<Rightarrow> Version_Entry list option" by (auto simp: fun_eq_iff override_on_def split: option.split)
  have vsn: "(\<lambda>k. k \<in> dom (lookup (Versioned v)) \<and> the (lookup (Versioned v) k)) = Bucket_Versioned v"
    by (auto simp: fun_eq_iff Bucket_Versioned_def split: option.split)
  have new: "durable (new_state d) = \<lparr>d_Clock = (0, False), d_Sealed = False, d_Boot = [], d_Modes = (False, False), d_Seq = 0,
      d_Buckets = Map.empty, d_Versioned = (\<lambda>k. False), d_Index = Map.empty, d_Versions = (\<lambda>k. []), d_Log = []\<rparr>"
    by (simp add: durable_def new_state_def Bucket_Versioned_def [abs_def] Now_def Is_Sealed_def)
  have "map Seq (Log v) = [0..<length (Log v)]" using assms by (simp add: vault_wf_def dur_wf_def durable_def)
  with ver show ?thesis
    by (simp add: new entries_def fold_Bkt fold_Vsn fold_Obj fold_Ver distinct_iterate set_iterate fold_Audit)
      (simp add: durable_def restrict_all vers vsn)
qed

section \<open>Replaying a journal twice\<close>

text \<open>The last writer wins: an entry overrides some places of a component.\<close>

definition ovr :: "('k \<Rightarrow> 'v option) \<Rightarrow> ('k \<Rightarrow> 'v) \<Rightarrow> 'k \<Rightarrow> 'v" where
  "ovr w s = (\<lambda>k. case w k of None \<Rightarrow> s k | Some x \<Rightarrow> x)"

lemma fold_ovr: "fold (\<lambda>e. ovr (w e)) es s = ovr (foldl (\<lambda>m e. m ++ w e) Map.empty es) s"
proof (induction es rule: rev_induct)
  case (snoc e es)
  then show ?case by (auto simp: fun_eq_iff ovr_def map_add_def split: option.split)
qed (simp add: ovr_def)

lemma fold_ovr_twice: "fold (\<lambda>e. ovr (w e)) es (fold (\<lambda>e. ovr (w e)) es s) = fold (\<lambda>e. ovr (w e)) es s"
  by (auto simp: fold_ovr ovr_def fun_eq_iff split: option.split)

lemma fold_component:
  assumes "\<And>e s. C (f e s) = g e (C s)"
  shows "C (fold f es s) = fold g es (C s)"
  by (induction es arbitrary: s) (simp_all add: assms)

lemma component_twice:
  assumes "\<And>e s. C (dur_apply e s) = ovr (w e) (C s)"
  shows "C (fold dur_apply es (fold dur_apply es s)) = C (fold dur_apply es s)"
  using fold_component [of C dur_apply "\<lambda>e. ovr (w e)"] assms fold_ovr_twice [of w es] by metis

lemma clock_twice: "d_Clock (fold dur_apply es (fold dur_apply es s)) = d_Clock (fold dur_apply es s)"
  using component_twice [of "\<lambda>s (u::unit). d_Clock s" "\<lambda>e u. case e of E_Clock t b c \<Rightarrow> Some (t, b) | _ \<Rightarrow> None" es s]
  by (simp add: ovr_def fun_eq_iff split: entry.split)

lemma sealed_twice: "d_Sealed (fold dur_apply es (fold dur_apply es s)) = d_Sealed (fold dur_apply es s)"
  using component_twice [of "\<lambda>s (u::unit). d_Sealed s" "\<lambda>e u. case e of E_Clock t b c \<Rightarrow> Some c | _ \<Rightarrow> None" es s]
  by (simp add: ovr_def fun_eq_iff split: entry.split)

lemma boot_twice: "d_Boot (fold dur_apply es (fold dur_apply es s)) = d_Boot (fold dur_apply es s)"
  using component_twice [of "\<lambda>s (u::unit). d_Boot s" "\<lambda>e u. case e of E_Boot b \<Rightarrow> Some b | _ \<Rightarrow> None" es s]
  by (simp add: ovr_def fun_eq_iff split: entry.split)

lemma modes_twice: "d_Modes (fold dur_apply es (fold dur_apply es s)) = d_Modes (fold dur_apply es s)"
  using component_twice [of "\<lambda>s (u::unit). d_Modes s" "\<lambda>e u. case e of E_Modes a b \<Rightarrow> Some (a, b) | _ \<Rightarrow> None" es s]
  by (simp add: ovr_def fun_eq_iff split: entry.split)

lemma seq_twice: "d_Seq (fold dur_apply es (fold dur_apply es s)) = d_Seq (fold dur_apply es s)"
  using component_twice [of "\<lambda>s (u::unit). d_Seq s" "\<lambda>e u. case e of E_Vseq n \<Rightarrow> Some n | _ \<Rightarrow> None" es s]
  by (simp add: ovr_def fun_eq_iff split: entry.split)

lemma buckets_twice: "d_Buckets (fold dur_apply es (fold dur_apply es s)) = d_Buckets (fold dur_apply es s)"
  using component_twice [of d_Buckets "\<lambda>e. case e of E_Bkt n b \<Rightarrow> [n \<mapsto> Some b] | _ \<Rightarrow> Map.empty" es s]
  by (simp add: ovr_def fun_eq_iff split: entry.split)

lemma versioned_twice: "d_Versioned (fold dur_apply es (fold dur_apply es s)) = d_Versioned (fold dur_apply es s)"
  using component_twice [of d_Versioned "\<lambda>e. case e of E_Vsn n b \<Rightarrow> [n \<mapsto> b] | _ \<Rightarrow> Map.empty" es s]
  by (simp add: ovr_def fun_eq_iff split: entry.split)

lemma index_twice: "d_Index (fold dur_apply es (fold dur_apply es s)) = d_Index (fold dur_apply es s)"
  using component_twice [of d_Index
      "\<lambda>e. case e of E_Obj n m \<Rightarrow> [n \<mapsto> Some m] | E_Del n \<Rightarrow> [n \<mapsto> None] | _ \<Rightarrow> Map.empty" es s]
  by (simp add: ovr_def fun_eq_iff split: entry.split)

text \<open>Versions and audit entries are recognised when they come again.\<close>

lemma vids_grow: "Vid ` set (d_Versions s k) \<subseteq> Vid ` set (d_Versions (dur_apply e s) k)"
  by (cases e) auto

lemma vids_fold: "Vid ` set (d_Versions s k) \<subseteq> Vid ` set (d_Versions (fold dur_apply es s) k)"
proof (induction es arbitrary: s)
  case (Cons e es)
  from vids_grow [of s k e] Cons.IH [of "dur_apply e s"] show ?case by auto
qed simp

lemma vids_present: "E_Ver n x \<in> set es \<Longrightarrow> Vid x \<in> Vid ` set (d_Versions (fold dur_apply es s) n)"
proof (induction es arbitrary: s)
  case (Cons e es)
  show ?case
  proof (cases "e = E_Ver n x")
    case True
    have "Vid x \<in> Vid ` set (d_Versions (dur_apply e s) n)" by (auto simp: True)
    with vids_fold [of "dur_apply e s" n es] show ?thesis by auto
  next
    case False
    with Cons show ?thesis by auto
  qed
qed simp

lemma versions_fixed:
  assumes "\<forall>n x. E_Ver n x \<in> set es \<longrightarrow> Vid x \<in> Vid ` set (d_Versions s n)"
  shows "d_Versions (fold dur_apply es s) = d_Versions s"
  using assms
proof (induction es arbitrary: s)
  case (Cons e es)
  have "d_Versions (dur_apply e s) = d_Versions s" using Cons.prems by (cases e) auto
  with Cons.IH [of "dur_apply e s"] Cons.prems show ?case by auto
qed simp

primrec entry_seq :: "entry \<Rightarrow> nat list" where
  "entry_seq (E_Clock t b c) = []"
| "entry_seq (E_Boot b) = []"
| "entry_seq (E_Modes a b) = []"
| "entry_seq (E_Vseq n) = []"
| "entry_seq (E_Bkt n b) = []"
| "entry_seq (E_Vsn n b) = []"
| "entry_seq (E_Ver n e) = []"
| "entry_seq (E_Obj n m) = []"
| "entry_seq (E_Del n) = []"
| "entry_seq (E_Audit e) = [Seq e]"
| "entry_seq (E_Note t) = []"

lemma log_fixed:
  assumes "length (d_Log s) \<notin> set (concat (map entry_seq es))"
  shows "d_Log (fold dur_apply es s) = d_Log s"
  using assms
proof (induction es arbitrary: s)
  case (Cons e es)
  have "d_Log (dur_apply e s) = d_Log s" using Cons.prems by (cases e) auto
  with Cons.IH [of "dur_apply e s"] Cons.prems show ?case by auto
qed simp

text \<open>After a journal whose audit entries are in ascending order none of them is the next expected.\<close>

lemma log_complete:
  assumes "sorted (concat (map entry_seq es))"
  shows "length (d_Log (fold dur_apply es s)) \<notin> set (concat (map entry_seq es))"
  using assms
proof (induction es arbitrary: s)
  case (Cons e es)
  let ?t = "dur_apply e s"
  have rest: "length (d_Log (fold dur_apply es ?t)) \<notin> set (concat (map entry_seq es))"
    using Cons.IH [of ?t] Cons.prems by (simp add: sorted_append)
  have grow: "length (d_Log u) \<le> length (d_Log (fold dur_apply fs u))" for u and fs
  proof (induction fs arbitrary: u)
    case (Cons f fs)
    have "length (d_Log u) \<le> length (d_Log (dur_apply f u))" by (cases f) auto
    with Cons.IH [of "dur_apply f u"] show ?case by simp
  qed simp
  show ?case
  proof (cases e)
    case (E_Audit x)
    have "Seq x \<noteq> length (d_Log (fold dur_apply es ?t))"
    proof (cases "Seq x \<le> length (d_Log s)")
      case True
      then have "Seq x < length (d_Log ?t) \<or> (Seq x < length (d_Log s))" using E_Audit by auto
      with grow [of ?t es] grow [of s "[e]"] show ?thesis by auto
    next
      case False
      then have t: "?t = s" using E_Audit by simp
      have "\<forall>n\<in>set (concat (map entry_seq es)). Seq x \<le> n"
        using Cons.prems E_Audit by auto
      with False have "length (d_Log s) \<notin> set (concat (map entry_seq es))" by auto
      then have "d_Log (fold dur_apply es ?t) = d_Log s" unfolding t by (rule log_fixed)
      with False show ?thesis by auto
    qed
    with rest E_Audit show ?thesis by auto
  qed (use rest in auto)
qed simp

lemma dur_apply_twice:
  assumes "sorted (concat (map entry_seq es))"
  shows "fold dur_apply es (fold dur_apply es s) = fold dur_apply es s"
  by (rule dur.equality)
    (simp_all add: clock_twice sealed_twice boot_twice modes_twice seq_twice buckets_twice versioned_twice index_twice
      versions_fixed vids_present log_fixed [OF log_complete [OF assms]])

section \<open>Properties\<close>

text \<open>Loading neither touches the content store nor starts the clock.\<close>

lemma Apply_Line_frame: "Apply_Line vi l v = Inr w \<Longrightarrow> Store w = Store v \<and> (Started w \<longrightarrow> Started v)"
  by (auto simp: Apply_Line_def apply_ver_def apply_obj_def apply_audit_def or_raise_def Let_def
      split: if_splits option.splits)

lemma replay_frame: "replay vi ls v = Inr w \<Longrightarrow> Store w = Store v \<and> (Started w \<longrightarrow> Started v)"
proof (induction ls arbitrary: v)
  case (Cons l ls)
  then obtain u where "Apply_Line vi l v = Inr u" "replay vi ls u = Inr w" by (auto split: sum.splits)
  with Cons.IH Apply_Line_frame show ?case by metis
qed simp

lemma Open_entries:
  assumes "vault_wf v" and "list_all entry_wf es"
  shows "\<exists>p. Open env vi \<lparr>State_File = Some (snapshot_lines env v), Journal_File = Some (map entry_line es)\<rparr> d = Inr p \<and>
     durable (Self p) = fold dur_apply es (durable v) \<and> Jrnl_Buf p = [] \<and> Jrnl_Count p = length es \<and>
     Disk p = \<lparr>State_File = Some (snapshot_lines env v), Journal_File = Some (map entry_line es)\<rparr> \<and>
     \<not> Started (Self p) \<and> Store (Self p) = d"
proof -
  obtain w where w: "replay vi (snapshot_lines env v) (new_state d) = Inr w" "durable w = durable v"
    using replay_entries [OF entries_wf [OF assms(1)], of vi env "new_state d"]
    unfolding snapshot_entries fold_entries [OF assms(1)] by blast
  obtain u where u: "replay vi (map entry_line es) w = Inr u" "durable u = fold dur_apply es (durable w)"
    using replay_entries [OF assms(2)] by blast
  moreover have "\<not> Started u \<and> Store u = d"
    using replay_frame [OF w(1)] replay_frame [OF u(1)] by (simp add: new_state_def)
  ultimately show ?thesis using w by (simp add: Open_def Load_def)
qed

end
