(* ===== verification/Vault_Versions.thy ===== *)
theory Vault_Versions
  imports Vault
begin

text \<open>
  Object versions of \<open>src/vault/src/dezhan-vault.adb\<close>: recording a version after a put, reading, deleting and listing
  versions.  A version keeps the id of the content, so that it can be read after the object has been replaced.
\<close>

section \<open>Operations\<close>

definition versions_of :: "'d vault \<Rightarrow> string \<Rightarrow> Version_Entry list" where
  "versions_of v name = (case lookup (Versions v) name of None \<Rightarrow> [] | Some xs \<Rightarrow> xs)"

definition Record_Version :: "string \<Rightarrow> ('d vault, ada_exn, string) io" where
  "Record_Version name = (\<lambda>v. case lookup (Index v) name of
       None \<Rightarrow> io_throw Constraint_Error v
     | Some m \<Rightarrow>
         if Ver_Seq v = Natural_Last then io_throw Constraint_Error v
         else
          (let vid = digits_of_nat (Ver_Seq v + 1);
               e = \<lparr>Vid = vid, Ver_Id = Id m, Ver_Size = Size m, Ver_Meta = User_Meta m, Deleted = False\<rparr>
           in io_bind (io_modify (\<lambda>v. v\<lparr>Ver_Seq := Ver_Seq v + 1,
                Versions := AList.update name (versions_of v name @ [e]) (Versions v)\<rparr>)) (\<lambda>_. io_return vid) v))"

definition Get_Object_Version :: "'d vault_env \<Rightarrow> string \<Rightarrow> string \<Rightarrow> ('d vault, ada_exn, bytes) io" where
  "Get_Object_Version env name vid = (\<lambda>v.
     if Ingest_Only v then io_throw Egress_Denied v
     else (case lookup (Versions v) name of
         None \<Rightarrow> io_throw Not_Found v
       | Some xs \<Rightarrow> (case find (\<lambda>e. Vid e = vid) xs of
             None \<Rightarrow> io_throw Not_Found v
           | Some e \<Rightarrow> if Deleted e then io_throw Not_Found v
               else (case cas_Get env (Ver_Id e) (Store v) of Inl x \<Rightarrow> io_throw x v | Inr b \<Rightarrow> io_return b v))))"

text \<open>The loop over the versions keeps the last index that matches.\<close>

definition last_match :: "string \<Rightarrow> Version_Entry list \<Rightarrow> nat option" where
  "last_match vid xs = foldl (\<lambda>idx i. if Vid (xs ! i) = vid then Some i else idx) None [0..<length xs]"

definition Delete_Version :: "string \<Rightarrow> string \<Rightarrow> ('d vault, ada_exn, unit) io" where
  "Delete_Version name vid = (\<lambda>v. case lookup (Versions v) name of
       None \<Rightarrow> io_throw Not_Found v
     | Some xs \<Rightarrow> (case last_match vid xs of
           None \<Rightarrow> io_throw Not_Found v
         | Some i \<Rightarrow>
            (let vec = take i xs @ drop (Suc i) xs;
                 index = AList.delete name (Index v);
                 index = (case find (\<lambda>e. \<not> Deleted e) (rev vec) of
                     None \<Rightarrow> index
                   | Some e \<Rightarrow> AList.update name \<lparr>Id = Ver_Id e, Lock = Create_Lock Governance 0 0, Composite = False,
                       Quarantined = False, Size = Ver_Size e, User_Meta = Ver_Meta e\<rparr> index)
             in io_modify (\<lambda>v. v\<lparr>Index := index,
                  Versions := (if vec = [] then AList.delete name (Versions v) else AList.update name vec (Versions v))\<rparr>) v)))"

definition List_Object_Versions :: "'d vault_env \<Rightarrow> 'd vault \<Rightarrow> string \<Rightarrow> string" where
  "List_Object_Versions env v bucket =
    (let ks = keys_of (Versions v); prefix = bucket @ ''/''; tab = [CHR 0x09]
     in concat (map (\<lambda>k. if HasPrefix k prefix then
          concat (map (\<lambda>e. drop (length prefix) k @ tab @ Vid e @ tab @ digits_of_nat (Ver_Size e) @ tab @ Ver_Id e @ tab @
            (if Deleted e then ''1'' else ''0'') @ [CHR 0x0A]) (versions_of v k)) else [])
        (sort_key (rank env ks) ks)))"

section \<open>Properties\<close>

lemma last_match_upto:
  "n \<le> length xs \<Longrightarrow> foldl (\<lambda>idx i. if Vid (xs ! i) = vid then Some i else idx) None [0..<n] = None \<longleftrightarrow>
     (\<forall>i<n. Vid (xs ! i) \<noteq> vid)"
  by (induction n) (auto simp: less_Suc_eq)

lemma last_match_None: "last_match vid xs = None \<longleftrightarrow> vid \<notin> Vid ` set xs"
  by (simp add: last_match_def last_match_upto image_iff) (metis in_set_conv_nth)

lemma last_match_less: "last_match vid xs = Some i \<Longrightarrow> i < length xs"
proof -
  have "foldl (\<lambda>idx i. if Vid (xs ! i) = vid then Some i else idx) None [0..<n] = Some i \<Longrightarrow> i < n" for n
    by (induction n) (auto split: if_splits)
  then show "last_match vid xs = Some i \<Longrightarrow> i < length xs" by (simp add: last_match_def)
qed

text \<open>The operations on objects, buckets, holds and modes do not touch the versions.\<close>

definition same_versions :: "'d vault \<Rightarrow> 'd vault \<Rightarrow> bool" where
  "same_versions v v' \<longleftrightarrow> Versions v' = Versions v \<and> Ver_Seq v' = Ver_Seq v"

lemma Add_Audit_same: "Add_Audit env kind subject detail v = Some (r, v') \<Longrightarrow> same_versions v v'"
  by (auto simp: Add_Audit_def io_throw_def io_modify_def same_versions_def split: if_splits)

lemma Put_Object_same: "Put_Object env name data mode retain_for um v = Some (r, v') \<Longrightarrow> same_versions v v'"
  using store_object_frame [of env data v]
  by (auto simp: Put_Object_def Let_def io_bind_def io_try_def io_gets_def io_modify_def Check_Ingest_def io_return_def io_throw_def
      same_versions_def dest!: Add_Audit_same split: if_splits option.splits sum.splits prod.splits)

lemma ops_keep:
  "Delete_Object env name bypass v = Some (r, v') \<Longrightarrow> same_versions v v' \<and> Store v' = Store v"
  "Set_Legal_Hold env name v = Some (u, v') \<Longrightarrow> same_versions v v' \<and> Store v' = Store v"
  "Release_Legal_Hold env name v = Some (u, v') \<Longrightarrow> same_versions v v' \<and> Store v' = Store v"
  "Create_Bucket name lock v = Some (u, v') \<Longrightarrow> same_versions v v' \<and> Store v' = Store v"
  "Delete_Bucket name v = Some (u, v') \<Longrightarrow> same_versions v v' \<and> Store v' = Store v"
  "Set_Versioning name on v = Some (u, v') \<Longrightarrow> same_versions v v' \<and> Store v' = Store v"
  "Seal env v = Some (u, v') \<Longrightarrow> same_versions v v' \<and> Store v' = Store v"
  "Tick_From_System env x boot v = Some (u, v') \<Longrightarrow> same_versions v v' \<and> Store v' = Store v"
  "Set_One_Way_Ingest b v = Some (u, v') \<Longrightarrow> same_versions v v' \<and> Store v' = Store v"
  "Open_Sync_Window v = Some (u, v') \<Longrightarrow> same_versions v v' \<and> Store v' = Store v"
  "Close_Sync_Window v = Some (u, v') \<Longrightarrow> same_versions v v' \<and> Store v' = Store v"
  by (auto simp: same_versions_def Delete_Object_def Set_Legal_Hold_def Release_Legal_Hold_def Create_Bucket_def Delete_Bucket_def
      Set_Versioning_def Seal_def Tick_From_System_def Tick_Clock_def Set_One_Way_Ingest_def Open_Sync_Window_def
      Close_Sync_Window_def Check_Ingest_def io_when_def Let_def Add_Audit_def io_bind_def io_try_def io_modify_def io_throw_def io_return_def
      split: if_splits option.splits)

lemmas ops_same = ops_keep [THEN conjunct1]

lemma Get_Object_keep: "Get_Object env name v = Some (r, v') \<Longrightarrow> v' = v"
  by (auto simp: Get_Object_def io_throw_def io_return_def split: if_splits option.splits sum.splits)

lemma Delete_Marker_versions:
  assumes "Delete_Marker env name v = Some (r, v')"
  shows "Store v' = Store v \<and> (v' = v \<or> (\<exists>e. Versions v' = AList.update name (versions_of v name @ [e]) (Versions v)))"
  using assms
  by (auto simp: Delete_Marker_def Let_def Add_Audit_def io_bind_def io_try_def io_modify_def io_throw_def io_return_def
      versions_of_def split: if_splits)

text \<open>Histories only grow at their end, and content stays readable.\<close>

definition history_grows :: "'d vault_env \<Rightarrow> 'd vault \<Rightarrow> 'd vault \<Rightarrow> bool" where
  "history_grows env v v' \<longleftrightarrow> preserves env (Store v) (Store v') \<and>
     (\<forall>k xs. lookup (Versions v) k = Some xs \<longrightarrow> (\<exists>ys. lookup (Versions v') k = Some (xs @ ys)))"

lemma history_refl: "history_grows env v v"
  by (auto simp: history_grows_def)

lemma history_trans: "history_grows env u v \<Longrightarrow> history_grows env v w \<Longrightarrow> history_grows env u w"
  unfolding history_grows_def by (metis append.assoc preserves_trans)

lemma history_same: "same_versions v v' \<and> Store v' = Store v \<Longrightarrow> history_grows env v v'"
  by (auto simp: same_versions_def history_grows_def)

lemmas history_ops = ops_keep [THEN history_same]

text \<open>Writes to the content store, failed ones too, keep what can be read.\<close>

definition keeps :: "'d vault_env \<Rightarrow> ('d vault, ada_exn, 'a) io \<Rightarrow> bool" where
  "keeps env m \<longleftrightarrow> (\<forall>v r v'. m v = Some (r, v') \<longrightarrow> preserves env (Store v) (Store v'))"

lemma keeps_basic: "keeps env (io_return x)" "keeps env (io_throw e)"
  by (simp_all add: keeps_def io_return_def io_throw_def)

lemma keeps_try: "keeps env m \<Longrightarrow> (\<And>e. keeps env (h e)) \<Longrightarrow> (\<And>x. keeps env (k x)) \<Longrightarrow> keeps env (io_try m h k)"
  unfolding keeps_def io_try_def by (fastforce split: option.splits sum.splits intro: preserves_trans)

lemma keeps_bind: "keeps env m \<Longrightarrow> (\<And>x. keeps env (k x)) \<Longrightarrow> keeps env (io_bind m k)"
  by (simp add: io_bind_def keeps_try keeps_basic)

lemma keeps_put: "cas_spec env \<Longrightarrow> keeps env (store_put env data)"
  using store_put_preserves by (fastforce simp: keeps_def)

lemma keeps_parts: "cas_spec env \<Longrightarrow> keeps env (store_parts env ps)"
  by (induction ps) (auto intro!: keeps_bind keeps_basic keeps_put)

lemma keeps_object: "cas_spec env \<Longrightarrow> keeps env (store_object env data)"
  by (auto simp: store_object_def Store_Composite_def intro!: keeps_try keeps_bind keeps_basic keeps_put keeps_parts)

lemma Put_Object_preserves:
  assumes "cas_spec env" and "Put_Object env name data mode retain_for um v = Some (r, v')"
  shows "preserves env (Store v) (Store v')"
proof -
  have "keeps env Check_Ingest" "keeps env (io_gets f)" "keeps env (Add_Audit env kind subject detail)"
    "(\<And>v. Store (g v) = Store v) \<Longrightarrow> keeps env (io_modify g)" for f :: "'a vault \<Rightarrow> nat" and g kind subject detail
    by (auto simp: keeps_def Check_Ingest_def io_gets_def Add_Audit_def io_modify_def io_throw_def io_return_def split: if_splits)
  then have "keeps env (Put_Object env name data mode retain_for um)"
    using keeps_object [OF assms(1)] unfolding Put_Object_def Let_def by (auto intro!: keeps_bind keeps_basic)
  then show ?thesis using assms(2) by (simp add: keeps_def)
qed

lemma history_Put:
  assumes "cas_spec env" and "Put_Object env name data mode retain_for um v = Some (r, v')"
  shows "history_grows env v v'"
  using Put_Object_same [OF assms(2)] Put_Object_preserves [OF assms] by (auto simp: same_versions_def history_grows_def)

lemma history_Marker: "Delete_Marker env name v = Some (r, v') \<Longrightarrow> history_grows env v v'"
  by (frule Delete_Marker_versions) (auto simp: history_grows_def update_conv' versions_of_def)

lemma vault_step_history: "vault_step env v v' \<Longrightarrow> cas_spec env \<Longrightarrow> history_grows env v v'"
  by (induction rule: vault_step.induct)
    (auto intro: history_Put history_Marker history_ops history_refl dest: Get_Object_keep)

lemma vault_steps_history: "(vault_step env)\<^sup>*\<^sup>* v v' \<Longrightarrow> cas_spec env \<Longrightarrow> history_grows env v v'"
  by (induction rule: rtranclp_induct) (blast intro: history_refl history_trans vault_step_history)+

lemma find_after: "find P xs = None \<Longrightarrow> find P (xs @ y # ys) = (if P y then Some y else find P ys)"
  by (induction xs) (auto split: if_splits)





end
