(* ===== verification/Vault_Multipart.thy ===== *)
theory Vault_Multipart
  imports Vault_Versions
begin

text \<open>
  Multipart uploads of \<open>src/vault/src/dezhan-vault.adb\<close>: \<open>Create_Upload\<close>, \<open>Upload_Part\<close>, \<open>Complete_Upload\<close>, \<open>Abort_Upload\<close>.
  Uploads are kept in memory beside the rest of the state (\<open>Base\<close>); their parts are an ordered map from part numbers to the
  ids of stored objects, here an association list that is read in the order of its keys.
\<close>

section \<open>State and operations\<close>

record upload =
  up_Name :: string
  up_Mode :: Lock_Mode
  up_Retain_For :: Trusted_Time
  up_Parts :: "(nat \<times> string) list"
  up_Total :: nat

record 'd mvault =
  Base :: "'d vault"
  Uploads :: "(string \<times> upload) list"
  Upload_Seq :: nat

text \<open>An action on the rest of the state, and the parts in ascending order.\<close>

definition on_base :: "('d vault, 'e, 'a) io \<Rightarrow> ('d mvault, 'e, 'a) io" where
  "on_base act = (\<lambda>m. map_option (\<lambda>(r, v). (r, m\<lparr>Base := v\<rparr>)) (act (Base m)))"

definition ordered_parts :: "(nat \<times> 'a) list \<Rightarrow> 'a list" where
  "ordered_parts ps = map snd (sort_key fst ps)"

definition Last_Key :: "(nat \<times> 'a) list \<Rightarrow> nat" where
  "Last_Key ps = foldr max (map fst ps) 0"

definition Create_Upload :: "string \<Rightarrow> Lock_Mode \<Rightarrow> Trusted_Time \<Rightarrow> ('d mvault, ada_exn, string) io" where
  "Create_Upload name mode retain_for = io_bind (on_base Check_Ingest) (\<lambda>_ m.
     if mode = Unlocked then io_throw Invalid_Mode m
     else if Upload_Seq m = Natural_Last then io_throw Constraint_Error m
     else (let id = ''upload-'' @ digits_of_nat (Upload_Seq m + 1)
       in Some (Inr id, m\<lparr>Upload_Seq := Upload_Seq m + 1, Uploads := AList.update id
            \<lparr>up_Name = name, up_Mode = mode, up_Retain_For = retain_for, up_Parts = [], up_Total = 0\<rparr> (Uploads m)\<rparr>)))"

text \<open>The size of a part counts once per part number, when the number is first used.\<close>

definition Upload_Part :: "'d vault_env \<Rightarrow> string \<Rightarrow> bytes \<Rightarrow> nat \<Rightarrow> ('d mvault, ada_exn, unit) io" where
  "Upload_Part env upload_id data part_number = io_bind (on_base Check_Ingest) (\<lambda>_ m.
     case lookup (Uploads m) upload_id of
       None \<Rightarrow> io_throw No_Such_Upload m
     | Some u \<Rightarrow> io_bind (on_base (store_put env data)) (\<lambda>pid m.
         if part_number = 0 \<and> up_Parts u \<noteq> [] \<and> Last_Key (up_Parts u) = Natural_Last then io_throw Constraint_Error m
         else
          (let pn = (if part_number > 0 then part_number else if up_Parts u = [] then 1 else Last_Key (up_Parts u) + 1);
               total = (if lookup (up_Parts u) pn = None then up_Total u + length data else up_Total u)
           in if total > Natural_Last then io_throw Constraint_Error m
              else Some (Inr (), m\<lparr>Uploads := AList.update upload_id
                     (u\<lparr>up_Total := total, up_Parts := AList.update pn pid (up_Parts u)\<rparr>) (Uploads m)\<rparr>))) m)"

text \<open>The object a completed upload becomes: the list of the ids of its parts, stored and indexed.\<close>

definition complete_object :: "'d vault_env \<Rightarrow> upload \<Rightarrow> ('d vault, ada_exn, unit) io" where
  "complete_object env u =
    io_bind (io_gets (\<lambda>v. Now (Clock v))) (\<lambda>at_time.
    if length (up_Parts u) * 64 > Natural_Last then io_throw Constraint_Error else
    io_bind (store_put env (concat (ordered_parts (up_Parts u)))) (\<lambda>list_id.
    if at_time + up_Retain_For u > Time_Last then io_throw Constraint_Error else
    io_bind (io_modify (\<lambda>v. v\<lparr>Index := AList.update (up_Name u)
       \<lparr>Id = list_id, Lock = Create_Lock (up_Mode u) (at_time + up_Retain_For u) at_time, Composite = True, Quarantined = False,
        Size = up_Total u, User_Meta = []\<rparr> (Index v)\<rparr>)) (\<lambda>_.
    Add_Audit env Lock_Created (Name_Digest env (up_Name u)) (at_time + up_Retain_For u))))"

definition Complete_Upload :: "'d vault_env \<Rightarrow> string \<Rightarrow> ('d mvault, ada_exn, unit) io" where
  "Complete_Upload env upload_id = io_bind (on_base Check_Ingest) (\<lambda>_ m.
     case lookup (Uploads m) upload_id of
       None \<Rightarrow> io_throw No_Such_Upload m
     | Some u \<Rightarrow> io_bind (on_base (complete_object env u)) (\<lambda>_.
         io_modify (\<lambda>m. m\<lparr>Uploads := AList.delete upload_id (Uploads m)\<rparr>)) m)"

definition Abort_Upload :: "string \<Rightarrow> ('d mvault, ada_exn, unit) io" where
  "Abort_Upload upload_id = io_modify (\<lambda>m. m\<lparr>Uploads := AList.delete upload_id (Uploads m)\<rparr>)"

section \<open>Parts\<close>

lemma update_new: "k \<notin> fst ` set xs \<Longrightarrow> AList.update k v xs = xs @ [(k, v)]"
  by (induction xs) auto

text \<open>Two lists with the same keys are sorted the same way.\<close>

definition same_keys :: "('a \<Rightarrow> 'b \<Rightarrow> bool) \<Rightarrow> (nat \<times> 'a) list \<Rightarrow> (nat \<times> 'b) list \<Rightarrow> bool" where
  "same_keys R = list_all2 (\<lambda>x y. fst x = fst y \<and> R (snd x) (snd y))"

lemma insort_same_keys:
  "same_keys R xs ys \<Longrightarrow> fst x = fst y \<Longrightarrow> R (snd x) (snd y) \<Longrightarrow> same_keys R (insort_key fst x xs) (insort_key fst y ys)"
  unfolding same_keys_def by (induction xs ys rule: list_all2_induct) auto

lemma sort_same_keys: "same_keys R xs ys \<Longrightarrow> same_keys R (sort_key fst xs) (sort_key fst ys)"
  unfolding same_keys_def
  by (induction xs ys rule: list_all2_induct) (auto intro!: insort_same_keys [unfolded same_keys_def])

lemma ordered_same_keys: "same_keys R xs ys \<Longrightarrow> list_all2 R (ordered_parts xs) (ordered_parts ys)"
  using sort_same_keys [of R xs ys] by (simp add: same_keys_def ordered_parts_def list_all2_conv_all_nth)

lemma same_keys_keys: "same_keys R xs ys \<Longrightarrow> map fst xs = map fst ys"
  unfolding same_keys_def by (induction rule: list_all2_induct) simp_all

definition part_stored :: "'d vault_env \<Rightarrow> 'd \<Rightarrow> string \<Rightarrow> bytes \<Rightarrow> bool" where
  "part_stored env d pid data \<longleftrightarrow> length pid = 64 \<and> cas_Get env pid d = Inr data"

lemma get_parts_stored:
  "list_all2 (part_stored env d) ids ds \<Longrightarrow> get_parts env d (concat ids) (length ids) = Inr (concat ds)"
  by (induction rule: list_all2_induct) (simp_all add: part_stored_def)

lemma length_stored: "list_all2 (part_stored env d) ids ds \<Longrightarrow> length (concat ids) = 64 * length ids"
  by (induction rule: list_all2_induct) (simp_all add: part_stored_def)

lemma part_stored_preserves: "preserves env d d' \<Longrightarrow> part_stored env d pid x \<Longrightarrow> part_stored env d' pid x"
  by (simp add: part_stored_def preserves_def)

lemma sum_ordered: "length (concat (ordered_parts ps)) = sum_list (map (\<lambda>p. length (snd p)) ps)"
proof -
  have "length (concat (ordered_parts ps)) = sum_list (map (\<lambda>p. length (snd p)) (sort_key fst ps))"
    by (simp add: ordered_parts_def length_concat comp_def)
  also have "\<dots> = sum_mset (image_mset (\<lambda>p. length (snd p)) (mset (sort_key fst ps)))"
    by (simp only: mset_map [symmetric] sum_mset_sum_list)
  finally show ?thesis by (simp only: mset_sort mset_map [symmetric] sum_mset_sum_list)
qed

section \<open>A run with one upload\<close>

text \<open>
  The steps of a run from the creation of the upload \<open>uid\<close> on, with the parts uploaded so far: a part with a new number, or
  anything else, with other uploads or with the rest of the vault.
\<close>

inductive upload_run :: "'d vault_env \<Rightarrow> string \<Rightarrow> string \<Rightarrow> Lock_Mode \<Rightarrow> Trusted_Time \<Rightarrow> (nat \<times> bytes) list \<Rightarrow> 'd mvault \<Rightarrow> bool"
  for env uid name mode retain_for where
  create: "Create_Upload name mode retain_for m = Some (Inr uid, m') \<Longrightarrow> upload_run env uid name mode retain_for [] m'"
| part: "upload_run env uid name mode retain_for ps m \<Longrightarrow> Upload_Part env uid data n m = Some (Inr (), m') \<Longrightarrow> 0 < n \<Longrightarrow>
    n \<notin> fst ` set ps \<Longrightarrow> upload_run env uid name mode retain_for (ps @ [(n, data)]) m'"
| vault: "upload_run env uid name mode retain_for ps m \<Longrightarrow> vault_step env (Base m) v \<Longrightarrow>
    upload_run env uid name mode retain_for ps (m\<lparr>Base := v\<rparr>)"
| other_create: "upload_run env uid name mode retain_for ps m \<Longrightarrow> Create_Upload n' md' rf' m = Some (r, m') \<Longrightarrow> r \<noteq> Inr uid \<Longrightarrow>
    upload_run env uid name mode retain_for ps m'"
| other_part: "upload_run env uid name mode retain_for ps m \<Longrightarrow> uid' \<noteq> uid \<Longrightarrow> Upload_Part env uid' data n m = Some (u, m') \<Longrightarrow>
    upload_run env uid name mode retain_for ps m'"
| other_complete: "upload_run env uid name mode retain_for ps m \<Longrightarrow> uid' \<noteq> uid \<Longrightarrow> Complete_Upload env uid' m = Some (u, m') \<Longrightarrow>
    upload_run env uid name mode retain_for ps m'"
| other_abort: "upload_run env uid name mode retain_for ps m \<Longrightarrow> uid' \<noteq> uid \<Longrightarrow> Abort_Upload uid' m = Some (u, m') \<Longrightarrow>
    upload_run env uid name mode retain_for ps m'"

text \<open>What the upload holds: its parts are stored, and the total is their size.\<close>

definition upload_holds :: "'d vault_env \<Rightarrow> string \<Rightarrow> string \<Rightarrow> Lock_Mode \<Rightarrow> Trusted_Time \<Rightarrow> (nat \<times> bytes) list \<Rightarrow> 'd mvault \<Rightarrow> bool" where
  "upload_holds env uid name mode retain_for ps m \<longleftrightarrow> (\<exists>u. lookup (Uploads m) uid = Some u \<and> up_Name u = name \<and> up_Mode u = mode \<and>
     up_Retain_For u = retain_for \<and> same_keys (part_stored env (Store (Base m))) (up_Parts u) ps \<and>
     up_Total u = sum_list (map (\<lambda>p. length (snd p)) ps))"

lemma upload_holds_keep:
  assumes "upload_holds env uid name mode retain_for ps m" and "lookup (Uploads m') uid = lookup (Uploads m) uid"
    and "preserves env (Store (Base m)) (Store (Base m'))"
  shows "upload_holds env uid name mode retain_for ps m'"
  using assms part_stored_preserves [OF assms(3)] unfolding upload_holds_def same_keys_def
  by (fastforce elim!: list_all2_mono)

text \<open>What each operation does to the uploads and to the store.\<close>

lemma on_base_Some: "on_base act m = Some (r, m') \<longleftrightarrow> (\<exists>v. act (Base m) = Some (r, v) \<and> m' = m\<lparr>Base := v\<rparr>)"
  by (auto simp: on_base_def)

lemma Check_Ingest_same: "Check_Ingest v = Some (r, v') \<Longrightarrow> v' = v"
  by (auto simp: Check_Ingest_def io_throw_def io_return_def split: if_splits)

lemma store_put_frame: "store_put env data v = Some (r, v') \<Longrightarrow> \<exists>d. v' = v\<lparr>Store := d\<rparr>"
  by (auto simp: store_put_def split: prod.splits)

lemma cas_Put_preserves: "cas_spec env \<Longrightarrow> cas_Put env data d = (r, d') \<Longrightarrow> preserves env d d'"
  by (simp add: cas_spec_def preserves_def)

lemmas run_defs = io_bind_def io_try_def io_modify_def io_gets_def io_throw_def io_return_def on_base_def store_put_def Check_Ingest_def
  complete_object_def Let_def

lemma Create_Upload_frame:
  assumes "Create_Upload name mode retain_for m = Some (r, m')"
  shows "Base m' = Base m" and "r \<noteq> Inr uid \<Longrightarrow> lookup (Uploads m') uid = lookup (Uploads m) uid"
  using assms by (auto simp: Create_Upload_def run_defs update_conv' split: if_splits)

lemma Upload_Part_frame:
  assumes "Upload_Part env uid' data n m = Some (r, m')" and "cas_spec env"
  shows "preserves env (Store (Base m)) (Store (Base m'))" and "uid \<noteq> uid' \<Longrightarrow> lookup (Uploads m') uid = lookup (Uploads m) uid"
proof -
  obtain r0 d where c: "cas_Put env data (Store (Base m)) = (r0, d)" by fastforce
  show "preserves env (Store (Base m)) (Store (Base m'))"
    using assms(1) c cas_Put_preserves [OF assms(2) c]
    by (cases r0) (auto simp: Upload_Part_def run_defs split: if_splits option.splits)
  show "uid \<noteq> uid' \<Longrightarrow> lookup (Uploads m') uid = lookup (Uploads m) uid"
    using assms(1) c by (cases r0) (auto simp: Upload_Part_def run_defs update_conv' split: if_splits option.splits)
qed

lemma Complete_Upload_frame:
  assumes "Complete_Upload env uid' m = Some (r, m')" and "cas_spec env"
  shows "preserves env (Store (Base m)) (Store (Base m'))" and "uid \<noteq> uid' \<Longrightarrow> lookup (Uploads m') uid = lookup (Uploads m) uid"
proof -
  have "preserves env (Store (Base m)) (Store (Base m')) \<and> (uid \<noteq> uid' \<longrightarrow> lookup (Uploads m') uid = lookup (Uploads m) uid)"
  proof (cases "lookup (Uploads m) uid'")
    case (Some u)
    obtain r0 d where c: "cas_Put env (concat (ordered_parts (up_Parts u))) (Store (Base m)) = (r0, d)" by fastforce
    show ?thesis using assms(1) c Some cas_Put_preserves [OF assms(2) c]
      by (cases r0) (auto simp: Complete_Upload_def run_defs Add_Audit_def delete_conv' split: if_splits)
  qed (use assms(1) in \<open>auto simp: Complete_Upload_def run_defs split: if_splits\<close>)
  then show "preserves env (Store (Base m)) (Store (Base m'))" "uid \<noteq> uid' \<Longrightarrow> lookup (Uploads m') uid = lookup (Uploads m) uid"
    by simp_all
qed

lemma complete_object_same: "complete_object env u v = Some (r, v') \<Longrightarrow> same_versions v v'"
  by (auto simp: complete_object_def store_put_def io_bind_def io_try_def io_gets_def io_modify_def io_return_def io_throw_def
      same_versions_def dest!: Add_Audit_same split: if_splits option.splits sum.splits prod.splits)

lemma logs_store_put: "logs env v (store_put env data v)"
  by (auto simp: store_put_def logs_def intro: logged_same split: prod.splits)

lemma logs_complete_object: "logs env v (complete_object env u v)"
  unfolding complete_object_def by (auto intro!: logs_rules logs_store_put)

text \<open>A completed upload is audited like a put.\<close>

lemma Complete_Upload_logged: "Complete_Upload env uid m = Some (r, m') \<Longrightarrow> logged env (Base m) (Base m')"
  using logs_complete_object [of env "Base m"]
  by (fastforce simp: Complete_Upload_def io_bind_def io_try_def io_modify_def io_throw_def on_base_def Check_Ingest_def io_return_def
      logs_def logged_same split: if_splits option.splits sum.splits)

lemma upload_run_holds:
  assumes "upload_run env uid name mode retain_for ps m" and "cas_spec env"
  shows "upload_holds env uid name mode retain_for ps m"
  using assms(1)
proof induction
  case (create m m')
  then show ?case by (auto simp: Create_Upload_def run_defs update_conv' upload_holds_def same_keys_def split: if_splits)
next
  case (part ps m data n m')
  from part.IH obtain u where u: "lookup (Uploads m) uid = Some u" "up_Name u = name" "up_Mode u = mode" "up_Retain_For u = retain_for"
    "same_keys (part_stored env (Store (Base m))) (up_Parts u) ps" "up_Total u = sum_list (map (\<lambda>p. length (snd p)) ps)"
    by (auto simp: upload_holds_def)
  obtain r0 d where c: "cas_Put env data (Store (Base m)) = (r0, d)" by fastforce
  have keys: "n \<notin> fst ` set (up_Parts u)" using same_keys_keys [OF u(5)] part.hyps(4) by (metis list.set_map)
  then have none: "lookup (up_Parts u) n = None" by (simp add: map_of_eq_None_iff)
  obtain pid where pid: "r0 = Inr pid" and m': "m' = m\<lparr>Base := (Base m)\<lparr>Store := d\<rparr>, Uploads := AList.update uid
      (u\<lparr>up_Total := up_Total u + length data, up_Parts := up_Parts u @ [(n, pid)]\<rparr>) (Uploads m)\<rparr>"
    using part.hyps(2,3) c u(1) none update_new [OF keys]
    by (cases r0) (auto simp: Upload_Part_def run_defs split: if_splits)
  have new: "part_stored env d pid data" using assms(2) c pid by (auto simp: cas_spec_def part_stored_def)
  have "same_keys (part_stored env d) (up_Parts u @ [(n, pid)]) (ps @ [(n, data)])"
    using u(5) new part_stored_preserves [OF cas_Put_preserves [OF assms(2) c]]
    unfolding same_keys_def by (auto intro!: list_all2_appendI elim!: list_all2_mono)
  with u show ?case by (simp add: upload_holds_def m' update_conv')
next
  case (vault ps m v)
  have "preserves env (Store (Base m)) (Store v)" using vault_step_history [OF vault.hyps(2) assms(2)] by (simp add: history_grows_def)
  with vault.IH show ?case by (auto elim: upload_holds_keep)
next
  case other_create
  from Create_Upload_frame [OF other_create.hyps(2)] other_create show ?case by (auto intro: upload_holds_keep)
next
  case other_part
  from Upload_Part_frame [OF other_part.hyps(3) assms(2)] other_part show ?case by (auto intro: upload_holds_keep)
next
  case other_complete
  from Complete_Upload_frame [OF other_complete.hyps(3) assms(2)] other_complete show ?case by (auto intro: upload_holds_keep)
next
  case (other_abort ps m uid' u m')
  then show ?case by (auto simp: Abort_Upload_def io_modify_def delete_conv' intro: upload_holds_keep)
qed

section \<open>A sample upload\<close>

abbreviation cell :: "nat \<Rightarrow> string" where
  "cell n \<equiv> replicate 64 (char_of n)"

definition mvault_with :: "(nat \<times> string) list \<Rightarrow> nat \<Rightarrow> (string \<times> bytes) list \<Rightarrow> (string \<times> bytes) list mvault" where
  "mvault_with ps n d = \<lparr>Base = empty_vault\<lparr>Store := d\<rparr>, Uploads = [(''upload-1'', \<lparr>up_Name = ''f'', up_Mode = Governance,
     up_Retain_For = 5, up_Parts = ps, up_Total = n\<rparr>)], Upload_Seq = 1\<rparr>"

lemmas sample_defs = mvault_with_def run_defs empty_vault_def list_env_def Natural_Last_def Time_Last_def Init_def Now_def
  replicate_eq_replicate eq_char_of

lemma sample_create:
  "Create_Upload ''f'' Governance 5 \<lparr>Base = empty_vault, Uploads = [], Upload_Seq = 0\<rparr> = Some (Inr ''upload-1'', mvault_with [] 0 [])"
  by (simp add: Create_Upload_def sample_defs digits_of_nat.simps char_of_def bit_0)

lemma sample_parts:
  "Upload_Part list_env ''upload-1'' ''lo'' 2 (mvault_with [] 0 []) = Some (Inr (), mvault_with [(2, cell 0)] 2 [(cell 0, ''lo'')])"
  "Upload_Part list_env ''upload-1'' ''hel'' 1 (mvault_with [(2, cell 0)] 2 [(cell 0, ''lo'')]) =
     Some (Inr (), mvault_with [(2, cell 0), (1, cell 1)] 5 [(cell 1, ''hel''), (cell 0, ''lo'')])"
  "Upload_Part list_env ''upload-1'' ''x'' 2 (mvault_with [(2, cell 0)] 2 [(cell 0, ''lo'')]) =
     Some (Inr (), mvault_with [(2, cell 1)] 2 [(cell 1, ''x''), (cell 0, ''lo'')])"
  by (simp_all add: Upload_Part_def sample_defs Last_Key_def)

lemma sample_complete:
  "\<exists>m. Complete_Upload list_env ''upload-1'' (mvault_with [(2, cell 0), (1, cell 1)] 5 [(cell 1, ''hel''), (cell 0, ''lo'')]) = Some (Inr (), m)"
  "\<exists>m. Complete_Upload list_env ''upload-1'' (mvault_with [(2, cell 1)] 2 [(cell 1, ''x''), (cell 0, ''lo'')]) = Some (Inr (), m)"
  by (simp_all add: Complete_Upload_def Add_Audit_def Append_def Genesis_Entry_def sample_defs)

lemma sample_run:
  "upload_run list_env ''upload-1'' ''f'' Governance 5 [(2, ''lo'')] (mvault_with [(2, cell 0)] 2 [(cell 0, ''lo'')])"
  "upload_run list_env ''upload-1'' ''f'' Governance 5 [(2, ''lo''), (1, ''hel'')]
     (mvault_with [(2, cell 0), (1, cell 1)] 5 [(cell 1, ''hel''), (cell 0, ''lo'')])"
proof -
  show one: "upload_run list_env ''upload-1'' ''f'' Governance 5 [(2, ''lo'')] (mvault_with [(2, cell 0)] 2 [(cell 0, ''lo'')])"
    using upload_run.part [OF upload_run.create [OF sample_create] sample_parts(1)] by simp
  show "upload_run list_env ''upload-1'' ''f'' Governance 5 [(2, ''lo''), (1, ''hel'')]
     (mvault_with [(2, cell 0), (1, cell 1)] 5 [(cell 1, ''hel''), (cell 0, ''lo'')])"
    using upload_run.part [OF one sample_parts(2)] by simp
qed

section \<open>Properties\<close>

text \<open>Completing an upload: the object's entry, and what reading it gives.\<close>

lemma Complete_Upload_run:
  assumes "cas_spec env" and "Complete_Upload env uid m = Some (Inr (), m')" and "lookup (Uploads m) uid = Some u"
    and "list_all2 (part_stored env (Store (Base m))) (ordered_parts (up_Parts u)) ds" and "\<not> Ingest_Only (Base m)"
  shows "Get_Object env (up_Name u) (Base m') = Some
      (if length (concat ds) > up_Total u then Inl Constraint_Error
       else Inr (concat ds @ take (up_Total u - length (concat ds)) (uninit env (up_Total u - length (concat ds)))), Base m')"
    and "\<exists>i. lookup (Index (Base m')) (up_Name u) = Some \<lparr>Id = i, Lock = Create_Lock (up_Mode u)
      (Now (Clock (Base m)) + up_Retain_For u) (Now (Clock (Base m))), Composite = True, Quarantined = False, Size = up_Total u,
      User_Meta = []\<rparr>"
    and "lookup (Uploads m') uid = None"
proof -
  let ?ids = "concat (ordered_parts (up_Parts u))"
  obtain r0 d where c: "cas_Put env ?ids (Store (Base m)) = (r0, d)" by fastforce
  obtain i where i: "r0 = Inr i" using assms(2,3) c by (cases r0) (auto simp: Complete_Upload_def run_defs split: if_splits)
  let ?m = "\<lparr>Id = i, Lock = Create_Lock (up_Mode u) (Now (Clock (Base m)) + up_Retain_For u) (Now (Clock (Base m))), Composite = True,
    Quarantined = False, Size = up_Total u, User_Meta = []\<rparr>"
  have m': "Store (Base m') = d" "Ingest_Only (Base m') = Ingest_Only (Base m)"
    "Index (Base m') = AList.update (up_Name u) ?m (Index (Base m))" "Uploads m' = AList.delete uid (Uploads m)"
    using assms(2,3) c i by (auto simp: Complete_Upload_def run_defs Add_Audit_def split: if_splits)
  have st: "list_all2 (part_stored env d) (ordered_parts (up_Parts u)) ds"
    using assms(4) by (rule list_all2_mono) (rule part_stored_preserves [OF cas_Put_preserves [OF assms(1) c]])
  have "cas_Get env i d = Inr ?ids" using assms(1) c i by (auto simp: cas_spec_def)
  moreover have "get_parts env d ?ids (length ?ids div 64) = Inr (concat ds)"
    using get_parts_stored [OF st] length_stored [OF st] by simp
  ultimately show "Get_Object env (up_Name u) (Base m') = Some
      (if length (concat ds) > up_Total u then Inl Constraint_Error
       else Inr (concat ds @ take (up_Total u - length (concat ds)) (uninit env (up_Total u - length (concat ds)))), Base m')"
    using m' assms(5) by (simp add: Get_Object_def read_object_def update_conv' io_throw_def io_return_def)
  show "\<exists>i. lookup (Index (Base m')) (up_Name u) = Some \<lparr>Id = i, Lock = Create_Lock (up_Mode u)
      (Now (Clock (Base m)) + up_Retain_For u) (Now (Clock (Base m))), Composite = True, Quarantined = False, Size = up_Total u,
      User_Meta = []\<rparr>"
    using m'(3) by (simp add: update_conv')
  show "lookup (Uploads m') uid = None" using m'(4) by (simp add: delete_conv')
qed



text \<open>
  Uploading a part again with another size spoils the object.  When the only part of an upload is uploaded again under the
  same number, the total keeps the size of the first one: after completion a longer part makes every read raise, and after
  a shorter one every read returns bytes of uninitialised memory behind the data.
\<close>

lemma replaced_part_wrong_size:
  assumes "cas_spec env" and "upload_run env uid name mode retain_for [(n, old)] m"
    and "Upload_Part env uid data n m = Some (Inr (), m1)" and "Complete_Upload env uid m1 = Some (Inr (), m2)"
    and "\<not> Ingest_Only (Base m)" and "n > 0"
  shows "(length data > length old \<longrightarrow> Get_Object env name (Base m2) = Some (Inl Constraint_Error, Base m2)) \<and>
     (length data < length old \<longrightarrow> Get_Object env name (Base m2) =
        Some (Inr (data @ take (length old - length data) (uninit env (length old - length data))), Base m2))"
proof -
  obtain u where u: "lookup (Uploads m) uid = Some u" "up_Name u = name"
    "same_keys (part_stored env (Store (Base m))) (up_Parts u) [(n, old)]" "up_Total u = length old"
    using upload_run_holds [OF assms(2,1)] by (auto simp: upload_holds_def)
  obtain pid0 where parts: "up_Parts u = [(n, pid0)]" using u(3) by (auto simp: same_keys_def list_all2_Cons2)
  obtain r0 d where c: "cas_Put env data (Store (Base m)) = (r0, d)" by fastforce
  obtain pid where pid: "r0 = Inr pid" and m1: "m1 = m\<lparr>Base := (Base m)\<lparr>Store := d\<rparr>,
      Uploads := AList.update uid (u\<lparr>up_Total := length old, up_Parts := [(n, pid)]\<rparr>) (Uploads m)\<rparr>"
    using assms(3,6) c u(1,4) parts by (cases r0) (auto simp: Upload_Part_def run_defs split: if_splits)
  have "part_stored env d pid data" using assms(1) c pid by (auto simp: cas_spec_def part_stored_def)
  then have st: "list_all2 (part_stored env (Store (Base m1))) (ordered_parts [(n, pid)]) [data]"
    by (simp add: m1 ordered_parts_def)
  have "lookup (Uploads m1) uid = Some (u\<lparr>up_Total := length old, up_Parts := [(n, pid)]\<rparr>)" by (simp add: m1 update_conv')
  from Complete_Upload_run(1) [OF assms(1,4) this, of "[data]"] st assms(5) u(2) show ?thesis by (simp add: m1)
qed

end
