(* ===== verification/Vault_Journal.thy ===== *)
theory Vault_Journal
  imports Vault_Persist Vault_Multipart
begin

text \<open>
  The vault with its files: each operation of \<open>src/vault/src/dezhan-vault.adb\<close> together with the journal
  records it buffers and commits, or the snapshot it saves, and the restart.  \<open>p_step\<close> is the step relation of
  these operations; whatever they do, a restart finds the durable state again.
\<close>

section \<open>Operations\<close>

text \<open>An operation of the vault; when it succeeds its records are written, when it raises none are.\<close>

definition run_op ::
  "('d vault, ada_exn, 'a) io \<Rightarrow> ('a \<Rightarrow> 'd pvault \<Rightarrow> 'd pvault) \<Rightarrow> ('d pvault, ada_exn, 'a) io" where
  "run_op m k p = (case m (Self p) of
       None \<Rightarrow> None
     | Some (Inl e, v) \<Rightarrow> Some (Inl e, p\<lparr>Self := v\<rparr>)
     | Some (Inr x, v) \<Rightarrow> Some (Inr x, k x (p\<lparr>Self := v\<rparr>)))"

definition J_Audit :: "'d pvault \<Rightarrow> 'd pvault" where
  "J_Audit p = Append_Jrnl (A_Line (last (Log (Self p)))) p"

definition J_Obj :: "string \<Rightarrow> 'd pvault \<Rightarrow> 'd pvault" where
  "J_Obj name p = Append_Jrnl (Obj_Line name (the (lookup (Index (Self p)) name))) p"

definition J_Del :: "string \<Rightarrow> 'd pvault \<Rightarrow> 'd pvault" where
  "J_Del name p = Append_Jrnl (Del_Line name) p"

definition J_Ver :: "string \<Rightarrow> Version_Entry \<Rightarrow> 'd pvault \<Rightarrow> 'd pvault" where
  "J_Ver name e p = Append_Jrnl (Ver_Line name e) p"

definition J_Vseq :: "'d pvault \<Rightarrow> 'd pvault" where
  "J_Vseq p = Append_Jrnl (Core_Vseq (Self p)) p"

definition P_Put_Object ::
  "'d vault_env \<Rightarrow> string \<Rightarrow> bytes \<Rightarrow> Lock_Mode \<Rightarrow> Trusted_Time \<Rightarrow> string \<Rightarrow> ('d pvault, ada_exn, unit) io" where
  "P_Put_Object env name data mode retain_for um =
     run_op (Put_Object env name data mode retain_for um) (\<lambda>_ p. Commit_Jrnl env (J_Obj name (J_Audit p)))"

definition P_Complete_Upload :: "'d vault_env \<Rightarrow> upload \<Rightarrow> ('d pvault, ada_exn, unit) io" where
  "P_Complete_Upload env u =
     run_op (complete_object env u) (\<lambda>_ p. Commit_Jrnl env (J_Obj (up_Name u) (J_Audit p)))"

definition P_Delete_Object :: "'d vault_env \<Rightarrow> string \<Rightarrow> bool \<Rightarrow> ('d pvault, ada_exn, bool) io" where
  "P_Delete_Object env name bypass = run_op (Delete_Object env name bypass)
     (\<lambda>ok p. Commit_Jrnl env (if ok then J_Del name (J_Audit p) else J_Audit p))"

definition P_Set_Legal_Hold :: "'d vault_env \<Rightarrow> string \<Rightarrow> ('d pvault, ada_exn, unit) io" where
  "P_Set_Legal_Hold env name = run_op (Set_Legal_Hold env name) (\<lambda>_. Save env)"

definition P_Release_Legal_Hold :: "'d vault_env \<Rightarrow> string \<Rightarrow> ('d pvault, ada_exn, unit) io" where
  "P_Release_Legal_Hold env name = run_op (Release_Legal_Hold env name) (\<lambda>_. Save env)"

definition P_Create_Bucket :: "'d vault_env \<Rightarrow> string \<Rightarrow> bool \<Rightarrow> ('d pvault, ada_exn, unit) io" where
  "P_Create_Bucket env name lock = run_op (Create_Bucket name lock) (\<lambda>_. Save env)"

definition P_Delete_Bucket :: "'d vault_env \<Rightarrow> string \<Rightarrow> ('d pvault, ada_exn, unit) io" where
  "P_Delete_Bucket env name = run_op (Delete_Bucket name) (\<lambda>_. Save env)"

definition P_Set_Versioning :: "'d vault_env \<Rightarrow> string \<Rightarrow> bool \<Rightarrow> ('d pvault, ada_exn, unit) io" where
  "P_Set_Versioning env bucket on = run_op (Set_Versioning bucket on) (\<lambda>_. Save env)"

text \<open>The version a call has just appended is the last one of the name.\<close>

definition P_Record_Version :: "'d vault_env \<Rightarrow> string \<Rightarrow> ('d pvault, ada_exn, string) io" where
  "P_Record_Version env name = run_op (Record_Version name)
     (\<lambda>_ p. Commit_Jrnl env (J_Ver name (last (versions_of (Self p) name)) (J_Vseq p)))"

definition P_Delete_Marker :: "'d vault_env \<Rightarrow> string \<Rightarrow> ('d pvault, ada_exn, string) io" where
  "P_Delete_Marker env name p = run_op (Delete_Marker env name) (\<lambda>_ q.
     Commit_Jrnl env (J_Ver name (last (versions_of (Self q) name)) (J_Vseq (J_Audit
       (if lookup (Index (Self p)) name = None then q else J_Del name q))))) p"

definition P_Delete_Version :: "'d vault_env \<Rightarrow> string \<Rightarrow> string \<Rightarrow> ('d pvault, ada_exn, unit) io" where
  "P_Delete_Version env name vid = run_op (Delete_Version name vid) (\<lambda>_. Save env)"

definition P_Seal :: "'d vault_env \<Rightarrow> ('d pvault, ada_exn, unit) io" where
  "P_Seal env p = (if Op_Sealed (Self p) then Some (Inr (), p) else run_op (Seal env) (\<lambda>_. Save env) p)"

definition P_Modes :: "'d vault_env \<Rightarrow> ('d vault, ada_exn, unit) io \<Rightarrow> ('d pvault, ada_exn, unit) io" where
  "P_Modes env m = run_op m (\<lambda>_. Save env)"

definition P_Tick_From_System :: "'d vault_env \<Rightarrow> Clock_Sample \<Rightarrow> string \<Rightarrow> ('d pvault, ada_exn, unit) io" where
  "P_Tick_From_System env x boot p = run_op (Tick_From_System env x boot) (\<lambda>_ q.
     if Started (Self p) \<and> Is_Sealed (Clock (Self q)) \<and> \<not> Is_Sealed (Clock (Self p)) \<or> Last_Boot (Self p) \<noteq> boot
     then Save env q else q) p"

section \<open>Well-formed states stay well-formed\<close>

definition env_ok :: "'d vault_env \<Rightarrow> bool" where
  "env_ok env \<longleftrightarrow> (\<forall>x. length (sha256 env x) = 32) \<and>
     (\<forall>x d i d'. cas_Put env x d = (Inr i, d') \<longrightarrow> length i = 64 \<and> field_text i)"

lemma durable_upd:
  "durable (v\<lparr>Index := AList.update n m (Index v)\<rparr>) = dur_apply (E_Obj n m) (durable v)"
  "durable (v\<lparr>Index := AList.delete n (Index v)\<rparr>) = dur_apply (E_Del n) (durable v)"
  "durable (v\<lparr>Buckets := AList.update n b (Buckets v)\<rparr>) = dur_apply (E_Bkt n b) (durable v)"
  "durable (v\<lparr>Versioned := AList.update n b (Versioned v)\<rparr>) = dur_apply (E_Vsn n b) (durable v)"
  "durable (v\<lparr>Last_Boot := t\<rparr>) = dur_apply (E_Boot t) (durable v)"
  by (simp_all add: durable_def update_conv' delete_conv' versioned_update, simp_all add: Bucket_Versioned_def [abs_def])

lemma durable_Store [simp]: "durable (v\<lparr>Store := d\<rparr>) = durable v"
  by (simp add: durable_def Bucket_Versioned_def [abs_def])

lemma wf_Index_update: "vault_wf v \<Longrightarrow> n \<noteq> [] \<Longrightarrow> meta_ok m \<Longrightarrow> vault_wf (v\<lparr>Index := AList.update n m (Index v)\<rparr>)"
  unfolding vault_wf_def durable_upd by (rule dur_wf_apply) simp_all

lemma wf_Index_delete: "vault_wf v \<Longrightarrow> vault_wf (v\<lparr>Index := AList.delete n (Index v)\<rparr>)"
  by (simp only: vault_wf_def durable_upd) (auto simp: dur_wf_def)

lemma wf_Buckets_update: "vault_wf v \<Longrightarrow> n \<noteq> [] \<Longrightarrow> vault_wf (v\<lparr>Buckets := AList.update n b (Buckets v)\<rparr>)"
  unfolding vault_wf_def durable_upd by (rule dur_wf_apply) simp_all

lemma wf_Buckets_delete: "vault_wf v \<Longrightarrow> vault_wf (v\<lparr>Buckets := AList.delete n (Buckets v)\<rparr>)"
  by (auto simp: vault_wf_def dur_wf_def durable_def delete_conv' Bucket_Versioned_def)

lemma wf_Versioned_update: "vault_wf v \<Longrightarrow> n \<noteq> [] \<Longrightarrow> vault_wf (v\<lparr>Versioned := AList.update n b (Versioned v)\<rparr>)"
  unfolding vault_wf_def durable_upd by (rule dur_wf_apply) simp_all

lemma wf_Boot: "vault_wf v \<Longrightarrow> CHR '' '' \<notin> set b \<Longrightarrow> vault_wf (v\<lparr>Last_Boot := b\<rparr>)"
  unfolding vault_wf_def durable_upd by (rule dur_wf_apply) simp_all

lemma wf_other:
  "vault_wf (v\<lparr>Store := d\<rparr>) = vault_wf v" "vault_wf (v\<lparr>Op_Sealed := b\<rparr>) = vault_wf v"
  "vault_wf (v\<lparr>Ingest_Only := b\<rparr>) = vault_wf v" "vault_wf (v\<lparr>Sync_Shut := b\<rparr>) = vault_wf v"
  "vault_wf (v\<lparr>Started := b\<rparr>) = vault_wf v"
  by (simp_all add: vault_wf_def dur_wf_def durable_def Bucket_Versioned_def)

lemma wf_Clock: "vault_wf v \<Longrightarrow> Now c \<le> Time_Last \<Longrightarrow> vault_wf (v\<lparr>Clock := c\<rparr>)"
  by (simp add: vault_wf_def dur_wf_def durable_def Bucket_Versioned_def)

lemma wf_Now: "vault_wf v \<Longrightarrow> Now (Clock v) \<le> Time_Last"
  by (simp add: vault_wf_def dur_wf_def durable_def)

lemma wf_Log: "vault_wf v \<Longrightarrow> map Seq (Log v) = [0..<length (Log v)] \<and> list_all audit_ok (Log v)"
  by (simp add: vault_wf_def dur_wf_def durable_def)

text \<open>The entry that \<open>Add_Audit\<close> appends: the next expected one, and well formed.\<close>

lemma wf_last:
  assumes "vault_wf v" and "Log v \<noteq> []"
  shows "Seq (last (Log v)) = length (Log v) - 1 \<and> audit_ok (last (Log v))"
proof -
  have "Seq (last (Log v)) = last [0..<length (Log v)]" using wf_Log [OF assms(1)] assms(2) by (metis last_map)
  then show ?thesis using assms(2) wf_Log [OF assms(1)] by (auto simp: list_all_iff)
qed

lemma Append_ok:
  assumes "vault_wf v" and "Log v \<noteq> []" and "Seq (last (Log v)) \<noteq> Natural_Last" and "env_ok env"
    and "length subject = 32" and "detail \<le> Time_Last"
  shows "audit_ok (Append (sha256 env) (last (Log v)) (Now (Clock v)) kind subject detail)"
    and "Seq (Append (sha256 env) (last (Log v)) (Now (Clock v)) kind subject detail) = length (Log v)"
  using wf_last [OF assms(1,2)] wf_Now [OF assms(1)] assms
  by (auto simp: audit_ok_def Append_def Let_def env_ok_def Compute_Hash_def Hash_Of_def)

lemma wf_log:
  assumes "vault_wf v" and "audit_ok e" and "Seq e = length (Log v)"
  shows "vault_wf (v\<lparr>Log := Log v @ [e]\<rparr>)"
  using assms by (simp add: vault_wf_def dur_wf_def durable_def Bucket_Versioned_def)

lemma wf_Add_Audit:
  assumes "vault_wf v" and "env_ok env" and "length subject = 32" and "detail \<le> Time_Last"
    and "Add_Audit env kind subject detail v = Some (r, v')"
  shows "vault_wf v'"
  using assms Append_ok [OF assms(1) _ _ assms(2,3,4)]
  by (auto simp: Add_Audit_def io_throw_def io_modify_def intro: wf_log split: if_splits)

lemma Name_Digest_32: "env_ok env \<Longrightarrow> length (Name_Digest env name) = 32"
  by (simp add: env_ok_def Name_Digest_def)

lemma store_put_ids: "env_ok env \<Longrightarrow> store_put env data v = Some (Inr i, v') \<Longrightarrow> length i = 64 \<and> field_text i"
  unfolding store_put_def env_ok_def by (auto split: prod.splits) blast+

lemma store_object_ids:
  assumes "env_ok env" and "store_object env data v = Some (Inr (c, i), v')"
  shows "length i = 64 \<and> field_text i"
  using assms
  by (auto simp: store_object_def Store_Composite_def io_bind_Inr io_try_Some io_throw_def io_return_def
      dest!: store_put_ids split: if_splits)

text \<open>A successful \<open>Put_Object\<close>: what it does to the durable part.\<close>

lemma Put_Object_Inr:
  assumes "Put_Object env name data mode retain_for um v = Some (Inr (), v')" and "env_ok env" and "length data \<le> Natural_Last"
    and "vault_wf v"
  shows "\<exists>d m e. v' = v\<lparr>Store := d, Index := AList.update name m (Index v), Log := Log v @ [e]\<rparr> \<and>
     meta_ok m \<and> audit_ok e \<and> Seq e = length (Log v)"
proof -
  from assms(1) obtain c i v1 where st: "store_object env data v = Some (Inr (c, i), v1)"
    and t: "Now (Clock v) + retain_for \<le> Time_Last" and log: "Log v1 \<noteq> []" "Seq (last (Log v1)) \<noteq> Natural_Last"
    and v': "v' = v1\<lparr>Index := AList.update name
        \<lparr>Id = i, Lock = Create_Lock mode (Now (Clock v) + retain_for) (Now (Clock v)), Composite = c,
         Quarantined = False, Size = length data, User_Meta = um\<rparr> (Index v1),
        Log := Log v1 @ [Append (sha256 env) (last (Log v1)) (Now (Clock v1)) Lock_Created (Name_Digest env name)
          (Now (Clock v) + retain_for)]\<rparr>"
    by (auto simp: Put_Object_def Let_def io_bind_Inr io_gets_def io_modify_def
      Check_Ingest_def Add_Audit_def io_return_def io_throw_def split: if_splits prod.splits)
  obtain d where d: "v1 = v\<lparr>Store := d\<rparr>" using store_object_frame [OF st] by blast
  note a = Append_ok [OF assms(4) _ _ assms(2) Name_Digest_32 [OF assms(2)] t]
  let ?m = "\<lparr>Id = i, Lock = Create_Lock mode (Now (Clock v) + retain_for) (Now (Clock v)), Composite = c,
         Quarantined = False, Size = length data, User_Meta = um\<rparr>"
  let ?e = "Append (sha256 env) (last (Log v)) (Now (Clock v)) Lock_Created (Name_Digest env name) (Now (Clock v) + retain_for)"
  have "meta_ok ?m"
    using store_object_ids [OF assms(2) st] t assms(3) by (simp add: meta_ok_def Create_Lock_def)
  with v' log d a show ?thesis by (intro exI [of _ d] exI [of _ ?m] exI [of _ ?e]) simp
qed

text \<open>Completing an upload likewise.\<close>

lemma complete_object_Inr:
  assumes "complete_object env u v = Some (Inr (), v')" and "env_ok env" and "up_Total u \<le> Natural_Last" and "vault_wf v"
  shows "\<exists>d m e. v' = v\<lparr>Store := d, Index := AList.update (up_Name u) m (Index v), Log := Log v @ [e]\<rparr> \<and>
     meta_ok m \<and> audit_ok e \<and> Seq e = length (Log v)"
proof -
  let ?t = "Now (Clock v) + up_Retain_For u"
  let ?m = "\<lambda>i. \<lparr>Id = i, Lock = Create_Lock (up_Mode u) ?t (Now (Clock v)), Composite = True,
         Quarantined = False, Size = up_Total u, User_Meta = []\<rparr>"
  let ?e = "Append (sha256 env) (last (Log v)) (Now (Clock v)) Lock_Created (Name_Digest env (up_Name u)) ?t"
  from assms(1) obtain i v1 where st: "store_put env (concat (ordered_parts (up_Parts u))) v = Some (Inr i, v1)"
    and t: "?t \<le> Time_Last" and log: "Log v1 \<noteq> []" "Seq (last (Log v1)) \<noteq> Natural_Last"
    and v': "v' = v1\<lparr>Index := AList.update (up_Name u) (?m i) (Index v1),
        Log := Log v1 @ [Append (sha256 env) (last (Log v1)) (Now (Clock v1)) Lock_Created (Name_Digest env (up_Name u)) ?t]\<rparr>"
    by (auto simp: complete_object_def io_bind_Inr io_gets_def io_modify_def Add_Audit_def io_return_def io_throw_def
        split: if_splits)
  obtain d where d: "v1 = v\<lparr>Store := d\<rparr>" using store_put_frame [OF st] by blast
  note a = Append_ok [OF assms(4) _ _ assms(2) Name_Digest_32 [OF assms(2)] t]
  have "meta_ok (?m i)"
    using store_put_ids [OF assms(2) st] t assms(3) by (simp add: meta_ok_def Create_Lock_def)
  with v' log d a show ?thesis by (intro exI [of _ d] exI [of _ "?m i"] exI [of _ ?e]) simp
qed

lemma complete_object_Inl:
  assumes "complete_object env u v = Some (Inl x, v')" and "Log v \<noteq> []" and "Seq (last (Log v)) \<noteq> Natural_Last"
  shows "\<exists>d. v' = v\<lparr>Store := d\<rparr>"
proof -
  obtain r d where st: "store_put env (concat (ordered_parts (up_Parts u))) v = Some (r, v\<lparr>Store := d\<rparr>)"
    by (cases "cas_Put env (concat (ordered_parts (up_Parts u))) (Store v)") (simp add: store_put_def)
  have same: "\<exists>d. v = v\<lparr>Store := d\<rparr>" by (rule exI [of _ "Store v"]) simp
  show ?thesis using st assms same
    by (cases r) (auto simp: complete_object_def io_bind_def io_try_def io_gets_def io_modify_def Add_Audit_def io_return_def
        io_throw_def split: if_splits)
qed

text \<open>A failing put leaves it alone, unless the log is full.\<close>

lemma Put_Object_Inl:
  assumes "Put_Object env name data mode retain_for um v = Some (Inl x, v')"
    and "Log v \<noteq> []" and "Seq (last (Log v)) \<noteq> Natural_Last"
  shows "\<exists>d. v' = v\<lparr>Store := d\<rparr>"
proof -
  obtain r d where st: "store_object env data v = Some (r, v\<lparr>Store := d\<rparr>)"
    using store_object_None [of env data v] store_object_frame [of env data v] by fast
  have same: "\<exists>d. v = v\<lparr>Store := d\<rparr>" by (rule exI [of _ "Store v"]) simp
  show ?thesis
  proof (cases r)
    case (Inl e)
    with st assms(1) same show ?thesis
      by (auto simp: Put_Object_def Let_def io_bind_def io_try_def io_gets_def Check_Ingest_def io_return_def io_throw_def
          split: if_splits)
  next
    case (Inr y)
    with st assms same show ?thesis
      by (cases y) (auto simp: Put_Object_def Let_def io_bind_def io_try_def io_gets_def io_modify_def Add_Audit_def
          Check_Ingest_def io_return_def io_throw_def split: if_splits)
  qed
qed

text \<open>The other operations.\<close>

lemma Delete_Object_result:
  assumes "Delete_Object env name bypass v = Some (r, v')" and "vault_wf v" and "env_ok env"
    and "Log v \<noteq> []" and "Seq (last (Log v)) \<noteq> Natural_Last"
  shows "(\<exists>x. r = Inl x) \<and> v' = v \<or>
    (\<exists>e. audit_ok e \<and> Seq e = length (Log v) \<and> name \<in> fst ` set (Index v) \<and>
       (r = Inr True \<and> v' = v\<lparr>Index := AList.delete name (Index v), Log := Log v @ [e]\<rparr> \<or>
        r = Inr False \<and> v' = v\<lparr>Log := Log v @ [e]\<rparr>))"
proof -
  have t: "Now (Clock v) \<le> Time_Last" by (rule wf_Now [OF assms(2)])
  note a = Append_ok [OF assms(2,4,5,3) Name_Digest_32 [OF assms(3)] t]
  show ?thesis
  proof (cases "lookup (Index v) name")
    case (Some m)
    then have nm: "name \<in> fst ` set (Index v)" by (force dest: map_of_SomeD)
    let ?e = "\<lambda>kind. Append (sha256 env) (last (Log v)) (Now (Clock v)) kind (Name_Digest env name) (Now (Clock v))"
    show ?thesis
    proof (cases "Can_Delete (Lock m) (Now (Clock v)) \<lparr>Bypass_Governance = bypass\<rparr>")
      case True
      with assms(1,4,5) Some have "Read_Only v \<and> (\<exists>x. r = Inl x) \<and> v' = v \<or>
          r = Inr True \<and> v' = v\<lparr>Index := AList.delete name (Index v), Log := Log v @ [?e Delete_Allowed]\<rparr>"
        by (auto simp: Delete_Object_def Let_def Add_Audit_def io_bind_def io_try_def io_modify_def io_throw_def io_return_def
            split: if_splits)
      with a nm show ?thesis by blast
    next
      case False
      with assms(1,4,5) Some have "Read_Only v \<and> (\<exists>x. r = Inl x) \<and> v' = v \<or>
          r = Inr False \<and> v' = v\<lparr>Log := Log v @ [?e Delete_Denied]\<rparr>"
        by (auto simp: Delete_Object_def Let_def Add_Audit_def io_bind_def io_try_def io_modify_def io_throw_def io_return_def
            split: if_splits)
      with a nm show ?thesis by blast
    qed
  qed (use assms(1) in \<open>auto simp: Delete_Object_def io_throw_def split: if_splits\<close>)
qed

lemma wf_hold:
  assumes "vault_wf v" and "lookup (Index v) n = Some m"
  shows "n \<noteq> []" and "meta_ok (m\<lparr>Lock := Set_Hold (Lock m)\<rparr>)" and "meta_ok (m\<lparr>Lock := Release_Hold (Lock m)\<rparr>)"
proof -
  have ok: "n \<noteq> [] \<and> meta_ok m" using assms by (auto simp: vault_wf_def dur_wf_def durable_def)
  then show "meta_ok (m\<lparr>Lock := Set_Hold (Lock m)\<rparr>)" "meta_ok (m\<lparr>Lock := Release_Hold (Lock m)\<rparr>)"
    by (simp_all add: meta_ok_def Set_Hold_def Release_Hold_def)
  show "n \<noteq> []" using ok by blast
qed

lemma wf_Set_Legal_Hold:
  assumes "Set_Legal_Hold env name v = Some (r, v')" and "vault_wf v" and "env_ok env"
  shows "vault_wf v'"
proof (cases "lookup (Index v) name")
  case (Some m)
  let ?u = "v\<lparr>Index := AList.update name (m\<lparr>Lock := Set_Hold (Lock m)\<rparr>) (Index v)\<rparr>"
  have "vault_wf ?u" using wf_hold [OF assms(2) Some] assms(2) by (simp add: wf_Index_update)
  moreover have "Add_Audit env Legal_Hold_Set (Name_Digest env name) (Now (Clock ?u)) ?u = Some (r, v')"
    using assms(1) Some by (simp add: Set_Legal_Hold_def io_bind_def io_try_def io_modify_def io_throw_def)
  moreover have "Now (Clock ?u) \<le> Time_Last" using wf_Now [OF assms(2)] by simp
  ultimately show ?thesis using wf_Add_Audit [OF _ assms(3) Name_Digest_32 [OF assms(3)]] by blast
qed (use assms in \<open>simp add: Set_Legal_Hold_def io_throw_def\<close>)

lemma wf_Release_Legal_Hold:
  assumes "Release_Legal_Hold env name v = Some (r, v')" and "vault_wf v" and "env_ok env"
  shows "vault_wf v'"
proof (cases "lookup (Index v) name")
  case (Some m)
  let ?u = "v\<lparr>Index := AList.update name (m\<lparr>Lock := Release_Hold (Lock m)\<rparr>) (Index v)\<rparr>"
  have "vault_wf ?u" using wf_hold [OF assms(2) Some] assms(2) by (simp add: wf_Index_update)
  moreover have "Add_Audit env Legal_Hold_Released (Name_Digest env name) (Now (Clock ?u)) ?u = Some (r, v')"
    using assms(1) Some by (simp add: Release_Legal_Hold_def io_bind_def io_try_def io_modify_def io_throw_def)
  moreover have "Now (Clock ?u) \<le> Time_Last" using wf_Now [OF assms(2)] by simp
  ultimately show ?thesis using wf_Add_Audit [OF _ assms(3) Name_Digest_32 [OF assms(3)]] by blast
qed (use assms in \<open>simp add: Release_Legal_Hold_def io_throw_def\<close>)

lemma wf_Seal:
  assumes "Seal env v = Some (r, v')" and "vault_wf v" and "env_ok env"
  shows "vault_wf v'"
proof (cases "Op_Sealed v")
  case False
  let ?u = "v\<lparr>Op_Sealed := True\<rparr>"
  have "Add_Audit env Seal_Engaged Zero_Digest (Now (Clock ?u)) ?u = Some (r, v')"
    using assms(1) False by (simp add: Seal_def io_bind_def io_try_def io_modify_def io_throw_def)
  moreover have "vault_wf ?u" "Now (Clock ?u) \<le> Time_Last" using assms(2) wf_Now [OF assms(2)] by (simp_all add: wf_other)
  moreover have "length Zero_Digest = 32" by (simp add: Zero_Digest_def)
  ultimately show ?thesis using wf_Add_Audit [OF _ assms(3)] by blast
qed (use assms in \<open>simp add: Seal_def io_return_def\<close>)

lemma Now_Tick: "Now s \<le> Time_Last \<Longrightarrow> Mono x \<le> Time_Last \<Longrightarrow> Now (Tick s x tol) \<le> Time_Last"
  by (auto simp: Tick_def Now_def Let_def Mono_Delta_def)

text \<open>Whether the log has room for one more entry.\<close>

definition room :: "'d vault \<Rightarrow> bool" where
  "room v \<longleftrightarrow> Log v \<noteq> [] \<and> length (Log v) \<le> Natural_Last"

lemma room_last: "vault_wf v \<Longrightarrow> room v \<Longrightarrow> Log v \<noteq> [] \<and> Seq (last (Log v)) \<noteq> Natural_Last"
  using wf_last [of v] by (cases "Log v") (auto simp: room_def)

lemma Tick_From_System_run:
  assumes "Log v \<noteq> []" and "Seq (last (Log v)) \<noteq> Natural_Last"
    and "x' = \<lparr>Mono = Mono x, Realtime = Realtime x, Boot_Changed = Last_Boot v \<noteq> [] \<and> Last_Boot v \<noteq> boot\<rparr>"
    and "c = Tick (Clock v) x' Clock_Tolerance"
  shows "Tick_From_System env x boot v = Some (Inr (),
     if \<not> Started v then v\<lparr>Last_Boot := boot, Clock := Init x', Started := True\<rparr>
     else if Is_Sealed c \<and> \<not> Is_Sealed (Clock v) then
       v\<lparr>Last_Boot := boot, Clock := c, Log := Log v @ [Append (sha256 env) (last (Log v)) (Now c) Seal_Engaged Zero_Digest (Now c)]\<rparr>
     else v\<lparr>Last_Boot := boot, Clock := c\<rparr>)"
  using assms
  by (simp add: Tick_From_System_def Tick_Clock_def Let_def Add_Audit_def io_when_def io_bind_def io_try_def io_modify_def
      io_throw_def io_return_def)

lemma Tick_From_System_result:
  assumes "Tick_From_System env x boot v = Some (r, v')" and "vault_wf v" and "env_ok env" and "room v"
    and "Mono x \<le> Time_Last" and "CHR '' '' \<notin> set boot"
  shows "r = Inr ()" and "vault_wf v'"
    and "\<not> (Started v \<and> Is_Sealed (Clock v') \<and> \<not> Is_Sealed (Clock v)) \<Longrightarrow> Last_Boot v = boot \<Longrightarrow>
      v' = v\<lparr>Clock := Clock v', Started := True\<rparr>"
proof -
  let ?x = "\<lparr>Mono = Mono x, Realtime = Realtime x, Boot_Changed = Last_Boot v \<noteq> [] \<and> Last_Boot v \<noteq> boot\<rparr>"
  let ?u = "v\<lparr>Last_Boot := boot\<rparr>"
  have u: "vault_wf ?u" using assms(2,6) by (rule wf_Boot)
  note log = room_last [OF assms(2,4)]
  define c where "c = Tick (Clock v) ?x Clock_Tolerance"
  have run: "r = Inr ()" "v' = (if \<not> Started v then ?u\<lparr>Clock := Init ?x, Started := True\<rparr>
     else if Is_Sealed c \<and> \<not> Is_Sealed (Clock v) then
       ?u\<lparr>Clock := c, Log := Log v @ [Append (sha256 env) (last (Log v)) (Now c) Seal_Engaged Zero_Digest (Now c)]\<rparr>
     else ?u\<lparr>Clock := c\<rparr>)"
    using assms(1) Tick_From_System_run [OF conjunct1 [OF log] conjunct2 [OF log] refl c_def] by (simp_all only: option.inject prod.inject)
  consider (init) "\<not> Started v" "v' = ?u\<lparr>Clock := Init ?x, Started := True\<rparr>"
    | (sealed) "Started v" "Is_Sealed c" "\<not> Is_Sealed (Clock v)"
        "v' = ?u\<lparr>Clock := c, Log := Log v @ [Append (sha256 env) (last (Log v)) (Now c) Seal_Engaged Zero_Digest (Now c)]\<rparr>"
    | (ticked) "Started v" "v' = ?u\<lparr>Clock := c\<rparr>"
    using run(2) by argo
  note cases = this
  have time: "Now (Clock v) \<le> Time_Last" by (rule wf_Now [OF assms(2)])
  have tick: "Now c \<le> Time_Last" unfolding c_def by (rule Now_Tick [OF time]) (simp add: assms(5))
  show "r = Inr ()" by (rule run(1))
  from cases show "vault_wf v'"
  proof cases
    case init
    then show ?thesis using wf_Clock [OF u, of "Init ?x"] by (simp add: wf_other Init_def Now_def)
  next
    case sealed
    let ?w = "?u\<lparr>Clock := c\<rparr>"
    have w: "vault_wf ?w" using wf_Clock [OF u tick] .
    have "length Zero_Digest = 32" by (simp add: Zero_Digest_def)
    from Append_ok [OF w _ _ assms(3) this tick] log
    show ?thesis unfolding sealed(4) using wf_log [OF w] by simp
  next
    case ticked
    then show ?thesis using wf_Clock [OF u tick] by simp
  qed
  from cases show "v' = v\<lparr>Clock := Clock v', Started := True\<rparr>"
    if "\<not> (Started v \<and> Is_Sealed (Clock v') \<and> \<not> Is_Sealed (Clock v))" "Last_Boot v = boot"
    by cases (use that in auto)
qed

section \<open>What a restart finds\<close>

text \<open>The durable state but for the reading of the trusted clock, which is saved with snapshots only.\<close>

definition unclock :: "dur \<Rightarrow> dur" where
  "unclock s = s\<lparr>d_Clock := (0, False)\<rparr>"

lemma unclock_apply: "unclock (dur_apply e s) = unclock (dur_apply e (unclock s))"
  by (cases e) (simp_all add: unclock_def)

lemma unclock_fold: "unclock s = unclock t \<Longrightarrow> unclock (fold dur_apply es s) = unclock (fold dur_apply es t)"
proof (induction es arbitrary: s t)
  case (Cons e es)
  have "unclock (dur_apply e s) = unclock (dur_apply e t)"
    using unclock_apply [of e s] unclock_apply [of e t] Cons.prems by simp
  from Cons.IH [OF this] show ?case by simp
qed simp

text \<open>The files and the buffer say what the memory holds.\<close>

definition journal_inv :: "'d vault_env \<Rightarrow> 'd pvault \<Rightarrow> bool" where
  "journal_inv env p \<longleftrightarrow> (\<exists>v es bs. vault_wf v \<and> list_all entry_wf (es @ bs) \<and>
     Disk p = \<lparr>State_File = Some (snapshot_lines env v), Journal_File = Some (map entry_line es)\<rparr> \<and>
     Jrnl_Buf p = map entry_line bs \<and> unclock (durable (Self p)) = unclock (fold dur_apply (es @ bs) (durable v)))"

definition p_inv :: "'d vault_env \<Rightarrow> 'd pvault \<Rightarrow> bool" where
  "p_inv env p \<longleftrightarrow> journal_inv env p \<and> vault_wf (Self p) \<and> Jrnl_Buf p = []"

lemma journal_inv_Save: "vault_wf (Self p) \<Longrightarrow> journal_inv env (Save env p)"
  unfolding journal_inv_def Save_def by (rule exI [of _ "Self p"]) simp

lemma journal_inv_write:
  assumes "journal_inv env p" and "list_all entry_wf cs"
    and "unclock (durable v') = unclock (fold dur_apply cs (durable (Self p)))"
  shows "journal_inv env (p\<lparr>Self := v', Jrnl_Buf := Jrnl_Buf p @ map entry_line cs\<rparr>)"
proof -
  from assms(1) obtain v es bs where p: "vault_wf v" "list_all entry_wf (es @ bs)"
    "Disk p = \<lparr>State_File = Some (snapshot_lines env v), Journal_File = Some (map entry_line es)\<rparr>"
    "Jrnl_Buf p = map entry_line bs" "unclock (durable (Self p)) = unclock (fold dur_apply (es @ bs) (durable v))"
    by (auto simp: journal_inv_def)
  from unclock_fold [OF p(5), of cs] assms(3)
  have "unclock (durable v') = unclock (fold dur_apply (es @ (bs @ cs)) (durable v))" by simp
  with p assms(2) show ?thesis unfolding journal_inv_def
    by (intro exI [of _ v] exI [of _ es] exI [of _ "bs @ cs"]) simp
qed

lemma journal_inv_Commit:
  assumes "journal_inv env p" and "vault_wf (Self p)"
  shows "journal_inv env (Commit_Jrnl env p) \<and> Jrnl_Buf (Commit_Jrnl env p) = [] \<and> Self (Commit_Jrnl env p) = Self p"
proof -
  from assms(1) obtain v es bs where p: "vault_wf v" "list_all entry_wf (es @ bs)"
    "Disk p = \<lparr>State_File = Some (snapshot_lines env v), Journal_File = Some (map entry_line es)\<rparr>"
    "Jrnl_Buf p = map entry_line bs" "unclock (durable (Self p)) = unclock (fold dur_apply (es @ bs) (durable v))"
    by (auto simp: journal_inv_def)
  have "journal_inv env (p\<lparr>Disk := (Disk p)\<lparr>Journal_File := Some (map entry_line (es @ bs))\<rparr>, Jrnl_Count := n, Jrnl_Buf := []\<rparr>)" for n
    unfolding journal_inv_def using p by (intro exI [of _ v] exI [of _ "es @ bs"] exI [of _ "[]"]) simp
  with assms journal_inv_Save [OF assms(2), of env] p(3,4) show ?thesis
    by (auto simp: Commit_Jrnl_def Save_def)
qed

lemma journal_inv_Open:
  assumes "journal_inv env p" and "Jrnl_Buf p = []"
  shows "\<exists>q. Open env vi (Disk p) d = Inr q \<and> unclock (durable (Self q)) = unclock (durable (Self p)) \<and>
     p_inv env q \<and> Store (Self q) = d \<and> \<not> Started (Self q)"
proof -
  from assms obtain v es where p: "vault_wf v" "list_all entry_wf es"
    "Disk p = \<lparr>State_File = Some (snapshot_lines env v), Journal_File = Some (map entry_line es)\<rparr>"
    "unclock (durable (Self p)) = unclock (fold dur_apply es (durable v))"
    by (auto simp: journal_inv_def)
  from Open_entries [OF p(1,2), of env vi d] obtain q where q: "Open env vi (Disk p) d = Inr q"
    "durable (Self q) = fold dur_apply es (durable v)" "Jrnl_Buf q = []" "Disk q = Disk p" "\<not> Started (Self q)" "Store (Self q) = d"
    unfolding p(3) by auto
  then have "journal_inv env q" unfolding journal_inv_def
    using p by (intro exI [of _ v] exI [of _ es] exI [of _ "[]"]) simp
  moreover have "vault_wf (Self q)" using dur_wf_fold p(1,2) q(2) by (simp add: vault_wf_def)
  ultimately show ?thesis using p q by (auto simp: p_inv_def)
qed

section \<open>Steps\<close>

inductive p_step :: "'d vault_env \<Rightarrow> (string \<Rightarrow> Trusted_Time option) \<Rightarrow> 'd pvault \<Rightarrow> 'd pvault \<Rightarrow> bool" for env vi where
  put: "P_Put_Object env name data mode retain_for um p = Some (r, q) \<Longrightarrow> room (Self p) \<Longrightarrow> name \<noteq> [] \<Longrightarrow>
    length data \<le> Natural_Last \<Longrightarrow> p_step env vi p q"
| complete: "P_Complete_Upload env u p = Some (r, q) \<Longrightarrow> room (Self p) \<Longrightarrow> up_Name u \<noteq> [] \<Longrightarrow> up_Total u \<le> Natural_Last \<Longrightarrow>
    p_step env vi p q"
| delete: "P_Delete_Object env name bypass p = Some (r', q) \<Longrightarrow> room (Self p) \<Longrightarrow> p_step env vi p q"
| hold: "P_Set_Legal_Hold env name p = Some (Inr (), q) \<Longrightarrow> p_step env vi p q"
| release: "P_Release_Legal_Hold env name p = Some (Inr (), q) \<Longrightarrow> p_step env vi p q"
| create_bucket: "P_Create_Bucket env name lock p = Some (Inr (), q) \<Longrightarrow> name \<noteq> [] \<Longrightarrow> p_step env vi p q"
| delete_bucket: "P_Delete_Bucket env name p = Some (Inr (), q) \<Longrightarrow> p_step env vi p q"
| versioning: "P_Set_Versioning env name on p = Some (Inr (), q) \<Longrightarrow> name \<noteq> [] \<Longrightarrow> p_step env vi p q"
| record_version: "P_Record_Version env name p = Some (i, q) \<Longrightarrow> p_step env vi p q"
| marker: "P_Delete_Marker env name p = Some (i, q) \<Longrightarrow> room (Self p) \<Longrightarrow> name \<noteq> [] \<Longrightarrow> p_step env vi p q"
| delete_version: "P_Delete_Version env name vid p = Some (Inr (), q) \<Longrightarrow> p_step env vi p q"
| seal: "P_Seal env p = Some (Inr (), q) \<Longrightarrow> p_step env vi p q"
| modes: "m \<in> {Set_One_Way_Ingest True, Set_One_Way_Ingest False, Open_Sync_Window, Close_Sync_Window} \<Longrightarrow>
    P_Modes env m p = Some (Inr (), q) \<Longrightarrow> p_step env vi p q"
| tick: "P_Tick_From_System env x boot p = Some (r, q) \<Longrightarrow> room (Self p) \<Longrightarrow> Mono x \<le> Time_Last \<Longrightarrow>
    CHR '' '' \<notin> set boot \<Longrightarrow> p_step env vi p q"
| restart: "Open env vi (Disk p) (Store (Self p)) = Inr q \<Longrightarrow> p_step env vi p q"

lemma p_inv_Save: "vault_wf v \<Longrightarrow> p_inv env (Save env (p\<lparr>Self := v\<rparr>))"
  using journal_inv_Save [of "p\<lparr>Self := v\<rparr>" env] by (simp add: p_inv_def) (simp add: Save_def)

lemma run_op_Save:
  assumes "run_op m (\<lambda>_. Save env) p = Some (Inr x, q)" and "\<And>v. m (Self p) = Some (Inr x, v) \<Longrightarrow> vault_wf v"
  shows "p_inv env q"
  using assms p_inv_Save by (auto simp: run_op_def split: option.splits sum.splits)

lemma p_inv_write:
  assumes "p_inv env p" and "vault_wf v'" and "list_all entry_wf cs"
    and "durable v' = fold dur_apply cs (durable (Self p))"
  shows "p_inv env (Commit_Jrnl env (p\<lparr>Self := v', Jrnl_Buf := map entry_line cs\<rparr>))"
proof -
  have "journal_inv env (p\<lparr>Self := v', Jrnl_Buf := Jrnl_Buf p @ map entry_line cs\<rparr>)"
    by (rule journal_inv_write) (use assms in \<open>simp_all add: p_inv_def\<close>)
  with assms(1) have "journal_inv env (p\<lparr>Self := v', Jrnl_Buf := map entry_line cs\<rparr>)" by (simp add: p_inv_def)
  from journal_inv_Commit [OF this] assms(2) show ?thesis by (simp add: p_inv_def)
qed

lemma p_inv_same:
  assumes "p_inv env p" and "vault_wf v'" and "unclock (durable v') = unclock (durable (Self p))"
  shows "p_inv env (p\<lparr>Self := v'\<rparr>)"
  using journal_inv_write [of env p "[]" v'] assms by (simp add: p_inv_def)

lemma durable_clock: "unclock (durable (v\<lparr>Clock := c, Started := b\<rparr>)) = unclock (durable v)"
  by (simp add: durable_def unclock_def Bucket_Versioned_def [abs_def])

text \<open>An operation that indexes an object and audits it.\<close>

lemma index_op_inv:
  assumes "run_op op (\<lambda>_ p. Commit_Jrnl env (J_Obj name (J_Audit p))) p = Some (r, q)" and "name \<noteq> []" and inv: "p_inv env p"
    and err: "\<And>x v'. op (Self p) = Some (Inl x, v') \<Longrightarrow> \<exists>d. v' = (Self p)\<lparr>Store := d\<rparr>"
    and ok: "\<And>x v'. op (Self p) = Some (Inr x, v') \<Longrightarrow> \<exists>d m e. v' = (Self p)\<lparr>Store := d,
        Index := AList.update name m (Index (Self p)), Log := Log (Self p) @ [e]\<rparr> \<and>
        meta_ok m \<and> audit_ok e \<and> Seq e = length (Log (Self p))"
  shows "p_inv env q"
proof -
  have wf: "vault_wf (Self p)" using inv by (simp add: p_inv_def)
  obtain v' where run: "op (Self p) = Some (r, v')"
    using assms(1) by (auto simp: run_op_def split: option.splits sum.splits)
  show ?thesis
  proof (cases r)
    case (Inl x)
    then obtain d where "v' = (Self p)\<lparr>Store := d\<rparr>" using err run by blast
    moreover have "q = p\<lparr>Self := v'\<rparr>" using assms(1) run Inl by (simp add: run_op_def)
    ultimately show ?thesis using p_inv_same [OF inv, of "(Self p)\<lparr>Store := d\<rparr>"] wf by (simp add: wf_other)
  next
    case (Inr u)
    then obtain d m e where v': "v' = (Self p)\<lparr>Store := d, Index := AList.update name m (Index (Self p)), Log := Log (Self p) @ [e]\<rparr>"
      and me: "meta_ok m" "audit_ok e" "Seq e = length (Log (Self p))"
      using ok run by blast
    have "vault_wf v'" unfolding v' using wf_log [OF wf_Index_update [OF _ assms(2) me(1)] me(2), of "(Self p)\<lparr>Store := d\<rparr>"] me(3) wf
      by (simp add: wf_other)
    moreover have "durable v' = fold dur_apply [E_Audit e, E_Obj name m] (durable (Self p))"
      using me(3) by (simp add: v' durable_def update_conv' Bucket_Versioned_def [abs_def])
    moreover have "q = Commit_Jrnl env (p\<lparr>Self := v', Jrnl_Buf := map entry_line [E_Audit e, E_Obj name m]\<rparr>)"
      using assms(1) inv run Inr by (simp add: run_op_def J_Obj_def J_Audit_def Append_Jrnl_def v' update_conv' p_inv_def)
    moreover have "list_all entry_wf [E_Audit e, E_Obj name m]" using me assms(2) by simp
    ultimately show ?thesis using p_inv_write [OF inv] by metis
  qed
qed

lemma put_inv:
  assumes "P_Put_Object env name data mode retain_for um p = Some (r, q)" and "room (Self p)" and "name \<noteq> []"
    and "length data \<le> Natural_Last" and "p_inv env p" and "env_ok env"
  shows "p_inv env q"
proof -
  have wf: "vault_wf (Self p)" using assms(5) by (simp add: p_inv_def)
  show ?thesis by (rule index_op_inv [OF assms(1) [unfolded P_Put_Object_def] assms(3,5)])
    (use Put_Object_Inl room_last [OF wf assms(2)] Put_Object_Inr [OF _ assms(6,4) wf] in \<open>auto 0 3\<close>)
qed

lemma complete_inv:
  assumes "P_Complete_Upload env u p = Some (r, q)" and "room (Self p)" and "up_Name u \<noteq> []"
    and "up_Total u \<le> Natural_Last" and "p_inv env p" and "env_ok env"
  shows "p_inv env q"
proof -
  have wf: "vault_wf (Self p)" using assms(5) by (simp add: p_inv_def)
  show ?thesis by (rule index_op_inv [OF assms(1) [unfolded P_Complete_Upload_def] assms(3,5)])
    (use complete_object_Inl room_last [OF wf assms(2)] complete_object_Inr [OF _ assms(6,4) wf] in \<open>auto 0 3\<close>)
qed

lemma delete_inv:
  assumes "P_Delete_Object env name bypass p = Some (r, q)" and "room (Self p)" and "p_inv env p" and "env_ok env"
  shows "p_inv env q"
proof -
  have wf: "vault_wf (Self p)" and buf: "Jrnl_Buf p = []" using assms(3) by (simp_all add: p_inv_def)
  obtain v' where run: "Delete_Object env name bypass (Self p) = Some (r, v')"
    using assms(1) by (auto simp: P_Delete_Object_def run_op_def split: option.splits sum.splits)
  from Delete_Object_result [OF run wf assms(4)] room_last [OF wf assms(2)]
  consider x where "r = Inl x" "v' = Self p"
    | (ok) e where "audit_ok e" "Seq e = length (Log (Self p))" "name \<in> fst ` set (Index (Self p))" "r = Inr True"
        "v' = (Self p)\<lparr>Index := AList.delete name (Index (Self p)), Log := Log (Self p) @ [e]\<rparr>"
    | (no) e where "audit_ok e" "Seq e = length (Log (Self p))" "r = Inr False" "v' = (Self p)\<lparr>Log := Log (Self p) @ [e]\<rparr>"
    by blast
  then show ?thesis
  proof cases
    case 1
    with assms(1,3) run show ?thesis by (simp add: P_Delete_Object_def run_op_def)
  next
    case ok
    have "lookup (Index (Self p)) name \<noteq> None" using ok(3) by (simp add: map_of_eq_None_iff)
    then have "name \<noteq> []" using wf_hold(1) [OF wf] by blast
    then have "list_all entry_wf [E_Audit e, E_Del name]" using ok(1) by simp
    moreover have "vault_wf v'" unfolding ok(5) using wf_log [OF wf_Index_delete [OF wf]] ok(1,2) by simp
    moreover have "durable v' = fold dur_apply [E_Audit e, E_Del name] (durable (Self p))"
      using ok(2) by (simp add: ok(5) durable_def delete_conv' Bucket_Versioned_def [abs_def])
    moreover have "q = Commit_Jrnl env (p\<lparr>Self := v', Jrnl_Buf := map entry_line [E_Audit e, E_Del name]\<rparr>)"
      using assms(1) run ok(4) by (simp add: P_Delete_Object_def run_op_def J_Del_def J_Audit_def Append_Jrnl_def ok(5) buf)
    ultimately show ?thesis using p_inv_write [OF assms(3)] by metis
  next
    case no
    have "vault_wf v'" unfolding no(4) by (rule wf_log [OF wf no(1,2)])
    moreover have "durable v' = fold dur_apply [E_Audit e] (durable (Self p))"
      using no(2) by (simp add: no(4) durable_def Bucket_Versioned_def [abs_def])
    moreover have "q = Commit_Jrnl env (p\<lparr>Self := v', Jrnl_Buf := map entry_line [E_Audit e]\<rparr>)"
      using assms(1) run no(3) by (simp add: P_Delete_Object_def run_op_def J_Audit_def Append_Jrnl_def no(4) buf)
    moreover have "list_all entry_wf [E_Audit e]" using no(1) by simp
    ultimately show ?thesis using p_inv_write [OF assms(3)] by metis
  qed
qed

lemma tick_inv:
  assumes "P_Tick_From_System env x boot p = Some (r, q)" and "room (Self p)" and "Mono x \<le> Time_Last"
    and "CHR '' '' \<notin> set boot" and "vault_wf (Self p)" and "env_ok env"
    and "p_inv env p \<or> Last_Boot (Self p) \<noteq> boot"
  shows "p_inv env q"
proof -
  obtain v' where run: "Tick_From_System env x boot (Self p) = Some (r, v')"
    using assms(1) by (auto simp: P_Tick_From_System_def run_op_def split: option.splits sum.splits)
  note t = Tick_From_System_result [OF run assms(5,6,2,3,4)]
  show ?thesis
  proof (cases "Started (Self p) \<and> Is_Sealed (Clock v') \<and> \<not> Is_Sealed (Clock (Self p)) \<or> Last_Boot (Self p) \<noteq> boot")
    case True
    then have "q = Save env (p\<lparr>Self := v'\<rparr>)" using assms(1) run t(1) by (simp add: P_Tick_From_System_def run_op_def)
    then show ?thesis using p_inv_Save [OF t(2)] by simp
  next
    case False
    then have "q = p\<lparr>Self := v'\<rparr>"
      using assms(1) run t(1) by (auto simp: P_Tick_From_System_def run_op_def split: if_splits)
    moreover have "unclock (durable v') = unclock (durable (Self p))"
      using t(3) False durable_clock [where v = "Self p" and c = "Clock v'" and b = True] by simp
    ultimately show ?thesis using p_inv_same [OF _ t(2)] assms(7) False by simp
  qed
qed

lemma bucket_wf:
  "Create_Bucket name lock v = Some (Inr (), v') \<Longrightarrow> name \<noteq> [] \<Longrightarrow> vault_wf v \<Longrightarrow> vault_wf v'"
  "Delete_Bucket name v = Some (Inr (), v') \<Longrightarrow> vault_wf v \<Longrightarrow> vault_wf v'"
  "Set_Versioning name on v = Some (Inr (), v') \<Longrightarrow> name \<noteq> [] \<Longrightarrow> vault_wf v \<Longrightarrow> vault_wf v'"
  by (auto simp: Create_Bucket_def Delete_Bucket_def Set_Versioning_def Check_Ingest_def io_bind_def io_try_def
      io_throw_def io_return_def io_modify_def wf_Buckets_update wf_Buckets_delete wf_Versioned_update split: if_splits)

lemma modes_wf:
  "m \<in> {Set_One_Way_Ingest True, Set_One_Way_Ingest False, Open_Sync_Window, Close_Sync_Window} \<Longrightarrow>
     m v = Some (Inr (), v') \<Longrightarrow> vault_wf v \<Longrightarrow> vault_wf v'"
  by (auto simp: Set_One_Way_Ingest_def Open_Sync_Window_def Close_Sync_Window_def io_modify_def wf_other)

lemma seal_inv:
  assumes "P_Seal env p = Some (Inr (), q)" and "p_inv env p" and "env_ok env"
  shows "p_inv env q"
proof (cases "Op_Sealed (Self p)")
  case False
  then have "run_op (Seal env) (\<lambda>_. Save env) p = Some (Inr (), q)" using assms(1) by (simp add: P_Seal_def)
  then show ?thesis by (rule run_op_Save) (use assms wf_Seal in \<open>auto simp: p_inv_def\<close>)
qed (use assms in \<open>simp add: P_Seal_def\<close>)

text \<open>
  Version ids are fresh: none is larger than the sequence number.  Every operation keeps this, and those on versions
  rely on it, since the records of a version are recognised by the id.
\<close>

definition vids :: "dur \<Rightarrow> bool" where
  "vids s \<longleftrightarrow> (\<forall>k. \<forall>e\<in>set (d_Versions s k). nat_of_digits (Vid e) \<le> d_Seq s)"

lemma vids_unclock: "unclock s = unclock t \<Longrightarrow> vids s = vids t"
  by (cases s; cases t) (simp add: unclock_def vids_def)

lemma vids_same: "vids (durable v) \<Longrightarrow> Versions v' = Versions v \<Longrightarrow> Ver_Seq v' = Ver_Seq v \<Longrightarrow> vids (durable v')"
  by (simp add: vids_def durable_def)

lemma vids_Index [simp]: "vids (durable (v\<lparr>Index := x\<rparr>)) = vids (durable v)"
  by (simp add: vids_def durable_def)

lemma vids_fresh: "vids s \<Longrightarrow> digits_of_nat (d_Seq s + 1) \<notin> Vid ` set (d_Versions s name)"
proof
  assume "vids s" "digits_of_nat (d_Seq s + 1) \<in> Vid ` set (d_Versions s name)"
  then have "nat_of_digits (digits_of_nat (d_Seq s + 1)) \<le> d_Seq s" by (auto simp: vids_def)
  then show False by (simp add: nat_of_digits_of_nat)
qed

lemma vids_new:
  "vids s \<Longrightarrow> Vid e = digits_of_nat (d_Seq s + 1) \<Longrightarrow> vids (dur_apply (E_Ver name e) (dur_apply (E_Vseq (d_Seq s + 1)) s))"
  by (auto simp: vids_def nat_of_digits_of_nat le_SucI)

lemma d_Seq_durable: "d_Seq (durable v) = Ver_Seq v"
  by (simp add: durable_def)

text \<open>A new version: the sequence number and the entry, in memory as in the journal.\<close>

lemma durable_new_version:
  assumes "vids (durable v)" and "Vid e = digits_of_nat (Ver_Seq v + 1)"
  shows "durable (v\<lparr>Ver_Seq := Ver_Seq v + 1, Versions := AList.update name (versions_of v name @ [e]) (Versions v)\<rparr>) =
     fold dur_apply [E_Vseq (Ver_Seq v + 1), E_Ver name e] (durable v)"
proof -
  have "Vid e \<notin> Vid ` set (d_Versions (durable v) name)" using vids_fresh [OF assms(1)] assms(2) by (simp add: d_Seq_durable)
  then show ?thesis
    by (simp add: durable_def update_conv' versions_of_def Bucket_Versioned_def [abs_def] fun_eq_iff)
qed

lemma version_write:
  assumes "p_inv env p" and "vids (durable (Self p))" and "name \<noteq> []" and "version_ok e" and "Ver_Seq (Self p) \<noteq> Natural_Last"
    and "Vid e = digits_of_nat (Ver_Seq (Self p) + 1)" and "list_all entry_wf cs"
    and "durable u = fold dur_apply cs (durable (Self p))" and "Versions u = Versions (Self p)" and "Ver_Seq u = Ver_Seq (Self p)"
    and "v' = u\<lparr>Ver_Seq := Ver_Seq u + 1, Versions := AList.update name (versions_of u name @ [e]) (Versions u)\<rparr>"
    and "q = Commit_Jrnl env (p\<lparr>Self := v', Jrnl_Buf := map entry_line (cs @ [E_Vseq (Ver_Seq (Self p) + 1), E_Ver name e])\<rparr>)"
  shows "p_inv env q \<and> vids (durable (Self q))"
proof -
  let ?es = "cs @ [E_Vseq (Ver_Seq (Self p) + 1), E_Ver name e]"
  have wf: "vault_wf (Self p)" using assms(1) by (simp add: p_inv_def)
  then have "Ver_Seq (Self p) \<le> Natural_Last" by (simp add: vault_wf_def dur_wf_def d_Seq_durable)
  with assms(3,4,5,7) have es: "list_all entry_wf ?es" by simp
  have vu: "vids (durable u)" by (rule vids_same [OF assms(2,9,10)])
  have d': "durable v' = fold dur_apply [E_Vseq (Ver_Seq u + 1), E_Ver name e] (durable u)"
    unfolding assms(11) by (rule durable_new_version [OF vu]) (simp add: assms(6,10))
  then have d: "durable v' = fold dur_apply ?es (durable (Self p))" by (simp add: assms(8,10))
  have wf': "vault_wf v'" using dur_wf_fold [OF _ es] wf unfolding vault_wf_def d by blast
  have "Self q = v'" unfolding assms(12) by (simp add: Commit_Jrnl_def Save_def)
  moreover have "vids (durable v')" using vids_new [OF vu, of e name] unfolding d' by (simp add: assms(6,10) d_Seq_durable)
  ultimately show ?thesis using p_inv_write [OF assms(1) wf' es d] assms(12) by simp
qed

lemma record_inv:
  assumes "P_Record_Version env name p = Some (r, q)" and "p_inv env p" and "vids (durable (Self p))"
  shows "p_inv env q \<and> vids (durable (Self q))"
proof (cases "lookup (Index (Self p)) name = None \<or> Ver_Seq (Self p) = Natural_Last")
  case True
  then have "q = p" using assms(1) by (auto simp: P_Record_Version_def run_op_def Record_Version_def io_throw_def split: option.splits)
  then show ?thesis using assms(2,3) by simp
next
  case False
  then obtain m where m: "lookup (Index (Self p)) name = Some m" and seq: "Ver_Seq (Self p) \<noteq> Natural_Last" by auto
  have wf: "vault_wf (Self p)" and buf: "Jrnl_Buf p = []" using assms(2) by (simp_all add: p_inv_def)
  define e where "e = \<lparr>Vid = digits_of_nat (Ver_Seq (Self p) + 1), Ver_Id = Id m, Ver_Size = Size m, Ver_Meta = User_Meta m, Deleted = False\<rparr>"
  have "name \<noteq> []" "version_ok e"
    using wf m by (auto simp: vault_wf_def dur_wf_def durable_def e_def version_ok_def meta_ok_def field_text_digits)
  then show ?thesis
    by (rule version_write [OF assms(2,3) _ _ seq, where cs = "[]" and u = "Self p", OF _ _ _ _ _ _ _ refl])
      (use assms(1) m seq in \<open>simp_all add: e_def P_Record_Version_def run_op_def Record_Version_def Let_def io_bind_def io_try_def
        io_modify_def io_return_def J_Ver_def J_Vseq_def Append_Jrnl_def Core_Vseq_def versions_of_def update_conv' buf\<close>)
qed

lemma marker_inv:
  assumes "P_Delete_Marker env name p = Some (r, q)" and "room (Self p)" and "name \<noteq> []"
    and "p_inv env p" and "vids (durable (Self p))" and "env_ok env"
  shows "p_inv env q \<and> vids (durable (Self q))"
proof (cases "Ver_Seq (Self p) = Natural_Last")
  case True
  then have "q = p" using assms(1) by (simp add: P_Delete_Marker_def run_op_def Delete_Marker_def io_throw_def)
  then show ?thesis using assms(4,5) by simp
next
  case False
  have wf: "vault_wf (Self p)" and buf: "Jrnl_Buf p = []" using assms(4) by (simp_all add: p_inv_def)
  note log = room_last [OF wf assms(2)]
  define e where "e = \<lparr>Vid = digits_of_nat (Ver_Seq (Self p) + 1), Ver_Id = replicate 64 (CHR ''0''), Ver_Size = 0, Ver_Meta = [], Deleted = True\<rparr>"
  define a where "a = Append (sha256 env) (last (Log (Self p))) (Now (Clock (Self p))) Delete_Allowed (Name_Digest env name) (Now (Clock (Self p)))"
  define cs where "cs = (if lookup (Index (Self p)) name = None then [] else [E_Del name]) @ [E_Audit a]"
  define u where "u = (Self p)\<lparr>Index := AList.delete name (Index (Self p)), Log := Log (Self p) @ [a]\<rparr>"
  define v' where "v' = u\<lparr>Ver_Seq := Ver_Seq u + 1, Versions := AList.update name (versions_of u name @ [e]) (Versions u)\<rparr>"
  note ok = Append_ok [OF wf _ _ assms(6) Name_Digest_32 [OF assms(6)] wf_Now [OF wf], folded a_def]
  have "field_text (replicate 64 (CHR ''0''))" by (simp add: field_text_def)
  then have "version_ok e" by (simp add: e_def version_ok_def field_text_digits)
  moreover have "Vid e = digits_of_nat (Ver_Seq (Self p) + 1)" by (simp add: e_def)
  moreover have "list_all entry_wf cs" using ok(1) log assms(3) by (simp add: cs_def a_def)
  moreover have "durable u = fold dur_apply cs (durable (Self p))"
    using ok(2) log by (auto simp: u_def cs_def a_def durable_def delete_conv' Bucket_Versioned_def [abs_def] fun_upd_idem)
  moreover have run: "Delete_Marker env name (Self p) = Some (Inr (Vid e), v')"
    using False log by (simp add: Delete_Marker_def Let_def io_bind_def io_try_def io_modify_def io_return_def Add_Audit_def
        versions_of_def) (simp add: v'_def u_def a_def e_def versions_of_def)
  moreover have "q = Commit_Jrnl env (p\<lparr>Self := v', Jrnl_Buf := map entry_line (cs @ [E_Vseq (Ver_Seq (Self p) + 1), E_Ver name e])\<rparr>)"
    using assms(1) [unfolded P_Delete_Marker_def run_op_def run, simplified, THEN conjunct2, symmetric]
    by (simp add: v'_def u_def cs_def J_Ver_def J_Vseq_def J_Del_def J_Audit_def Append_Jrnl_def Core_Vseq_def versions_of_def update_conv' buf)
  moreover have "Versions u = Versions (Self p)" "Ver_Seq u = Ver_Seq (Self p)" by (simp_all add: u_def)
  ultimately show ?thesis using version_write [OF assms(4,5,3) _ False, of e cs u v' q] v'_def by blast
qed

lemma wf_Delete_Version:
  assumes "Delete_Version name vid v = Some (Inr (), v')" and "vault_wf v"
  shows "vault_wf v' \<and> (vids (durable v) \<longrightarrow> vids (durable v'))"
proof -
  from assms(1) obtain xs i where x: "lookup (Versions v) name = Some xs" and i: "last_match vid xs = Some i"
    by (auto simp: Delete_Version_def io_throw_def split: option.splits)
  define vec where "vec = take i xs @ drop (Suc i) xs"
  define w where "w = v\<lparr>Versions := (if vec = [] then AList.delete name (Versions v) else AList.update name vec (Versions v))\<rparr>"
  have sub: "set vec \<subseteq> set xs" by (auto simp: vec_def dest: in_set_takeD in_set_dropD)
  have xs: "list_all version_ok xs" "distinct (map Vid xs)" "name \<noteq> []"
    using vault_wf_versions [OF assms(2) x] last_match_less [OF i] by auto
  have dist: "distinct (map Vid vec)"
    using xs(2) unfolding vec_def by (subst (asm) id_take_nth_drop [OF last_match_less [OF i]]) auto
  have "d_Versions (durable w) = (d_Versions (durable v))(name := vec)"
    by (auto simp: w_def durable_def update_conv' delete_conv' fun_eq_iff)
  then have dw: "durable w = (durable v)\<lparr>d_Versions := (d_Versions (durable v))(name := vec)\<rparr>"
    by (simp add: w_def durable_def Bucket_Versioned_def [abs_def])
  have wf: "vault_wf w" using assms(2) xs dist sub
    unfolding vault_wf_def dw by (auto simp: dur_wf_def list_all_iff)
  have xv: "e \<in> set vec \<Longrightarrow> e \<in> set (d_Versions (durable v) name)" for e using sub x by (auto simp: durable_def)
  have vids: "vids (durable v) \<Longrightarrow> vids (durable w)" unfolding dw using xv by (auto simp: vids_def)
  show ?thesis
  proof (cases "find (\<lambda>e. \<not> Deleted e) (rev vec)")
    case None
    then have "v' = w\<lparr>Index := AList.delete name (Index w)\<rparr>"
      using assms(1) x i by (auto simp: Delete_Version_def Let_def io_modify_def w_def vec_def [symmetric])
    then show ?thesis using wf_Index_delete [OF wf] vids by simp
  next
    case (Some e)
    let ?m = "\<lparr>Id = Ver_Id e, Lock = Create_Lock Governance 0 0, Composite = False, Quarantined = False, Size = Ver_Size e, User_Meta = Ver_Meta e\<rparr>"
    let ?w = "w\<lparr>Index := AList.delete name (Index w)\<rparr>"
    have v': "v' = ?w\<lparr>Index := AList.update name ?m (Index ?w)\<rparr>"
      using assms(1) x i Some by (auto simp: Delete_Version_def Let_def io_modify_def w_def vec_def [symmetric])
    have "e \<in> set vec" using Some by (auto simp: find_Some_iff) (metis nth_mem length_rev set_rev)
    then have "meta_ok ?m" using sub xs(1) by (auto simp: list_all_iff version_ok_def meta_ok_def Create_Lock_def)
    then have "vault_wf v'" unfolding v' by (intro wf_Index_update wf_Index_delete wf xs(3))
    then show ?thesis using v' vids by simp
  qed
qed

lemma run_op_vids:
  assumes "run_op m k p = Some (r, q)" and "vids (durable (Self p))" and "\<And>r v. m (Self p) = Some (r, v) \<Longrightarrow> same_versions (Self p) v"
    and "\<And>x u. Self (k x u) = Self u"
  shows "vids (durable (Self q))"
proof -
  obtain v where "m (Self p) = Some (r, v)" "Self q = v"
    using assms(1,4) by (auto simp: run_op_def split: option.splits sum.splits)
  with assms(3) vids_same [OF assms(2), of v] show ?thesis by (auto simp: same_versions_def)
qed

lemma Self_simps [simp]:
  "Self (Save env p) = Self p" "Self (Append_Jrnl l p) = Self p" "Self (Commit_Jrnl env p) = Self p"
  by (simp_all add: Save_def Append_Jrnl_def Commit_Jrnl_def)

text \<open>The invariant of the running vault.\<close>

definition v_inv :: "'d vault_env \<Rightarrow> 'd pvault \<Rightarrow> bool" where
  "v_inv env p \<longleftrightarrow> p_inv env p \<and> vids (durable (Self p))"

lemma p_step_p_inv:
  assumes "p_step env vi p q" and "v_inv env p" and "env_ok env"
  shows "p_inv env q"
proof -
  have inv: "p_inv env p" and v: "vids (durable (Self p))" using assms(2) by (simp_all add: v_inv_def)
  from assms(1) show ?thesis
  proof cases
    case hold
    then show ?thesis unfolding P_Set_Legal_Hold_def
      by (rule run_op_Save) (use inv assms(3) wf_Set_Legal_Hold in \<open>auto simp: p_inv_def\<close>)
  next
    case release
    then show ?thesis unfolding P_Release_Legal_Hold_def
      by (rule run_op_Save) (use inv assms(3) wf_Release_Legal_Hold in \<open>auto simp: p_inv_def\<close>)
  next
    case create_bucket
    from this(1) show ?thesis unfolding P_Create_Bucket_def
      by (rule run_op_Save) (use inv create_bucket bucket_wf in \<open>auto simp: p_inv_def\<close>)
  next
    case delete_bucket
    then show ?thesis unfolding P_Delete_Bucket_def
      by (rule run_op_Save) (use inv bucket_wf in \<open>auto simp: p_inv_def\<close>)
  next
    case versioning
    from this(1) show ?thesis unfolding P_Set_Versioning_def
      by (rule run_op_Save) (use inv versioning bucket_wf in \<open>auto simp: p_inv_def\<close>)
  next
    case (modes m)
    from this(2) show ?thesis unfolding P_Modes_def
      by (rule run_op_Save) (use inv modes(1) modes_wf in \<open>auto simp: p_inv_def\<close>)
  next
    case (tick x boot r)
    have "vault_wf (Self p)" using inv by (simp add: p_inv_def)
    then show ?thesis using tick_inv [OF tick] inv assms(3) by blast
  next
    case restart
    with inv journal_inv_Open [of env p vi "Store (Self p)"] show ?thesis by (auto simp: p_inv_def)
  next
    case (delete_version name vid)
    then show ?thesis unfolding P_Delete_Version_def
      by (rule run_op_Save) (use inv assms(3) wf_Delete_Version in \<open>auto simp: p_inv_def\<close>)
  next
    case put
    then show ?thesis by (rule put_inv [OF _ _ _ _ inv assms(3)])
  next
    case complete
    then show ?thesis by (rule complete_inv [OF _ _ _ _ inv assms(3)])
  next
    case delete
    then show ?thesis by (rule delete_inv [OF _ _ inv assms(3)])
  next
    case seal
    then show ?thesis by (rule seal_inv [OF _ inv assms(3)])
  next
    case record_version
    then show ?thesis by (rule record_inv [OF _ inv v, THEN conjunct1])
  next
    case marker
    then show ?thesis by (rule marker_inv [OF _ _ _ inv v assms(3), THEN conjunct1])
  qed
qed

lemma p_step_vids:
  assumes "p_step env vi p q" and "v_inv env p" and "env_ok env"
  shows "vids (durable (Self q))"
proof -
  have inv: "p_inv env p" and v: "vids (durable (Self p))" using assms(2) by (simp_all add: v_inv_def)
  have frame: "vids (durable (Self q))" if "run_op m k p = Some (r, q)" "\<And>r v. m (Self p) = Some (r, v) \<Longrightarrow> same_versions (Self p) v"
    "\<And>x u. Self (k x u) = Self u" for m :: "('a vault, ada_exn, 'x) io" and k r
    using run_op_vids [OF that(1) v that(2,3)] .
  from assms(1) show ?thesis
  proof cases
    case (delete_version name vid)
    then obtain v' where "Delete_Version name vid (Self p) = Some (Inr (), v')" "Self q = v'"
      by (auto simp: P_Delete_Version_def run_op_def split: option.splits sum.splits)
    then show ?thesis using wf_Delete_Version v inv by (auto simp: p_inv_def)
  next
    case restart
    then have "unclock (durable (Self q)) = unclock (durable (Self p))"
      using inv journal_inv_Open [of env p vi "Store (Self p)"] by (auto simp: p_inv_def)
    then show ?thesis using vids_unclock v by blast
  next
    case (tick x boot r)
    from tick(1) show ?thesis unfolding P_Tick_From_System_def by (rule frame) (auto intro: ops_same)
  next
    case seal
    then show ?thesis unfolding P_Seal_def using v by (auto split: if_splits intro: frame ops_same)
  next
    case record_version
    then show ?thesis by (rule record_inv [OF _ inv v, THEN conjunct2])
  next
    case marker
    then show ?thesis by (rule marker_inv [OF _ _ _ inv v assms(3), THEN conjunct2])
  qed ((simp only: P_Put_Object_def P_Complete_Upload_def P_Delete_Object_def P_Set_Legal_Hold_def P_Release_Legal_Hold_def P_Create_Bucket_def
        P_Delete_Bucket_def P_Set_Versioning_def P_Modes_def; erule frame;
        auto simp: J_Obj_def J_Audit_def J_Del_def intro: Put_Object_same complete_object_same ops_same))+
qed

lemma p_step_inv: "p_step env vi p q \<Longrightarrow> v_inv env p \<Longrightarrow> env_ok env \<Longrightarrow> v_inv env q"
  using p_step_p_inv p_step_vids by (metis v_inv_def)

lemma p_steps_inv: "(p_step env vi)\<^sup>*\<^sup>* p q \<Longrightarrow> v_inv env p \<Longrightarrow> env_ok env \<Longrightarrow> v_inv env q"
  by (induction rule: rtranclp_induct) (blast intro: p_step_inv)+

lemma fresh_wf:
  assumes "env_ok env" and "Open env vi \<lparr>State_File = None, Journal_File = None\<rparr> d = Inr p"
  shows "vault_wf (Self p) \<and> room (Self p) \<and> Last_Boot (Self p) = [] \<and> vids (durable (Self p))"
  using assms
  by (auto simp: vids_def Open_def new_state_def vault_wf_def dur_wf_def durable_def Bucket_Versioned_def Now_def Init_def room_def
      audit_ok_def Genesis_Entry_def Let_def Zero_Digest_def env_ok_def Compute_Hash_def Hash_Of_def Natural_Last_def)

section \<open>Properties\<close>


text \<open>A store with room for two objects, a vault opened on it, and its first clock reading, for evaluation.\<close>

definition small_env :: "(string \<times> bytes) list vault_env" where
  "small_env = list_env\<lparr>sha256 := (\<lambda>x. replicate 32 0),
     cas_Put := (\<lambda>data d. let i = replicate 64 (if d = [] then CHR ''a'' else CHR ''b'') in
       if map_of d i = None then (Inr i, (i, data) # d) else (Inl (Cas_Error ''full''), d))\<rparr>"

definition first_reading :: Clock_Sample where
  "first_reading = \<lparr>Mono = 7, Realtime = 9, Boot_Changed = False\<rparr>"

lemma env_ok_small: "env_ok small_env"
  by (auto simp: env_ok_def small_env_def Let_def field_text_def split: if_splits)

lemma small_start:
  "\<exists>p p1 q. Open small_env vi \<lparr>State_File = None, Journal_File = None\<rparr> [] = Inr p \<and>
     P_Tick_From_System small_env first_reading ''boot1'' p = Some (Inr (), p1) \<and>
     P_Put_Object small_env ''a'' ''hi'' Compliance 5 [] p1 = Some (Inr (), q) \<and> room (Self p1) \<and>
     lookup (Index (Self q)) ''a'' = Some \<lparr>Id = replicate 64 (CHR ''a''), Lock = Create_Lock Compliance 5 0,
       Composite = False, Quarantined = False, Size = 2, User_Meta = []\<rparr>"
  by (simp add: Open_def new_state_def P_Tick_From_System_def run_op_def Tick_From_System_def Tick_Clock_def io_bind_def
      io_try_def io_modify_def io_throw_def first_reading_def Init_def Save_def P_Put_Object_def Put_Object_def Check_Ingest_def
      io_return_def io_gets_def Now_def Time_Last_def store_object_def store_put_def Max_Single_def small_env_def list_env_def
      Add_Audit_def Genesis_Entry_def Let_def Natural_Last_def room_def Commit_Jrnl_def J_Obj_def J_Audit_def Append_Jrnl_def
      Compact_Limit_def)


text \<open>
  C37: A restart forgets the trusted time.  After the vault's files have been loaded, whatever clock they recorded, the
  first clock reading sets the trusted time to zero and clears the clock's seal; so a compliance lock that had
  expired before the restart protects its object again until the whole period has passed once more.
\<close>

theorem restart_resets_clock:
  assumes "Open env vi \<lparr>State_File = Some ls, Journal_File = js\<rparr> d = Inr u"
    and "Tick_From_System env x boot (Self u) = Some (r, v)"
  shows "Now (Clock v) = 0 \<and> \<not> Is_Sealed (Clock v) \<and>
     (\<forall>name m. lookup (Index (Self u)) name = Some m \<and> Lock_Mode_Of (Lock m) = Compliance \<and> Retain_Until (Lock m) > 0 \<longrightarrow>
        \<not> Object_Deletable v name)"
proof -
  have "\<not> Started (Self u)"
    using assms(1) replay_frame [where ls = ls and v = "new_state d" and vi = vi]
    by (fastforce simp: Open_def Load_def new_state_def split: sum.splits option.splits dest: replay_frame)
  then have v: "v = (Self u)\<lparr>Last_Boot := boot, Clock := Clock v, Started := True\<rparr>" "Now (Clock v) = 0" "\<not> Is_Sealed (Clock v)"
    using assms(2) by (auto simp: Tick_From_System_def Tick_Clock_def io_bind_def io_try_def io_modify_def Init_def Now_def
        Is_Sealed_def Let_def)
  have "lookup (Index v) = lookup (Index (Self u))" by (subst v(1)) simp
  with v(2,3) show ?thesis by (auto simp: Object_Deletable_def Can_Delete_def)
qed

theorem restart_resets_clock_witness:
  "\<exists>u v. Open small_env (\<lambda>_. None) \<lparr>State_File = Some [''CLOCK  99 1 0''], Journal_File = None\<rparr> [] = Inr u \<and>
     Now (Clock (Self u)) = 99 \<and> Tick_From_System small_env first_reading ''boot1'' (Self u) = Some (Inr (), v) \<and> Now (Clock v) = 0"
proof -
  have "\<exists>u. Open small_env (\<lambda>_. None) \<lparr>State_File = Some [''CLOCK  99 1 0''], Journal_File = None\<rparr> [] = Inr u \<and>
      Now (Clock (Self u)) = 99 \<and> \<not> Started (Self u)"
    by (simp add: Open_def Load_def Apply_Line_def Field_def or_raise_def Time_Value_def is_digit_def nat_of_digits_def
        Time_Last_def Now_def new_state_def)
  then obtain u where u: "Open small_env (\<lambda>_. None) \<lparr>State_File = Some [''CLOCK  99 1 0''], Journal_File = None\<rparr> [] = Inr u"
    "Now (Clock (Self u)) = 99" "\<not> Started (Self u)" by blast
  then obtain v where "Tick_From_System small_env first_reading ''boot1'' (Self u) = Some (Inr (), v)"
    by (simp add: Tick_From_System_def Tick_Clock_def io_bind_def io_try_def io_modify_def Let_def)
  with restart_resets_clock [OF u(1)] u show ?thesis by blast
qed

text \<open>
  C38: A crash between the two steps of \<open>Save\<close> mixes two states.  When the vault has just replaced its snapshot to
  record a legal hold, and stops before it empties the journal, the restart replays the journal's older record of
  the object over the snapshot: the object is back without the hold, while the audit log says that the hold was
  set.
\<close>

theorem crash_in_Save_mixes_states:
  assumes "env_ok env" and "vault_wf (Self p)" and "P_Set_Legal_Hold env name p = Some (Inr (), q)"
    and "lookup (Index (Self p)) name = Some m" and "list_all entry_wf es"
    and "\<forall>n\<in>set (concat (map entry_seq es)). n < length (Log (Self p))"
    and "Journal_File (Disk p) = Some (map entry_line (es @ [E_Obj name m]))"
  shows "\<exists>u. Open env vi ((Disk q)\<lparr>Journal_File := Journal_File (Disk p)\<rparr>) d = Inr u \<and>
     lookup (Index (Self u)) name = Some m \<and> Legal_Hold (Lock (the (lookup (Index (Self q)) name))) \<and>
     Log (Self u) = Log (Self q) \<and> Kind (last (Log (Self u))) = Legal_Hold_Set \<and>
     Subject (last (Log (Self u))) = Name_Digest env name"
proof -
  obtain v' where run: "Set_Legal_Hold env name (Self p) = Some (Inr (), v')" and q: "q = Save env (p\<lparr>Self := v'\<rparr>)"
    using assms(3) by (auto simp: P_Set_Legal_Hold_def run_op_def split: option.splits sum.splits)
  have wf: "vault_wf v'" by (rule wf_Set_Legal_Hold [OF run assms(2,1)])
  let ?e = "Append (sha256 env) (last (Log (Self p))) (Now (Clock (Self p))) Legal_Hold_Set (Name_Digest env name) (Now (Clock (Self p)))"
  have v': "Log v' = Log (Self p) @ [?e]" "lookup (Index v') name = Some (m\<lparr>Lock := Set_Hold (Lock m)\<rparr>)"
    using run assms(4) by (auto simp: Set_Legal_Hold_def io_bind_def io_try_def io_modify_def io_throw_def Add_Audit_def
        update_conv' split: if_splits)
  have "meta_ok m \<and> name \<noteq> []" using assms(2,4) by (auto simp: vault_wf_def dur_wf_def durable_def)
  then have "list_all entry_wf (es @ [E_Obj name m])" using assms(5) by simp
  from Open_entries [OF wf this, of env vi d] obtain u where
    u: "Open env vi \<lparr>State_File = Some (snapshot_lines env v'), Journal_File = Some (map entry_line (es @ [E_Obj name m]))\<rparr> d = Inr u"
    "durable (Self u) = fold dur_apply (es @ [E_Obj name m]) (durable v')" by blast
  have disk: "(Disk q)\<lparr>Journal_File := Journal_File (Disk p)\<rparr> =
      \<lparr>State_File = Some (snapshot_lines env v'), Journal_File = Some (map entry_line (es @ [E_Obj name m]))\<rparr>"
    by (simp add: q Save_def assms(7))
  have "length (d_Log (durable v')) \<notin> set (concat (map entry_seq (es @ [E_Obj name m])))"
    using assms(6) by (force simp: durable_sels v'(1))
  then have "Log (Self u) = Log v'"
    using log_fixed [of "durable v'"] u(2) by (simp add: durable_sels [symmetric] del: fold_append)
  moreover have "lookup (Index (Self u)) name = Some m"
  proof -
    have "d_Index (durable (Self u)) name = Some m" unfolding u(2) by simp
    then show ?thesis by (simp add: durable_sels)
  qed
  moreover have "Self q = v'" by (simp add: q Save_def)
  ultimately show ?thesis unfolding disk using u(1) v' by (simp add: Set_Hold_def Append_def Let_def)
qed

lemma small_journal:
  "\<exists>(p :: (string \<times> bytes) list pvault) m e. vault_wf (Self p) \<and> lookup (Index (Self p)) ''a'' = Some m \<and> \<not> Legal_Hold (Lock m) \<and> audit_ok e \<and>
     Seq e < length (Log (Self p)) \<and> Log (Self p) \<noteq> [] \<and> Seq (last (Log (Self p))) \<noteq> Natural_Last \<and>
     Journal_File (Disk p) = Some (map entry_line ([E_Audit e] @ [E_Obj ''a'' m]))"
proof -
  let ?m = "\<lparr>Id = replicate 64 (CHR ''a''), Lock = Create_Lock Compliance 5 0, Composite = False, Quarantined = False, Size = 2,
    User_Meta = []\<rparr>"
  let ?g = "Genesis_Entry (sha256 small_env) 0"
  let ?e = "Append (sha256 small_env) ?g 0 Lock_Created (Name_Digest small_env ''a'') 5"
  let ?v = "(new_state [])\<lparr>Index := [(''a'', ?m)], Log := [?g, ?e]\<rparr>"
  let ?p = "\<lparr>Self = ?v, Jrnl_Count = 2, Jrnl_Buf = [], Disk = \<lparr>State_File = None,
    Journal_File = Some (map entry_line ([E_Audit ?e] @ [E_Obj ''a'' ?m]))\<rparr>\<rparr>"
  have e: "audit_ok ?g" "audit_ok ?e" "Seq ?g = 0" "Seq ?e = 1"
    by (simp_all add: audit_ok_def Genesis_Entry_def Append_def Let_def Compute_Hash_def Hash_Of_def small_env_def
        Zero_Digest_def Name_Digest_def Natural_Last_def Time_Last_def)
  moreover have "meta_ok ?m" by (simp add: meta_ok_def field_text_def Create_Lock_def Time_Last_def Natural_Last_def)
  ultimately have "vault_wf ?v"
    by (simp add: vault_wf_def dur_wf_def durable_def new_state_def Now_def Bucket_Versioned_def)
  then show ?thesis using e
    by (intro exI [of _ ?p] exI [of _ ?m] exI [of _ ?e]) (simp add: Create_Lock_def Natural_Last_def)
qed

theorem crash_in_Save_mixes_states_witness:
  "\<exists>p q m u. P_Set_Legal_Hold small_env ''a'' p = Some (Inr (), q) \<and>
     Open small_env (\<lambda>_. None) ((Disk q)\<lparr>Journal_File := Journal_File (Disk p)\<rparr>) [] = Inr u \<and>
     lookup (Index (Self u)) ''a'' = Some m \<and> \<not> Legal_Hold (Lock m) \<and> Kind (last (Log (Self u))) = Legal_Hold_Set"
proof -
  obtain p :: "(string \<times> bytes) list pvault" and m e where p: "vault_wf (Self p)" "lookup (Index (Self p)) ''a'' = Some m" "\<not> Legal_Hold (Lock m)" "audit_ok e"
    "Seq e < length (Log (Self p))" "Log (Self p) \<noteq> []" "Seq (last (Log (Self p))) \<noteq> Natural_Last"
    "Journal_File (Disk p) = Some (map entry_line ([E_Audit e] @ [E_Obj ''a'' m]))"
    using small_journal by blast
  obtain q where q: "P_Set_Legal_Hold small_env ''a'' p = Some (Inr (), q)"
    using p(2,6,7) by (simp add: P_Set_Legal_Hold_def run_op_def Set_Legal_Hold_def Add_Audit_def io_bind_def io_try_def io_modify_def)
  have "list_all entry_wf [E_Audit e]" "\<forall>n\<in>set (concat (map entry_seq [E_Audit e])). n < length (Log (Self p))"
    using p(4,5) by simp_all
  from crash_in_Save_mixes_states [OF env_ok_small p(1) q p(2) this p(8), of "\<lambda>_. None" "[]"] q p(3) show ?thesis by blast
qed

text \<open>
  A journal may be replayed twice.  Loading lines written by the vault's serializers, with the audit entries in
  ascending order, into the state they have already led to succeeds and changes nothing: objects and buckets are
  overwritten with what they hold, deletions find nothing, versions and audit entries are recognised.
\<close>

lemma journal_replay_twice:
  assumes "list_all entry_wf es" and "sorted (concat (map entry_seq es))" and "replay vi (map entry_line es) v = Inr w"
  shows "\<exists>u. replay vi (map entry_line es) w = Inr u \<and> durable u = durable w"
proof -
  have "durable w = fold dur_apply es (durable v)" using replay_entries [OF assms(1), of vi v] assms(3) by auto
  moreover obtain u where "replay vi (map entry_line es) w = Inr u" "durable u = fold dur_apply es (durable w)"
    using replay_entries [OF assms(1)] by blast
  ultimately show ?thesis using dur_apply_twice [OF assms(2)] by simp
qed

end
