(* ===== verification/Hashing.thy ===== *)
theory Hashing
  imports Prelude "HOL-Library.Word"
begin

text \<open>
  SHA-256 as \<open>src/trusted_core/src/dezhan-trusted_core-hashing.adb\<close> computes it, and HMAC-SHA256 of
  \<open>dezhan-trusted_core-hmac.adb\<close>.  Bytes and words have the width of the machine types; arrays are lists.
\<close>

unbundle bit_operations_syntax

section \<open>SHA-256\<close>

definition Max_Message :: nat where "Max_Message = 8192"

definition H0 :: "32 word list" where
  "H0 = [0x6a09e667, 0xbb67ae85, 0x3c6ef372, 0xa54ff53a, 0x510e527f, 0x9b05688c, 0x1f83d9ab, 0x5be0cd19]"

definition K_Table :: "32 word list" where
  "K_Table = concat
    [[0x428a2f98, 0x71374491, 0xb5c0fbcf, 0xe9b5dba5], [0x3956c25b, 0x59f111f1, 0x923f82a4, 0xab1c5ed5],
     [0xd807aa98, 0x12835b01, 0x243185be, 0x550c7dc3], [0x72be5d74, 0x80deb1fe, 0x9bdc06a7, 0xc19bf174],
     [0xe49b69c1, 0xefbe4786, 0x0fc19dc6, 0x240ca1cc], [0x2de92c6f, 0x4a7484aa, 0x5cb0a9dc, 0x76f988da],
     [0x983e5152, 0xa831c66d, 0xb00327c8, 0xbf597fc7], [0xc6e00bf3, 0xd5a79147, 0x06ca6351, 0x14292967],
     [0x27b70a85, 0x2e1b2138, 0x4d2c6dfc, 0x53380d13], [0x650a7354, 0x766a0abb, 0x81c2c92e, 0x92722c85],
     [0xa2bfe8a1, 0xa81a664b, 0xc24b8b70, 0xc76c51a3], [0xd192e819, 0xd6990624, 0xf40e3585, 0x106aa070],
     [0x19a4c116, 0x1e376c08, 0x2748774c, 0x34b0bcb5], [0x391c0cb3, 0x4ed8aa4a, 0x5b9cca4f, 0x682e6ff3],
     [0x748f82ee, 0x78a5636f, 0x84c87814, 0x8cc70208], [0x90befffa, 0xa4506ceb, 0xbef9a3f7, 0xc67178f2]]"

definition Rotr :: "32 word \<Rightarrow> nat \<Rightarrow> 32 word" where
  "Rotr x n = word_rotr n x"

definition Shr :: "32 word \<Rightarrow> nat \<Rightarrow> 32 word" where
  "Shr x n = drop_bit n x"

definition Ch :: "32 word \<Rightarrow> 32 word \<Rightarrow> 32 word \<Rightarrow> 32 word" where
  "Ch x y z = (x AND y) XOR ((NOT x) AND z)"

definition Maj :: "32 word \<Rightarrow> 32 word \<Rightarrow> 32 word \<Rightarrow> 32 word" where
  "Maj x y z = (x AND y) XOR (x AND z) XOR (y AND z)"

definition Big_Sigma0 :: "32 word \<Rightarrow> 32 word" where
  "Big_Sigma0 x = Rotr x 2 XOR Rotr x 13 XOR Rotr x 22"

definition Big_Sigma1 :: "32 word \<Rightarrow> 32 word" where
  "Big_Sigma1 x = Rotr x 6 XOR Rotr x 11 XOR Rotr x 25"

definition Small_Sigma0 :: "32 word \<Rightarrow> 32 word" where
  "Small_Sigma0 x = Rotr x 7 XOR Rotr x 18 XOR Shr x 3"

definition Small_Sigma1 :: "32 word \<Rightarrow> 32 word" where
  "Small_Sigma1 x = Rotr x 17 XOR Rotr x 19 XOR Shr x 10"

text \<open>The padded message: the terminator, zeros, and the bit length in the last eight bytes.\<close>

definition be64 :: "64 word \<Rightarrow> 8 word list" where
  "be64 v = map (\<lambda>i. ucast (drop_bit (8 * (7 - i)) v AND 0xFF)) [0..<8]"

definition pad :: "8 word list \<Rightarrow> 8 word list" where
  "pad msg = (let len = length msg; nb = (len + 8) div 64 + 1; pl = nb * 64
     in msg @ [0x80] @ replicate (pl - 8 - len - 1) 0 @ be64 (of_nat len * 8))"

text \<open>The schedule of a block of 64 bytes.\<close>

definition be32 :: "8 word list \<Rightarrow> nat \<Rightarrow> 32 word" where
  "be32 b i = push_bit 24 (ucast (b ! i)) OR push_bit 16 (ucast (b ! (i + 1))) OR push_bit 8 (ucast (b ! (i + 2))) OR ucast (b ! (i + 3))"

definition schedule :: "8 word list \<Rightarrow> 32 word list" where
  "schedule b = foldl (\<lambda>w t. w @ [Small_Sigma1 (w ! (t - 2)) + w ! (t - 7) + Small_Sigma0 (w ! (t - 15)) + w ! (t - 16)])
     (map (\<lambda>t. be32 b (t * 4)) [0..<16]) [16..<64]"

text \<open>The 64 rounds on the registers \<open>A\<close> to \<open>Hh\<close>.\<close>

type_synonym registers = "32 word \<times> 32 word \<times> 32 word \<times> 32 word \<times> 32 word \<times> 32 word \<times> 32 word \<times> 32 word"

fun sha_round :: "registers \<Rightarrow> 32 word \<times> 32 word \<Rightarrow> registers" where
  "sha_round (a, b, c, d, e, f, g, h) (k, w) =
    (let t1 = h + Big_Sigma1 e + Ch e f g + k + w; t2 = Big_Sigma0 a + Maj a b c
     in (t1 + t2, a, b, c, d + t1, e, f, g))"

definition sha_block :: "32 word list \<Rightarrow> 8 word list \<Rightarrow> 32 word list" where
  "sha_block h blk = (case foldl sha_round (h ! 0, h ! 1, h ! 2, h ! 3, h ! 4, h ! 5, h ! 6, h ! 7) (zip K_Table (schedule blk)) of
     (a, b, c, d, e, f, g, hh) \<Rightarrow>
       [h ! 0 + a, h ! 1 + b, h ! 2 + c, h ! 3 + d, h ! 4 + e, h ! 5 + f, h ! 6 + g, h ! 7 + hh])"

fun blocks64 :: "nat \<Rightarrow> 8 word list \<Rightarrow> 8 word list list" where
  "blocks64 0 bs = []"
| "blocks64 (Suc n) bs = take 64 bs # blocks64 n (drop 64 bs)"

definition word_bytes :: "32 word \<Rightarrow> 8 word list" where
  "word_bytes w = [ucast (drop_bit 24 w AND 0xFF), ucast (drop_bit 16 w AND 0xFF), ucast (drop_bit 8 w AND 0xFF), ucast (w AND 0xFF)]"

definition SHA256 :: "8 word list \<Rightarrow> 8 word list" where
  "SHA256 msg = concat (map word_bytes (foldl sha_block H0 (blocks64 ((length msg + 8) div 64 + 1) (pad msg))))"

lemma length_word_bytes [simp]: "length (word_bytes w) = 4"
  by (simp add: word_bytes_def)

lemma length_sha_block [simp]: "length (sha_block h b) = 8"
  by (simp add: sha_block_def split: prod.split)

lemma length_SHA256 [simp]: "length (SHA256 msg) = 32"
proof -
  have h: "length (foldl sha_block h bs) = 8" if "length h = 8" for h bs
    using that by (induction bs rule: rev_induct) simp_all
  then show ?thesis by (simp add: SHA256_def length_concat comp_def sum_list_triv H0_def)
qed

text \<open>The test vector of FIPS 180-4, also in \<open>src/trusted_core/tests/test_hashing.adb\<close>.\<close>

lemma SHA256_abc:
  "SHA256 [0x61, 0x62, 0x63] = [0xba, 0x78, 0x16, 0xbf, 0x8f, 0x01, 0xcf, 0xea, 0x41, 0x41, 0x40, 0xde, 0x5d, 0xae, 0x22, 0x23,
     0xb0, 0x03, 0x61, 0xa3, 0x96, 0x17, 0x7a, 0x9c, 0xb4, 0x10, 0xff, 0x61, 0xf2, 0x00, 0x15, 0xad]"
  by code_simp

section \<open>HMAC\<close>

definition HMAC_SHA256 :: "8 word list \<Rightarrow> 8 word list \<Rightarrow> 8 word list" where
  "HMAC_SHA256 key msg =
    (let k0 = (if length key \<le> 64 then key @ replicate (64 - length key) 0 else SHA256 key @ replicate 32 0);
         inner = SHA256 (map (\<lambda>b. b XOR 0x36) k0 @ msg)
     in SHA256 (map (\<lambda>b. b XOR 0x5C) k0 @ inner))"

lemma length_HMAC_SHA256 [simp]: "length (HMAC_SHA256 key msg) = 32"
  by (simp add: HMAC_SHA256_def Let_def)

end
