(* ===== verification/Galois.thy ===== *)
theory Galois
  imports Prelude "HOL-Library.Word"
begin

text \<open>
  The arithmetic of \<open>src/trusted_core/src/dezhan-trusted_core-erasure.adb\<close>: bytes as the elements of the field with 256
  elements, with reduction polynomial \<open>0x11D\<close>.  \<open>Mul\<close>, \<open>Pow\<close> and \<open>Inv\<close> are the source's loops on machine bytes; the type
  \<open>gf\<close> carries them to an instance of the library's class of fields.
\<close>

unbundle bit_operations_syntax

section \<open>The loops of the source\<close>

text \<open>One step of \<open>X\<close> in the loop of \<open>Mul\<close>: a shift to the left with reduction.\<close>

definition xtime :: "8 word \<Rightarrow> 8 word" where
  "xtime x = (let x' = push_bit 1 x in if x AND 0x80 \<noteq> 0 then x' XOR 0x1D else x')"

fun mul_loop :: "nat \<Rightarrow> 8 word \<Rightarrow> 8 word \<Rightarrow> 8 word \<Rightarrow> 8 word" where
  "mul_loop 0 p x y = p"
| "mul_loop (Suc n) p x y = mul_loop n (if y AND 1 \<noteq> 0 then p XOR x else p) (xtime x) (drop_bit 1 y)"

definition Mul :: "8 word \<Rightarrow> 8 word \<Rightarrow> 8 word" where
  "Mul a b = mul_loop 8 0 a b"

function pow_loop :: "8 word \<Rightarrow> 8 word \<Rightarrow> nat \<Rightarrow> 8 word" where
  "pow_loop r base e = (if e = 0 then r else pow_loop (if e mod 2 = 1 then Mul r base else r) (Mul base base) (e div 2))"
  by auto
termination by (relation "measure (\<lambda>(r, base, e). e)") auto

declare pow_loop.simps [simp del]

definition Pow :: "8 word \<Rightarrow> nat \<Rightarrow> 8 word" where
  "Pow a n = pow_loop 1 a n"

definition Inv :: "8 word \<Rightarrow> 8 word" where
  "Inv a = (if a = 0 then 0 else Pow a 254)"

section \<open>Multiplication is bilinear\<close>

lemma high_bit: "x AND 0x80 \<noteq> 0 \<longleftrightarrow> bit (x :: 8 word) 7"
  using and_exp_eq_0_iff_not_bit [of x 7] by simp

lemma low_bit: "y AND 1 \<noteq> 0 \<longleftrightarrow> bit (y :: 8 word) 0"
  using and_exp_eq_0_iff_not_bit [of y 0] by simp

lemma xtime_bit: "xtime x = (if bit x 7 then push_bit 1 x XOR 0x1D else push_bit 1 x)"
  by (simp add: xtime_def high_bit Let_def)

lemma xtime_0 [simp]: "xtime 0 = 0"
  by (simp add: xtime_bit)

lemma xor_swap: "(a XOR b) XOR (c XOR d) = (a XOR c) XOR (b XOR (d :: 8 word))"
  by (simp add: ac_simps)

lemma xtime_xor: "xtime (x XOR y) = xtime x XOR xtime y"
proof -
  have "(a XOR c) XOR (b XOR c) = a XOR b" for a b c :: "8 word" by (simp add: xor_swap)
  then show ?thesis by (auto simp: xtime_bit bit_xor_iff push_bit_xor ac_simps)
qed

lemma mul_loop_acc: "mul_loop n p x y = p XOR mul_loop n 0 x y"
proof (induction n arbitrary: p x y)
  case (Suc n)
  show ?case using Suc [of "p XOR x"] Suc [of p] Suc [of x] by (simp add: ac_simps)
qed simp

lemma mul_loop_Suc: "mul_loop (Suc n) 0 x y = (if bit y 0 then x else 0) XOR mul_loop n 0 (xtime x) (drop_bit 1 y)"
  using mul_loop_acc [of n x] by (simp add: low_bit)

lemma mul_loop_left: "mul_loop n 0 (x XOR x') y = mul_loop n 0 x y XOR mul_loop n 0 x' y"
  by (induction n arbitrary: x x' y) (auto simp: mul_loop_Suc xtime_xor xor_swap simp del: mul_loop.simps(2))

lemma mul_loop_right: "mul_loop n 0 x (y XOR y') = mul_loop n 0 x y XOR mul_loop n 0 x y'"
  by (induction n arbitrary: x y y')
    (auto simp: mul_loop_Suc drop_bit_xor bit_xor_iff xor_swap simp del: mul_loop.simps(2))

lemma mul_loop_xtime: "mul_loop n 0 (xtime x) y = xtime (mul_loop n 0 x y)"
  by (induction n arbitrary: x y) (auto simp: mul_loop_Suc xtime_xor simp del: mul_loop.simps(2))

lemma Mul_left: "Mul (a XOR b) c = Mul a c XOR Mul b c"
  by (simp only: Mul_def mul_loop_left)

lemma Mul_right: "Mul a (b XOR c) = Mul a b XOR Mul a c"
  by (simp only: Mul_def mul_loop_right)

lemma Mul_xtime_left: "Mul (xtime a) b = xtime (Mul a b)"
  by (simp only: Mul_def mul_loop_xtime)

text \<open>A map that respects exclusive or is known from its values on single bits.\<close>

definition additive :: "(8 word \<Rightarrow> 8 word) \<Rightarrow> bool" where
  "additive f \<longleftrightarrow> (\<forall>a b. f (a XOR b) = f a XOR f b)"

lemma additive_0: "additive f \<Longrightarrow> f 0 = 0"
  unfolding additive_def by (metis xor_self_eq)

abbreviation bit_part :: "8 word \<Rightarrow> nat \<Rightarrow> 8 word" where
  "bit_part a k \<equiv> (if bit a k then 2 ^ k else 0)"

lemma byte_bits:
  "bit_part a 0 XOR (bit_part a 1 XOR (bit_part a 2 XOR (bit_part a 3 XOR (bit_part a 4 XOR (bit_part a 5 XOR
     (bit_part a 6 XOR bit_part a 7)))))) = a"
proof (rule bit_word_eqI)
  fix n
  assume "n < LENGTH(8)"
  then have n: "n \<in> {0, 1, 2, 3, 4, 5, 6, 7}" by auto
  have b: "bit (bit_part a k) n \<longleftrightarrow> bit a k \<and> n = k \<and> k < 8" for k by (auto simp: bit_exp_iff)
  show "bit (bit_part a 0 XOR (bit_part a 1 XOR (bit_part a 2 XOR (bit_part a 3 XOR (bit_part a 4 XOR (bit_part a 5 XOR
     (bit_part a 6 XOR bit_part a 7))))))) n = bit a n"
    unfolding bit_xor_iff b using n by (elim insertE emptyE) simp_all
qed

lemma additive_eq:
  assumes "additive f" and "additive g" and "\<And>k. k < 8 \<Longrightarrow> f (2 ^ k) = g (2 ^ k)"
  shows "f a = g a"
proof -
  have "f (bit_part a k) = g (bit_part a k)" if "k < 8" for k
    using that assms(3) additive_0 [OF assms(1)] additive_0 [OF assms(2)] by simp
  then have "f (bit_part a 0 XOR (bit_part a 1 XOR (bit_part a 2 XOR (bit_part a 3 XOR (bit_part a 4 XOR (bit_part a 5 XOR
     (bit_part a 6 XOR bit_part a 7))))))) = g (bit_part a 0 XOR (bit_part a 1 XOR (bit_part a 2 XOR (bit_part a 3 XOR (bit_part a 4 XOR
     (bit_part a 5 XOR (bit_part a 6 XOR bit_part a 7)))))))"
    using assms(1,2) unfolding additive_def by (simp only:)
  then show ?thesis by (simp only: byte_bits)
qed

section \<open>The ring laws\<close>

lemma additive_rules [simp, intro]:
  "additive (Mul a)" "additive (\<lambda>a. Mul a b)" "additive xtime" "additive (\<lambda>x. x)"
  by (simp_all add: additive_def Mul_left Mul_right xtime_xor)

lemma additive_comp: "additive f \<Longrightarrow> additive g \<Longrightarrow> additive (\<lambda>x. f (g x))"
  by (simp add: additive_def)

lemma additive_funpow: "additive f \<Longrightarrow> additive (f ^^ n)"
  by (induction n) (simp_all add: additive_def)

lemma Mul_0 [simp]: "Mul 0 a = 0" "Mul a 0 = 0"
  using additive_0 [of "\<lambda>b. Mul b a"] additive_0 [of "Mul a"] by simp_all

lemma xtime_pow: "k < 7 \<Longrightarrow> xtime (2 ^ k) = 2 ^ Suc k"
  by (auto simp: xtime_bit bit_exp_iff push_bit_eq_mult)

lemma funpow_xtime_1: "k < 8 \<Longrightarrow> (xtime ^^ k) 1 = 2 ^ k"
  by (induction k) (simp_all add: xtime_pow)

lemma mul_loop_bit: "k < n \<Longrightarrow> n \<le> 8 \<Longrightarrow> mul_loop n 0 x (2 ^ k) = (xtime ^^ k) x"
proof (induction k arbitrary: n x)
  case 0
  have "mul_loop m 0 y 0 = 0" for m y by (induction m arbitrary: y) simp_all
  with 0 show ?case by (cases n) (auto simp: mul_loop_Suc drop_bit_Suc bit_0 simp del: mul_loop.simps(2))
next
  case (Suc k)
  then obtain m where m: "n = Suc m" by (cases n) auto
  have "drop_bit 1 (2 ^ Suc k :: 8 word) = 2 ^ k"
    by (rule bit_word_eqI) (use Suc.prems in \<open>auto simp: bit_drop_bit_eq bit_exp_iff simp del: power_Suc\<close>)
  with Suc m show ?case by (simp add: mul_loop_Suc bit_exp_iff funpow_swap1 del: mul_loop.simps(2) power_Suc)
qed

lemma Mul_bit: "k < 8 \<Longrightarrow> Mul x (2 ^ k) = (xtime ^^ k) x"
  by (simp add: Mul_def mul_loop_bit)

lemma Mul_1 [simp]: "Mul a 1 = a"
  using Mul_bit [of 0 a] by simp

text \<open>The eighth power of the generator is the reduction polynomial.\<close>

lemma xtime_8: "(xtime ^^ 8) a = Mul a 0x1D"
proof (rule additive_eq [of "xtime ^^ 8" "\<lambda>a. Mul a 0x1D"])
  fix k :: nat
  assume "k < 8"
  then have "k \<in> {0, 1, 2, 3, 4, 5, 6, 7}" by auto
  then show "(xtime ^^ 8) (2 ^ k) = Mul (2 ^ k) 0x1D" by (elim insertE emptyE; hypsubst; code_simp)
qed (simp_all add: additive_funpow)

lemma Mul_xtime_right: "Mul a (xtime b) = xtime (Mul a b)"
proof (rule additive_eq [of "\<lambda>b. Mul a (xtime b)" "\<lambda>b. xtime (Mul a b)"])
  fix k :: nat
  assume k: "k < 8"
  show "Mul a (xtime (2 ^ k)) = xtime (Mul a (2 ^ k))"
  proof (cases "k = 7")
    case True
    have "xtime (2 ^ 7) = 0x1D" by code_simp
    then show ?thesis using True xtime_8 [of a] Mul_bit [of 7 a] by (simp add: numeral_eq_Suc)
  next
    case False
    with k show ?thesis using Mul_bit [of "Suc k" a] Mul_bit [of k a] by (simp add: xtime_pow del: power_Suc)
  qed
qed (simp_all add: additive_comp)

lemma Mul_funpow_right: "Mul a ((xtime ^^ n) b) = (xtime ^^ n) (Mul a b)"
  by (induction n) (simp_all add: Mul_xtime_right)

lemma Mul_funpow_left: "Mul ((xtime ^^ n) a) b = (xtime ^^ n) (Mul a b)"
  by (induction n) (simp_all add: Mul_xtime_left)

lemma Mul_1_left [simp]: "Mul 1 a = a"
proof (rule additive_eq [of "Mul 1" "\<lambda>a. a"])
  fix k :: nat
  assume "k < 8"
  then show "Mul 1 (2 ^ k) = 2 ^ k" by (simp add: Mul_bit funpow_xtime_1)
qed simp_all

lemma Mul_commute: "Mul a b = Mul b a"
proof (rule additive_eq [of "\<lambda>a. Mul a b" "Mul b"])
  fix k :: nat
  assume "k < 8"
  then show "Mul (2 ^ k) b = Mul b (2 ^ k)"
    using Mul_funpow_left [of k 1 b] Mul_funpow_right [of b k 1] by (simp add: funpow_xtime_1)
qed simp_all

lemma Mul_assoc: "Mul (Mul a b) c = Mul a (Mul b c)"
proof (rule additive_eq [of "Mul (Mul a b)" "\<lambda>c. Mul a (Mul b c)"])
  fix k :: nat
  assume "k < 8"
  then show "Mul (Mul a b) (2 ^ k) = Mul a (Mul b (2 ^ k))" by (simp add: Mul_bit Mul_funpow_right)
qed (simp_all add: additive_comp)

datatype gf = GF (sym: "8 word")

lemma gf_eq_iff: "a = b \<longleftrightarrow> sym a = sym b"
  by (cases a, cases b) simp

instantiation gf :: comm_ring_1
begin

definition zero_gf :: gf where "0 = GF 0"

definition one_gf :: gf where "1 = GF 1"

definition plus_gf :: "gf \<Rightarrow> gf \<Rightarrow> gf" where "a + b = GF (sym a XOR sym b)"

definition uminus_gf :: "gf \<Rightarrow> gf" where "- a = (a :: gf)"

definition minus_gf :: "gf \<Rightarrow> gf \<Rightarrow> gf" where "a - b = GF (sym a XOR sym b)"

definition times_gf :: "gf \<Rightarrow> gf \<Rightarrow> gf" where "a * b = GF (Mul (sym a) (sym b))"

instance
  by standard (simp_all add: gf_eq_iff zero_gf_def one_gf_def plus_gf_def uminus_gf_def minus_gf_def times_gf_def Mul_assoc
      Mul_left ac_simps, rule Mul_commute)

end

section \<open>Every byte but zero is a power of two\<close>

lemma GF_2_power: "GF 2 ^ n = GF ((xtime ^^ n) 1)"
proof (induction n)
  case (Suc n)
  have "Mul 2 x = xtime x" for x using Mul_bit [of 1 x] by (simp add: Mul_commute)
  with Suc show ?case by (simp add: times_gf_def)
qed (simp add: one_gf_def)

fun avoids :: "nat \<Rightarrow> 8 word \<Rightarrow> bool" where
  "avoids 0 x \<longleftrightarrow> True"
| "avoids (Suc n) x \<longleftrightarrow> x \<noteq> 1 \<and> avoids n (xtime x)"

lemma avoids_funpow: "avoids n x \<Longrightarrow> i < n \<Longrightarrow> (xtime ^^ i) x \<noteq> 1"
proof (induction n arbitrary: x i)
  case (Suc n)
  then show ?case by (cases i) (auto simp: funpow_swap1)
qed simp

fun iter :: "nat \<Rightarrow> 8 word \<Rightarrow> 8 word" where
  "iter 0 x = x"
| "iter (Suc n) x = iter n (xtime x)"

lemma iter_funpow: "iter n x = (xtime ^^ n) x"
  by (induction n arbitrary: x) (simp_all add: funpow_swap1)

lemma order_2: "avoids 254 (xtime 1)" "iter 255 1 = 1"
  by code_simp+

lemma GF_2_255: "GF 2 ^ 255 = 1"
  using order_2(2) by (simp only: GF_2_power iter_funpow one_gf_def)

lemma GF_2_order: "0 < d \<Longrightarrow> d < 255 \<Longrightarrow> GF 2 ^ d \<noteq> 1"
  using avoids_funpow [OF order_2(1), of "d - 1"] funpow_swap1 [of xtime "d - 1" 1]
  by (cases d) (auto simp add: GF_2_power one_gf_def simp del: power_Suc)

lemma GF_2_inj: "inj_on (\<lambda>i. GF 2 ^ i) {..<255}"
proof (rule linorder_inj_onI)
  fix i j :: nat
  assume ij: "i < j" "j \<in> {..<255}"
  show "GF 2 ^ i \<noteq> GF 2 ^ j"
  proof
    assume e: "GF 2 ^ i = GF 2 ^ j"
    have "GF 2 ^ (j - i) = GF 2 ^ (j - i) * GF 2 ^ (i + (255 - i))" using ij GF_2_255 by simp
    also have "\<dots> = GF 2 ^ j * GF 2 ^ (255 - i)" using ij by (simp only: power_add [symmetric]) simp
    also have "\<dots> = GF 2 ^ (i + (255 - i))" by (simp only: e [symmetric] power_add)
    also have "\<dots> = 1" using ij GF_2_255 by simp
    finally show False using GF_2_order [of "j - i"] ij by (simp add: less_imp_diff_less)
  qed
qed auto

lemma UNIV_gf: "(UNIV :: gf set) = range GF"
  by (metis gf.exhaust_sel surj_def)

lemma powers_of_2: "(\<lambda>i. GF 2 ^ i) ` {..<255} = UNIV - {0}"
proof (rule card_subset_eq)
  have c: "card (UNIV :: gf set) = 256" "finite (UNIV :: gf set)"
    unfolding UNIV_gf by (simp_all add: card_image inj_on_def card_word)
  then show "finite (UNIV - {0 :: gf})" by simp
  have "GF 2 ^ i \<noteq> 0" for i
  proof
    assume "GF 2 ^ i = 0"
    then have "(GF 2 ^ i) ^ 255 = 0" by simp
    moreover have "(GF 2 ^ i) ^ 255 = 1" using GF_2_255 by (simp only: power_mult [symmetric] mult.commute [of i] power_mult [of _ 255]) simp
    ultimately show False by (simp add: zero_gf_def one_gf_def)
  qed
  then show "(\<lambda>i. GF 2 ^ i) ` {..<255} \<subseteq> UNIV - {0}" by auto
  show "card ((\<lambda>i. GF 2 ^ i) ` {..<255}) = card (UNIV - {0 :: gf})"
    using c by (simp add: card_image GF_2_inj card_Diff_singleton)
qed

lemma gf_power_255: "a \<noteq> 0 \<Longrightarrow> a ^ 255 = (1 :: gf)"
proof -
  assume "a \<noteq> 0"
  then obtain i where "a = GF 2 ^ i" using powers_of_2 by (metis DiffI UNIV_I imageE singletonD)
  then have "a ^ 255 = (GF 2 ^ 255) ^ i" by (simp only: power_mult [symmetric] mult.commute)
  then show "a ^ 255 = 1" by (simp add: GF_2_255)
qed

lemma pow_loop_power: "GF (pow_loop r b n) = GF r * GF b ^ n"
proof (induction r b n rule: pow_loop.induct)
  case (1 r b n)
  show ?case
  proof (cases "n = 0")
    case False
    have "GF b ^ n = GF b ^ (2 * (n div 2) + n mod 2)" by simp
    also have "\<dots> = (GF b * GF b) ^ (n div 2) * GF b ^ (n mod 2)" by (simp only: power_add power_mult power2_eq_square)
    finally have p: "GF b ^ n = (GF b * GF b) ^ (n div 2) * (if n mod 2 = 1 then GF b else 1)" by (auto simp: mod2_eq_if)
    have "GF (pow_loop r b n) = GF (if n mod 2 = 1 then Mul r b else r) * GF (Mul b b) ^ (n div 2)"
      using 1 False by (subst pow_loop.simps) simp
    also have "\<dots> = GF r * (if n mod 2 = 1 then GF b else 1) * (GF b * GF b) ^ (n div 2)" by (simp add: times_gf_def one_gf_def)
    finally show ?thesis using p by (simp add: ac_simps)
  qed (subst pow_loop.simps, simp)
qed

lemma Pow_power: "GF (Pow a n) = GF a ^ n"
  by (simp add: Pow_def pow_loop_power one_gf_def [symmetric])

instantiation gf :: field
begin

definition inverse_gf :: "gf \<Rightarrow> gf" where "inverse a = GF (Inv (sym a))"

definition divide_gf :: "gf \<Rightarrow> gf \<Rightarrow> gf" where "divide a b = a * inverse (b :: gf)"

instance
proof
  fix a :: gf
  assume "a \<noteq> 0"
  then have "inverse a = a ^ 254"
    by (simp add: inverse_gf_def Inv_def Pow_power zero_gf_def gf_eq_iff)
  moreover have "a ^ 254 * a = a ^ 255" by (simp add: power_add [symmetric] flip: power_Suc2)
  ultimately show "inverse a * a = 1" using gf_power_255 [OF \<open>a \<noteq> 0\<close>] by simp
qed (simp_all add: inverse_gf_def divide_gf_def zero_gf_def Inv_def)

end

lemma gf_plus_minus: "a + b = (a - b :: gf)"
  by (simp add: plus_gf_def minus_gf_def)

end
