(* ===== verification/Erasure.thy ===== *)
theory Erasure
  imports Galois
begin

text \<open>
  The erasure code of \<open>src/trusted_core/src/dezhan-trusted_core-erasure.adb\<close>: \<open>Encode\<close>, \<open>Invert\<close>, \<open>Reconstruct\<close>.  Blocks and
  matrices are functions of row and column, counted from one as in the source; their cells are elements of the field
  \<open>gf\<close>, whose sum is the source's \<open>xor\<close>, whose product is \<open>Mul\<close> and whose inverse is \<open>Inv\<close>.  Any \<open>K\<close> of the \<open>K + M\<close> shards
  determine the data: the coding matrix is the identity over a Cauchy matrix, and every square choice of its rows is regular.
\<close>

section \<open>Definitions\<close>

type_synonym block = "nat \<Rightarrow> nat \<Rightarrow> gf"

definition Max_Data :: nat where "Max_Data = 8"

definition Max_Parity :: nat where "Max_Parity = 8"

definition X_Point :: "nat \<Rightarrow> gf" where
  "X_Point i = GF (of_nat (Max_Data + i - 1))"

definition Y_Point :: "nat \<Rightarrow> gf" where
  "Y_Point j = GF (of_nat (j - 1))"

definition Coeff :: "nat \<Rightarrow> nat \<Rightarrow> gf" where
  "Coeff i j = inverse (X_Point i + Y_Point j)"

text \<open>The accumulator loop that occurs in encoding and in reconstruction.\<close>

definition accumulate :: "nat \<Rightarrow> (nat \<Rightarrow> gf) \<Rightarrow> (nat \<Rightarrow> gf) \<Rightarrow> gf" where
  "accumulate K c d = foldl (\<lambda>acc j. acc + c j * d j) 0 [1..<Suc K]"

definition Encode :: "nat \<Rightarrow> nat \<Rightarrow> nat \<Rightarrow> block \<Rightarrow> block" where
  "Encode K M L data = (\<lambda>i b. if i \<in> {1..M} \<and> b \<in> {1..L} then accumulate K (Coeff i) (\<lambda>j. data j b) else 0)"

text \<open>
  The steps of the Gauss-Jordan inversion.  Each inner loop writes cells that no later iteration of it reads, so it is
  one update of the matrix; the factor of a row is read before the row changes.
\<close>

definition find_pivot :: "nat \<Rightarrow> block \<Rightarrow> nat \<Rightarrow> nat" where
  "find_pivot K mtx col = foldl (\<lambda>piv r. if piv = 0 \<and> mtx r col \<noteq> 0 then r else piv) 0 [col..<Suc K]"

definition swap_rows :: "nat \<Rightarrow> nat \<Rightarrow> nat \<Rightarrow> block \<Rightarrow> block" where
  "swap_rows K col piv m = (\<lambda>r j. if j \<in> {1..K} then (if r = col then m piv j else if r = piv then m col j else m r j) else m r j)"

definition scale_row :: "nat \<Rightarrow> nat \<Rightarrow> gf \<Rightarrow> block \<Rightarrow> block" where
  "scale_row K col p m = (\<lambda>r j. if r = col \<and> j \<in> {1..K} then m r j * p else m r j)"

definition eliminate :: "nat \<Rightarrow> nat \<Rightarrow> (nat \<Rightarrow> gf) \<Rightarrow> block \<Rightarrow> block" where
  "eliminate K col factor m = (\<lambda>r j. if r \<in> {1..K} \<and> r \<noteq> col \<and> j \<in> {1..K} then m r j + factor r * m col j else m r j)"

fun invert_loop :: "nat \<Rightarrow> nat list \<Rightarrow> block \<Rightarrow> block \<Rightarrow> block \<times> bool" where
  "invert_loop K [] mtx idn = (idn, True)"
| "invert_loop K (col # cols) mtx idn =
    (let piv = find_pivot K mtx col in
     if piv = 0 then (\<lambda>_ _. 0, False)
     else
      (let mtx = (if piv \<noteq> col then swap_rows K col piv mtx else mtx);
           idn = (if piv \<noteq> col then swap_rows K col piv idn else idn);
           inv_p = inverse (mtx col col);
           mtx = scale_row K col inv_p mtx;
           idn = scale_row K col inv_p idn;
           factor = (\<lambda>r. mtx r col)
       in invert_loop K cols (eliminate K col factor mtx) (eliminate K col factor idn)))"

definition Invert :: "nat \<Rightarrow> block \<Rightarrow> block \<times> bool" where
  "Invert K a = invert_loop K [1..<Suc K] a (\<lambda>i j. if i \<in> {1..K} \<and> i = j then 1 else 0)"

definition Reconstruct :: "nat \<Rightarrow> nat \<Rightarrow> nat \<Rightarrow> (nat \<Rightarrow> bool) \<Rightarrow> block \<Rightarrow> block \<times> bool" where
  "Reconstruct K M L present shards =
    (let sel = take K (filter present [1..<Suc (K + M)]) in
     if length sel < K then (\<lambda>_ _. 0, False)
     else
      (let a = (\<lambda>t j. if t \<in> {1..K} \<and> j \<in> {1..K}
                 then (let r = sel ! (t - 1) in if r \<le> K then (if r = j then 1 else 0) else Coeff (r - K) j) else 0);
           (a_inv, ok) = Invert K a
       in if \<not> ok then (\<lambda>_ _. 0, False)
          else (\<lambda>j b. if j \<in> {1..K} \<and> b \<in> {1..L} then accumulate K (a_inv j) (\<lambda>t. shards (sel ! (t - 1)) b) else 0, True)))"

section \<open>Cauchy matrices\<close>

text \<open>
  A Cauchy matrix has no kernel.  Multiplying row \<open>i\<close> by \<open>x i - y c\<close> for a column \<open>c\<close> and subtracting row \<open>a\<close>, treated
  likewise, leaves the equations of the matrix without row \<open>a\<close> and column \<open>c\<close>.
\<close>

lemma cauchy_kernel:
  fixes x y :: "'i \<Rightarrow> 'a::field"
  assumes "finite J" and "card I = card J" and "finite I" and "inj_on x I" and "inj_on y J"
    and "\<And>i j. i \<in> I \<Longrightarrow> j \<in> J \<Longrightarrow> x i \<noteq> y j" and "\<And>i. i \<in> I \<Longrightarrow> (\<Sum>j\<in>J. d j / (x i - y j)) = 0"
  shows "\<forall>j\<in>J. d j = 0"
  using assms
proof (induction J arbitrary: I d rule: finite_induct)
  case (insert c J)
  then obtain a where a: "a \<in> I" by (metis card.empty card_insert_disjoint empty_iff equals0I old.nat.distinct(2))
  let ?I = "I - {a}" and ?e = "\<lambda>j. d j * (y j - y c) / (x a - y j)"
  have shifted: "(\<Sum>j\<in>J. d j * (y j - y c) / (x i - y j)) = - (\<Sum>j\<in>insert c J. d j)" if i: "i \<in> I" for i
  proof -
    have n: "x i - y j \<noteq> 0" if "j \<in> insert c J" for j using insert.prems(5) [OF i that] by simp
    have "0 = (x i - y c) * (\<Sum>j\<in>insert c J. d j / (x i - y j))" using insert.prems(6) [OF i] by simp
    also have "\<dots> = (\<Sum>j\<in>insert c J. d j + d j * (y j - y c) / (x i - y j))"
      unfolding sum_distrib_left by (rule sum.cong) (use n in \<open>auto simp: field_simps\<close>)
    also have "\<dots> = (\<Sum>j\<in>insert c J. d j) + (\<Sum>j\<in>J. d j * (y j - y c) / (x i - y j))"
      using insert.hyps by (simp add: sum.distrib)
    finally show ?thesis by (simp add: eq_neg_iff_add_eq_0 add.commute)
  qed
  have "\<forall>j\<in>J. ?e j = 0"
  proof (rule insert.IH [of ?I])
    fix i
    assume i: "i \<in> ?I"
    have ne: "x i - x a \<noteq> 0" using insert.prems(3) i a by (auto dest: inj_onD)
    have "(\<Sum>j\<in>J. d j * (y j - y c) / (x i - y j)) - (\<Sum>j\<in>J. d j * (y j - y c) / (x a - y j)) = 0"
      using shifted [of i] shifted [OF a] i by simp
    then have "0 = (\<Sum>j\<in>J. d j * (y j - y c) / (x i - y j) - d j * (y j - y c) / (x a - y j))" by (simp add: sum_subtractf)
    also have "\<dots> = (\<Sum>j\<in>J. (x a - x i) * (?e j / (x i - y j)))"
    proof (rule sum.cong)
      fix j
      assume "j \<in> J"
      then have "x i - y j \<noteq> 0" "x a - y j \<noteq> 0" using insert.prems(5) i a by auto
      then show "d j * (y j - y c) / (x i - y j) - d j * (y j - y c) / (x a - y j) = (x a - x i) * (?e j / (x i - y j))"
        by (simp add: field_simps)
    qed simp
    finally have "(x a - x i) * (\<Sum>j\<in>J. ?e j / (x i - y j)) = 0" by (simp add: sum_distrib_left)
    then show "(\<Sum>j\<in>J. ?e j / (x i - y j)) = 0" using ne by simp
  qed (use insert a in \<open>auto simp: inj_on_def\<close>)
  moreover have "y j - y c \<noteq> 0" "x a - y j \<noteq> 0" if "j \<in> J" for j
    using that insert.prems(5) [OF a, of j] insert.hyps(2) inj_onD [OF insert.prems(4), of j c] by auto
  ultimately have J: "d j = 0" if "j \<in> J" for j using that by fastforce
  then have "d c / (x a - y c) = 0" using insert.prems(6) [OF a] insert.hyps by simp
  moreover have "x a - y c \<noteq> 0" using insert.prems(5) [OF a] by simp
  ultimately show ?case using J by simp
qed simp

text \<open>The points of the code are distinct.\<close>

lemma of_nat_byte_eq: "m < 256 \<Longrightarrow> n < 256 \<Longrightarrow> (of_nat m :: 8 word) = of_nat n \<longleftrightarrow> m = n"
  by (simp add: word_of_nat_eq_iff take_bit_nat_eq_self)

lemma points:
  "inj_on X_Point {1..8}" "inj_on Y_Point {1..8}" "i \<in> {1..8} \<Longrightarrow> j \<in> {1..8} \<Longrightarrow> X_Point i \<noteq> Y_Point j"
  by (auto simp: inj_on_def X_Point_def Y_Point_def Max_Data_def of_nat_byte_eq
      simp del: of_nat_add of_nat_diff of_nat_Suc)

lemma Coeff_eq: "c * Coeff i j = c / (X_Point i - Y_Point j)" "Coeff i j * c = c / (X_Point i - Y_Point j)"
  by (simp_all add: Coeff_def gf_plus_minus divide_inverse mult.commute)

section \<open>The value of a row\<close>

definition rowval :: "nat \<Rightarrow> block \<Rightarrow> (nat \<Rightarrow> gf) \<Rightarrow> nat \<Rightarrow> gf" where
  "rowval K m d r = (\<Sum>j=1..K. m r j * d j)"

lemma accumulate_sum: "accumulate K c d = (\<Sum>j=1..K. c j * d j)"
  unfolding accumulate_def by (induction K) simp_all

lemma accumulate_rowval: "accumulate K (m r) d = rowval K m d r"
  by (simp add: accumulate_sum rowval_def)

lemma rowval_unit: "r \<in> {1..K} \<Longrightarrow> (\<And>j. j \<in> {1..K} \<Longrightarrow> m r j = (if r = j then 1 else 0)) \<Longrightarrow> rowval K m d r = d r"
proof -
  assume r: "r \<in> {1..K}" and m: "\<And>j. j \<in> {1..K} \<Longrightarrow> m r j = (if r = j then 1 else 0)"
  have "rowval K m d r = (\<Sum>j=1..K. if r = j then d j else 0)" unfolding rowval_def by (rule sum.cong) (simp_all add: m)
  also have "\<dots> = d r" using r by (simp add: sum.delta)
  finally show ?thesis .
qed

lemma rowval_swap: "rowval K (swap_rows K col piv m) d r = rowval K m d (if r = col then piv else if r = piv then col else r)"
  by (auto simp: rowval_def swap_rows_def intro!: sum.cong)

lemma rowval_scale: "rowval K (scale_row K col p m) d r = (if r = col then p else 1) * rowval K m d r"
  by (auto simp: rowval_def scale_row_def sum_distrib_left ac_simps intro!: sum.cong)

lemma rowval_eliminate:
  "rowval K (eliminate K col f m) d r = rowval K m d r + (if r \<in> {1..K} \<and> r \<noteq> col then f r else 0) * rowval K m d col"
  by (auto simp: rowval_def eliminate_def sum_distrib_left sum.distrib [symmetric] algebra_simps intro!: sum.cong)

section \<open>Gauss-Jordan inversion\<close>

text \<open>
  The invariant of the loop when the columns before \<open>col\<close> are done: the second matrix turns the values of the original
  rows into those of the first, no vector is lost, and the columns done are unit columns.
\<close>

definition inverting :: "nat \<Rightarrow> block \<Rightarrow> nat \<Rightarrow> block \<Rightarrow> block \<Rightarrow> bool" where
  "inverting K a col mtx idn \<longleftrightarrow>
     (\<forall>d. \<forall>r\<in>{1..K}. rowval K idn (rowval K a d) r = rowval K mtx d r) \<and>
     (\<forall>d. (\<forall>r\<in>{1..K}. rowval K mtx d r = 0) \<longrightarrow> (\<forall>r\<in>{1..K}. rowval K a d r = 0)) \<and>
     (\<forall>r\<in>{1..K}. \<forall>j\<in>{1..<col}. mtx r j = (if r = j then 1 else 0))"

definition regular :: "nat \<Rightarrow> block \<Rightarrow> bool" where
  "regular K a \<longleftrightarrow> (\<forall>d. (\<forall>r\<in>{1..K}. rowval K a d r = 0) \<longrightarrow> (\<forall>j\<in>{1..K}. d j = 0))"

lemma find_pivot_result:
  "find_pivot K mtx col = 0 \<longrightarrow> (\<forall>r\<in>{col..K}. r > 0 \<longrightarrow> mtx r col = 0)"
  "find_pivot K mtx col \<noteq> 0 \<longrightarrow> find_pivot K mtx col \<in> {col..K} \<and> mtx (find_pivot K mtx col) col \<noteq> 0"
proof -
  have "(foldl (\<lambda>piv r. if piv = 0 \<and> mtx r col \<noteq> 0 then r else piv) 0 rs = 0 \<longrightarrow> (\<forall>r\<in>set rs. r > 0 \<longrightarrow> mtx r col = 0)) \<and>
    (foldl (\<lambda>piv r. if piv = 0 \<and> mtx r col \<noteq> 0 then r else piv) 0 rs \<noteq> 0 \<longrightarrow>
      foldl (\<lambda>piv r. if piv = 0 \<and> mtx r col \<noteq> 0 then r else piv) 0 rs \<in> set rs \<and>
      mtx (foldl (\<lambda>piv r. if piv = 0 \<and> mtx r col \<noteq> 0 then r else piv) 0 rs) col \<noteq> 0)" for rs :: "nat list"
    by (induction rs rule: rev_induct) auto
  from this [of "[col..<Suc K]"] show "find_pivot K mtx col = 0 \<longrightarrow> (\<forall>r\<in>{col..K}. r > 0 \<longrightarrow> mtx r col = 0)"
    "find_pivot K mtx col \<noteq> 0 \<longrightarrow> find_pivot K mtx col \<in> {col..K} \<and> mtx (find_pivot K mtx col) col \<noteq> 0"
    by (auto simp: find_pivot_def simp del: upt_Suc)
qed

text \<open>A column without a pivot gives a vector that the matrix loses.\<close>

lemma pivot_exists:
  assumes "inverting K a col mtx idn" and "regular K a" and "col \<in> {1..K}"
  shows "find_pivot K mtx col \<noteq> 0"
proof
  assume no: "find_pivot K mtx col = 0"
  let ?d = "\<lambda>j. if j = col then 1 else if j < col then - mtx j col else 0"
  have "rowval K mtx ?d r = 0" if r: "r \<in> {1..K}" for r
  proof -
    have "rowval K mtx ?d r = (\<Sum>j\<in>{1..K}. (if j = col then mtx r col else 0) + (if j = r \<and> r < col then - mtx r col else 0))"
      unfolding rowval_def
    proof (rule sum.cong)
      fix j
      assume j: "j \<in> {1..K}"
      show "mtx r j * ?d j = (if j = col then mtx r col else 0) + (if j = r \<and> r < col then - mtx r col else 0)"
        using assms(1) r j by (auto simp: inverting_def)
    qed simp
    also have "\<dots> = mtx r col + (if r < col then - mtx r col else 0)" using assms(3) r by (simp add: sum.distrib sum.delta')
    also have "\<dots> = 0" using find_pivot_result(1) [of K mtx col] no r by auto
    finally show ?thesis .
  qed
  then have "\<forall>r\<in>{1..K}. rowval K a ?d r = 0" using assms(1) by (simp add: inverting_def)
  then have "?d col = 0" using assms(2,3) unfolding regular_def by blast
  then show False by simp
qed

lemma swap_inverting:
  assumes "inverting K a col mtx idn" and "col \<in> {1..K}" and "piv \<in> {col..K}"
  shows "inverting K a col (swap_rows K col piv mtx) (swap_rows K col piv idn)"
proof -
  let ?s = "\<lambda>r. if r = col then piv else if r = piv then col else r"
  have s: "?s r \<in> {1..K}" "?s (?s r) = r" if "r \<in> {1..K}" for r using that assms(2,3) by auto
  have "rowval K mtx d r = 0" if "\<forall>r\<in>{1..K}. rowval K mtx d (?s r) = 0" "r \<in> {1..K}" for d r
    using bspec [OF that(1) s(1) [OF that(2)]] by (simp only: s(2) [OF that(2)])
  moreover have "swap_rows K col piv mtx r j = (if r = j then 1 else 0)" if "r \<in> {1..K}" "j \<in> {1..<col}" for r j
    using that assms by (auto simp: swap_rows_def inverting_def)
  moreover have "rowval K idn (rowval K a d) (?s r) = rowval K mtx d (?s r)" if "r \<in> {1..K}" for d r
    using assms(1) s(1) [OF that] unfolding inverting_def by blast
  ultimately show ?thesis using assms(1) unfolding inverting_def rowval_swap by blast
qed

lemma scale_inverting:
  assumes "inverting K a col mtx idn" and "col \<in> {1..K}" and "p \<noteq> 0"
  shows "inverting K a col (scale_row K col p mtx) (scale_row K col p idn)"
proof -
  have "rowval K mtx d r = 0" if "\<forall>r\<in>{1..K}. (if r = col then p else 1) * rowval K mtx d r = 0" "r \<in> {1..K}" for d r
    using that assms(3) by (metis mult_eq_0_iff one_neq_zero)
  moreover have "scale_row K col p mtx r j = (if r = j then 1 else 0)" if "r \<in> {1..K}" "j \<in> {1..<col}" for r j
    using that assms by (auto simp: scale_row_def inverting_def)
  moreover have "(if r = col then p else 1) * rowval K idn (rowval K a d) r = (if r = col then p else 1) * rowval K mtx d r"
    if "r \<in> {1..K}" for d r using assms(1) that unfolding inverting_def by simp
  ultimately show ?thesis using assms(1) unfolding inverting_def rowval_scale by blast
qed

lemma eliminate_inverting:
  assumes "inverting K a col mtx idn" and "col \<in> {1..K}" and "mtx col col = 1"
  shows "inverting K a (Suc col) (eliminate K col (\<lambda>r. mtx r col) mtx) (eliminate K col (\<lambda>r. mtx r col) idn)"
proof -
  let ?f = "\<lambda>r. if r \<in> {1..K} \<and> r \<noteq> col then mtx r col else 0"
  have "rowval K mtx d r = 0" if z: "\<forall>r\<in>{1..K}. rowval K mtx d r + ?f r * rowval K mtx d col = 0" and "r \<in> {1..K}" for d r
  proof -
    have "rowval K mtx d col = 0" using z assms(2) by fastforce
    then show ?thesis using z that(2) by fastforce
  qed
  moreover have "eliminate K col (\<lambda>r. mtx r col) mtx r j = (if r = j then 1 else 0)" if "r \<in> {1..K}" "j \<in> {1..<Suc col}" for r j
    using that assms by (cases "j = col") (auto simp: eliminate_def inverting_def gf_plus_minus)
  moreover have "rowval K idn (rowval K a d) r + ?f r * rowval K idn (rowval K a d) col = rowval K mtx d r + ?f r * rowval K mtx d col"
    if "r \<in> {1..K}" for d r using assms(1,2) that unfolding inverting_def by simp
  ultimately show ?thesis using assms(1,2) unfolding inverting_def rowval_eliminate by blast
qed

lemma invert_loop_regular:
  assumes "regular K a" and "inverting K a col mtx idn" and "1 \<le> col" and "col \<le> Suc K"
  shows "\<exists>m. invert_loop K [col..<Suc K] mtx idn = (m, True) \<and> (\<forall>d. \<forall>r\<in>{1..K}. rowval K m (rowval K a d) r = d r)"
  using assms
proof (induction "Suc K - col" arbitrary: col mtx idn)
  case 0
  then have col: "col = Suc K" by simp
  have "rowval K idn (rowval K a d) r = d r" if r: "r \<in> {1..K}" for d r
  proof -
    have "rowval K mtx d r = d r" by (rule rowval_unit [OF r]) (use 0 r col in \<open>auto simp: inverting_def\<close>)
    then show ?thesis using 0 r by (simp add: inverting_def)
  qed
  with col show ?case by simp
next
  case (Suc n)
  then have c: "col \<in> {1..K}" by auto
  define piv where "piv = find_pivot K mtx col"
  define m1 where "m1 = (if piv \<noteq> col then swap_rows K col piv mtx else mtx)"
  define i1 where "i1 = (if piv \<noteq> col then swap_rows K col piv idn else idn)"
  define m2 where "m2 = scale_row K col (inverse (m1 col col)) m1"
  define i2 where "i2 = scale_row K col (inverse (m1 col col)) i1"
  have piv: "piv \<noteq> 0" "piv \<in> {col..K}" "mtx piv col \<noteq> 0"
    using pivot_exists [OF Suc.prems(2,1) c] find_pivot_result(2) [of K mtx col] by (auto simp: piv_def)
  have inv1: "inverting K a col m1 i1" using swap_inverting [OF Suc.prems(2) c piv(2)] Suc.prems(2) by (simp add: m1_def i1_def)
  have p: "m1 col col \<noteq> 0" using piv(3) c by (auto simp: m1_def swap_rows_def)
  have "inverting K a col m2 i2" unfolding m2_def i2_def by (rule scale_inverting [OF inv1 c]) (simp add: p)
  moreover have "m2 col col = 1" using p c by (simp add: m2_def scale_row_def)
  ultimately have "inverting K a (Suc col) (eliminate K col (\<lambda>r. m2 r col) m2) (eliminate K col (\<lambda>r. m2 r col) i2)"
    by (rule eliminate_inverting [OF _ c])
  moreover have "[col..<Suc K] = col # [Suc col..<Suc K]" using c by (intro upt_conv_Cons) simp
  moreover have "n = Suc K - Suc col" using Suc.hyps(2) by simp
  ultimately show ?case
    using Suc.hyps(1) [of "Suc col"] Suc.prems(1) c piv(1) [unfolded piv_def] unfolding m2_def i2_def m1_def i1_def piv_def
    by (simp add: Let_def del: upt_Suc)
qed

lemma Invert_regular:
  assumes "regular K a"
  shows "\<exists>m. Invert K a = (m, True) \<and> (\<forall>d. \<forall>r\<in>{1..K}. rowval K m (rowval K a d) r = d r)"
proof -
  have "inverting K a 1 a (\<lambda>i j. if i \<in> {1..K} \<and> i = j then 1 else 0)"
    by (auto simp: inverting_def intro!: rowval_unit)
  from invert_loop_regular [OF assms this] show ?thesis by (simp add: Invert_def del: upt_Suc)
qed

section \<open>Choosing rows\<close>

definition coding_row :: "nat \<Rightarrow> nat \<Rightarrow> nat \<Rightarrow> gf" where
  "coding_row K r j = (if r \<le> K then (if r = j then 1 else 0) else Coeff (r - K) j)"

text \<open>Any \<open>K\<close> rows of the coding matrix determine a vector.\<close>

lemma coding_rows_kernel:
  assumes "K \<le> 8" and "M \<le> 8" and "S \<subseteq> {1..K + M}" and "card S = K" and "\<And>r. r \<in> S \<Longrightarrow> (\<Sum>j=1..K. coding_row K r j * d j) = 0"
  shows "\<forall>j\<in>{1..K}. d j = 0"
proof -
  let ?D = "S \<inter> {1..K}" and ?P = "S \<inter> {K<..K + M}"
  let ?J = "{1..K} - ?D" and ?I = "(\<lambda>r. r - K) ` ?P"
  have S: "S = ?D \<union> ?P" using assms(3) by auto
  have D: "d r = 0" if "r \<in> ?D" for r
  proof -
    have "(\<Sum>j=1..K. coding_row K r j * d j) = (\<Sum>j=1..K. if r = j then d j else 0)"
      by (rule sum.cong) (use that in \<open>auto simp: coding_row_def\<close>)
    then show ?thesis using assms(5) [of r] that by simp
  qed
  have fin: "finite S" using assms(3) finite_subset by blast
  have "card S = card ?D + card ?P" by (subst S) (rule card_Un_disjoint, use fin in auto)
  moreover have "card ?J = K - card ?D" by (simp add: card_Diff_subset)
  moreover have "card ?I = card ?P" by (rule card_image) (auto simp: inj_on_def)
  ultimately have cards: "card ?I = card ?J" using assms(4) by simp
  have J: "?J \<subseteq> {1..8}" and I: "?I \<subseteq> {1..8}" using assms(1,2) by auto
  have "\<forall>j\<in>?J. d j = 0"
  proof (rule cauchy_kernel [OF _ cards _ inj_on_subset [OF points(1) I] inj_on_subset [OF points(2) J]])
    show "X_Point i \<noteq> Y_Point j" if "i \<in> ?I" "j \<in> ?J" for i j using that I J points(3) by blast
  next
    fix i
    assume "i \<in> ?I"
    then obtain r where r: "r \<in> ?P" "i = r - K" by auto
    have "0 = (\<Sum>j=1..K. d j / (X_Point i - Y_Point j))"
      using assms(5) [of r] r by (simp add: coding_row_def Coeff_eq)
    also have "\<dots> = (\<Sum>j\<in>?J. d j / (X_Point i - Y_Point j))" by (rule sum.mono_neutral_right) (auto simp: D)
    finally show "(\<Sum>j\<in>?J. d j / (X_Point i - Y_Point j)) = 0" by simp
  qed (use fin in simp_all)
  with D show ?thesis by blast
qed

section \<open>Reconstruction\<close>

text \<open>The shards of a block of data: the data rows and the parity rows.\<close>

definition shard_of :: "nat \<Rightarrow> nat \<Rightarrow> nat \<Rightarrow> block \<Rightarrow> block" where
  "shard_of K M L data = (\<lambda>i b. if i \<le> K then data i b else Encode K M L data (i - K) b)"

lemma shard_of_row:
  assumes "r \<in> {1..K + M}" and "b \<in> {1..L}"
  shows "shard_of K M L data r b = (\<Sum>j=1..K. coding_row K r j * data j b)"
proof (cases "r \<le> K")
  case True
  have "(\<Sum>j=1..K. coding_row K r j * data j b) = (\<Sum>j=1..K. if r = j then data j b else 0)"
    by (rule sum.cong) (use True in \<open>auto simp: coding_row_def\<close>)
  then show ?thesis using True assms by (simp add: shard_of_def)
next
  case False
  then have "r - K \<in> {1..M}" using assms(1) by auto
  with False assms(2) show ?thesis by (simp add: shard_of_def Encode_def accumulate_sum coding_row_def)
qed

lemma length_present: "length (filter present [1..<Suc n]) = card {i\<in>{1..n}. present i}"
  by (subst distinct_card [symmetric]) (auto simp del: upt_Suc intro: arg_cong [of _ _ card])

lemma Reconstruct_enough:
  assumes "K \<le> 8" and "M \<le> 8" and "K \<le> card {i\<in>{1..K + M}. present i}"
    and "\<And>i b. i \<in> {1..K + M} \<Longrightarrow> present i \<Longrightarrow> b \<in> {1..L} \<Longrightarrow> shards i b = shard_of K M L data i b"
  shows "\<exists>out. Reconstruct K M L present shards = (out, True) \<and> (\<forall>j\<in>{1..K}. \<forall>b\<in>{1..L}. out j b = data j b)"
proof -
  define sel where "sel = take K (filter present [1..<Suc (K + M)])"
  define a where "a = (\<lambda>t j. if t \<in> {1..K} \<and> j \<in> {1..K} then coding_row K (sel ! (t - 1)) j else 0)"
  have len: "length sel = K" using assms(3) length_present [of present "K + M"] by (simp add: sel_def del: upt_Suc)
  have dist: "distinct sel" by (simp add: sel_def distinct_take del: upt_Suc)
  have sel: "set sel \<subseteq> {i\<in>{1..K + M}. present i}" unfolding sel_def using set_take_subset by fastforce
  have row: "sel ! (t - 1) \<in> {1..K + M}" "present (sel ! (t - 1))" if "t \<in> {1..K}" for t
  proof -
    have "t - 1 < length sel" using len that by auto
    from subsetD [OF sel nth_mem [OF this]] show "sel ! (t - 1) \<in> {1..K + M}" "present (sel ! (t - 1))" by auto
  qed
  have val: "rowval K a d t = (\<Sum>j=1..K. coding_row K (sel ! (t - 1)) j * d j)" if "t \<in> {1..K}" for d t
    unfolding rowval_def by (rule sum.cong) (use that in \<open>simp_all add: a_def\<close>)
  have "regular K a"
    unfolding regular_def
  proof (intro allI impI)
    fix d
    assume z: "\<forall>r\<in>{1..K}. rowval K a d r = 0"
    show "\<forall>j\<in>{1..K}. d j = 0"
    proof (rule coding_rows_kernel [OF assms(1,2)])
      show "set sel \<subseteq> {1..K + M}" "card (set sel) = K" using sel dist len by (auto simp: distinct_card)
      fix r
      assume "r \<in> set sel"
      then obtain t where "t < K" "r = sel ! t" using len by (auto simp: in_set_conv_nth)
      then show "(\<Sum>j=1..K. coding_row K r j * d j) = 0" using z val [of "Suc t" d] by simp
    qed
  qed
  then obtain m where m: "Invert K a = (m, True)" "\<And>d r. r \<in> {1..K} \<Longrightarrow> rowval K m (rowval K a d) r = d r"
    using Invert_regular by blast
  have out: "accumulate K (m j) (\<lambda>t. shards (sel ! (t - 1)) b) = data j b" if "j \<in> {1..K}" "b \<in> {1..L}" for j b
  proof -
    have "accumulate K (m j) (\<lambda>t. shards (sel ! (t - 1)) b) = accumulate K (m j) (rowval K a (\<lambda>j. data j b))"
      unfolding accumulate_sum
      by (rule sum.cong) (use assms(4) row val that(2) in \<open>simp_all add: shard_of_row\<close>)
    then show ?thesis using m(2) that(1) by (simp add: accumulate_rowval)
  qed
  have "Reconstruct K M L present shards =
      (\<lambda>j b. if j \<in> {1..K} \<and> b \<in> {1..L} then accumulate K (m j) (\<lambda>t. shards (sel ! (t - 1)) b) else 0, True)"
    using len m(1) unfolding Reconstruct_def Let_def sel_def [symmetric] a_def coding_row_def by simp
  with out show ?thesis by auto
qed

lemma Reconstruct_few: "card {i\<in>{1..K + M}. present i} < K \<Longrightarrow> Reconstruct K M L present shards = (\<lambda>_ _. 0, False)"
  using length_present [of present "K + M"] by (simp add: Reconstruct_def del: upt_Suc)

text \<open>
  C29: Any \<open>K\<close> shards give the data back.  For every block of up to eight data rows with up to eight parity rows, and every set of
  surviving shards that hold what \<open>Encode\<close> made, reconstruction succeeds exactly when at least \<open>K\<close> shards survive, and
  then it returns exactly the original bytes; with fewer it reports failure.
\<close>

theorem Reconstruct_recovers:
  assumes "K \<le> Max_Data" and "M \<le> Max_Parity"
    and "\<And>i b. i \<in> {1..K + M} \<Longrightarrow> present i \<Longrightarrow> b \<in> {1..L} \<Longrightarrow> shards i b = shard_of K M L data i b"
  shows "(snd (Reconstruct K M L present shards) \<longleftrightarrow> K \<le> card {i\<in>{1..K + M}. present i}) \<and>
     (snd (Reconstruct K M L present shards) \<longrightarrow>
        (\<forall>j\<in>{1..K}. \<forall>b\<in>{1..L}. fst (Reconstruct K M L present shards) j b = data j b))"
proof (cases "K \<le> card {i\<in>{1..K + M}. present i}")
  case True
  with Reconstruct_enough [of K M present L shards data] assms show ?thesis by (auto simp: Max_Data_def Max_Parity_def)
next
  case False
  then show ?thesis by (simp add: Reconstruct_few)
qed

theorem Reconstruct_recovers_witness:
  "fst (Reconstruct 2 2 2 (\<lambda>i. i = 2 \<or> i = 4) (shard_of 2 2 2 (\<lambda>j b. GF (of_nat (10 * j + b))))) 1 1 = GF 11 \<and>
   fst (Reconstruct 2 2 2 (\<lambda>i. i = 2 \<or> i = 4) (shard_of 2 2 2 (\<lambda>j b. GF (of_nat (10 * j + b))))) 1 2 = GF 12"
proof -
  let ?data = "\<lambda>j b. GF (of_nat (10 * j + b))"
  have "{i\<in>{1..2 + 2}. i = 2 \<or> i = 4} = {2, 4 :: nat}" by auto
  with Reconstruct_recovers [of 2 2 "\<lambda>i. i = 2 \<or> i = 4" 2 "shard_of 2 2 2 ?data" ?data]
  have "\<forall>j\<in>{1..2}. \<forall>b\<in>{1..2}. fst (Reconstruct 2 2 2 (\<lambda>i. i = 2 \<or> i = 4) (shard_of 2 2 2 ?data)) j b = ?data j b"
    by (simp add: Max_Data_def Max_Parity_def)
  then have "fst (Reconstruct 2 2 2 (\<lambda>i. i = 2 \<or> i = 4) (shard_of 2 2 2 ?data)) 1 b = ?data 1 b" if "b \<in> {1..2}" for b
    using that by simp
  from this [of 1] this [of 2] show ?thesis by simp
qed

end
