(* ===== verification/Cas_Shards.thy ===== *)
theory Cas_Shards
  imports Vault_Persist Hashing Erasure
begin

text \<open>
  Shard directories of \<open>src/storage/src/dezhan-storage-cas.adb\<close>: a blob (a chunk or a manifest) is a directory of data and
  parity shards with an index of their digests.  \<open>Store_Shards\<close>, \<open>Read_Shards\<close> and \<open>Repair_Shards\<close> on the files of a
  directory; the digest is \<open>SHA256\<close> and the code \<open>Encode\<close> and \<open>Reconstruct\<close>, as modelled.  What the operating system
  may refuse (a full disk) is not modelled; that files disappear or change is.
\<close>

section \<open>Definitions\<close>

text \<open>The files of a directory: \<open>Shard s\<close> is the one named by \<open>Shard_Name s\<close>.\<close>

datatype cas_file = Shard nat | Idx | Tag

type_synonym files = "(cas_file \<times> byte list) list"

abbreviation Corruption_Detected :: ada_exn where
  "Corruption_Detected \<equiv> Cas_Error ''corruption detected''"

abbreviation Name_Error :: ada_exn where
  "Name_Error \<equiv> Cas_Error ''name error''"

abbreviation (input) EC_M :: nat where "EC_M \<equiv> 2"

abbreviation (input) EC_SL :: nat where "EC_SL \<equiv> 1024"

definition data_shards :: "byte list \<Rightarrow> nat" where
  "data_shards data = max 1 ((length data + EC_SL - 1) div EC_SL)"

definition data_block :: "byte list \<Rightarrow> block" where
  "data_block data = (\<lambda>i b. if i > 0 \<and> b \<in> {1..EC_SL} \<and> (i - 1) * EC_SL + (b - 1) < length data
     then GF (data ! ((i - 1) * EC_SL + (b - 1))) else 0)"

definition shard_bytes :: "nat \<Rightarrow> nat \<Rightarrow> block \<Rightarrow> nat \<Rightarrow> byte list" where
  "shard_bytes K M db s = map (\<lambda>c. sym (shard_of K M EC_SL db s c)) [1..<Suc EC_SL]"

definition shard :: "byte list \<Rightarrow> nat \<Rightarrow> byte list" where
  "shard data = shard_bytes (data_shards data) EC_M (data_block data)"

definition index_bytes :: "byte list \<Rightarrow> byte list" where
  "index_bytes data = word_bytes (of_nat (length data)) @ [of_nat (data_shards data), of_nat EC_M] @
     concat (map (\<lambda>s. SHA256 (shard data s)) [1..<Suc (data_shards data + EC_M)])"

text \<open>The files of a new blob in the order they are written.\<close>

definition shard_files :: "byte list \<Rightarrow> files" where
  "shard_files data = map (\<lambda>s. (Shard s, shard data s)) [1..<Suc (data_shards data + EC_M)] @ [(Idx, index_bytes data)]"

definition Store_Shards :: "'p \<Rightarrow> byte list \<Rightarrow> ('p \<times> files) list \<Rightarrow> ada_exn + ('p \<times> files) list" where
  "Store_Shards dir data st =
    (if lookup st dir \<noteq> None then Inr st
     else if data_shards data > Max_Data then Inl Constraint_Error
     else Inr (AList.update dir (shard_files data) st))"

text \<open>The index of a directory, with the numbers of shards.\<close>

definition read_index :: "files \<Rightarrow> ada_exn + byte list \<times> nat \<times> nat" where
  "read_index fs = (case lookup fs Idx of
       None \<Rightarrow> Inl Name_Error
     | Some idx \<Rightarrow>
        if length idx < 6 \<or> idx ! 4 = 0 \<or> idx ! 5 = 0 then Inl Constraint_Error
        else Inr (idx, unat (idx ! 4), unat (idx ! 5)))"

text \<open>The shards that are there with the right length and digest.\<close>

fun valid_shards :: "byte list \<Rightarrow> files \<Rightarrow> nat list \<Rightarrow> ada_exn + (nat \<times> byte list) list" where
  "valid_shards idx fs [] = Inr []"
| "valid_shards idx fs (s # ss) = (case lookup fs (Shard s) of
       None \<Rightarrow> valid_shards idx fs ss
     | Some sb \<Rightarrow>
        if length sb \<noteq> EC_SL then valid_shards idx fs ss
        else if length idx < 6 + s * 32 then Inl Constraint_Error
        else if SHA256 sb \<noteq> take 32 (drop (6 + (s - 1) * 32) idx) then valid_shards idx fs ss
        else map_sum id (Cons (s, sb)) (valid_shards idx fs ss))"

definition shard_block :: "(nat \<times> byte list) list \<Rightarrow> block" where
  "shard_block vs = (\<lambda>s c. case map_of vs s of Some sb \<Rightarrow> if c \<in> {1..EC_SL} then GF (sb ! (c - 1)) else 0 | None \<Rightarrow> 0)"

text \<open>
  Reading and repairing start alike.  More than sixteen shards run over the arrays of the code, and so do more than eight
  rows chosen by \<open>Reconstruct\<close>; with at most eight shards present and more rows wanted it reports failure.
\<close>

definition recover_block :: "nat \<Rightarrow> nat \<Rightarrow> byte list \<Rightarrow> files \<Rightarrow> ada_exn + nat list \<times> block option" where
  "recover_block K M idx fs =
    (if K + M > Max_Data + Max_Parity then Inl Constraint_Error
     else case valid_shards idx fs [1..<Suc (K + M)] of
       Inl e \<Rightarrow> Inl e
     | Inr vs \<Rightarrow>
        if K > Max_Data then (if length vs > Max_Data then Inl Constraint_Error else Inr (map fst vs, None))
        else (case Reconstruct K M EC_SL (\<lambda>s. s \<in> set (map fst vs)) (shard_block vs) of
           (db, ok) \<Rightarrow> Inr (map fst vs, if ok then Some db else None)))"

definition read_files :: "files \<Rightarrow> ada_exn + byte list" where
  "read_files fs = (case read_index fs of
       Inl e \<Rightarrow> Inl e
     | Inr (idx, K, M) \<Rightarrow>
        (let len = unat (be32 idx 0) in
         if len > Natural_Last then Inl Constraint_Error
         else case recover_block K M idx fs of
           Inl e \<Rightarrow> Inl e
         | Inr (present, None) \<Rightarrow> Inl Corruption_Detected
         | Inr (present, Some db) \<Rightarrow>
            if len > Max_Data * EC_SL then Inl Constraint_Error
            else Inr (map (\<lambda>i. sym (db (i div EC_SL + 1) (i mod EC_SL + 1))) [0..<len])))"

definition Read_Shards :: "'p \<Rightarrow> ('p \<times> files) list \<Rightarrow> ada_exn + byte list" where
  "Read_Shards dir st = (case lookup st dir of None \<Rightarrow> Inl Name_Error | Some fs \<Rightarrow> read_files fs)"

definition repair_files :: "files \<Rightarrow> ada_exn + nat \<times> bool \<times> files" where
  "repair_files fs = (case read_index fs of
       Inl e \<Rightarrow> Inl e
     | Inr (idx, K, M) \<Rightarrow> (case recover_block K M idx fs of
           Inl e \<Rightarrow> Inl e
         | Inr (present, None) \<Rightarrow> Inr (0, False, fs)
         | Inr (present, Some db) \<Rightarrow>
            if M > Max_Parity then Inl Constraint_Error
            else (let lost = filter (\<lambda>s. s \<notin> set present) [1..<Suc (K + M)]
              in Inr (length lost, True, fold (\<lambda>s. AList.update (Shard s) (shard_bytes K M db s)) lost fs))))"

definition Repair_Shards :: "'p \<Rightarrow> ('p \<times> files) list \<Rightarrow> ada_exn + nat \<times> bool \<times> ('p \<times> files) list" where
  "Repair_Shards dir st = (case lookup st dir of
       None \<Rightarrow> Inl Name_Error
     | Some fs \<Rightarrow> map_sum id (\<lambda>(n, ok, fs'). (n, ok, AList.update dir fs' st)) (repair_files fs))"

section \<open>Numbers as bytes\<close>

declare upt_Suc [simp del]

lemma mask_FF: "(0xFF :: 32 word) = mask 8" "(0xFF :: 64 word) = mask 8"
  by (simp_all add: mask_eq_exp_minus_1)

lemma be32_word_bytes: "be32 (word_bytes w @ xs) 0 = w"
proof (rule bit_word_eqI)
  fix n
  assume "n < LENGTH(32)"
  then consider "n < 8" | "8 \<le> n" "n < 16" | "16 \<le> n" "n < 24" | "24 \<le> n" "n < 32" by fastforce
  then show "bit (be32 (word_bytes w @ xs) 0) n = bit w n"
    by cases (auto simp: be32_def word_bytes_def mask_FF bit_or_iff bit_push_bit_iff bit_ucast_iff bit_and_iff bit_mask_iff bit_drop_bit_eq)
qed

section \<open>Blobs that survive\<close>

text \<open>
  The directory of a blob after any damage to its shards that shows: the index is there, and a shard that is not intact is
  missing, has another length or another digest.  The blob survives when as many shards are intact as it has data shards.
\<close>

definition intact :: "byte list \<Rightarrow> files \<Rightarrow> nat set" where
  "intact data fs = {s \<in> {1..data_shards data + EC_M}. lookup fs (Shard s) = Some (shard data s)}"

definition damage_shows :: "byte list \<Rightarrow> files \<Rightarrow> bool" where
  "damage_shows data fs \<longleftrightarrow> lookup fs Idx = Some (index_bytes data) \<and>
     (\<forall>s\<in>{1..data_shards data + EC_M}. \<forall>sb. lookup fs (Shard s) = Some sb \<longrightarrow> length sb = EC_SL \<longrightarrow>
        SHA256 sb = SHA256 (shard data s) \<longrightarrow> sb = shard data s)"

definition survives :: "byte list \<Rightarrow> files \<Rightarrow> bool" where
  "survives data fs \<longleftrightarrow> damage_shows data fs \<and> data_shards data \<le> card (intact data fs)"

lemma length_shard_bytes [simp]: "length (shard_bytes K M db s) = EC_SL"
  by (simp add: shard_bytes_def)

lemma nth_shard_bytes: "b \<in> {1..EC_SL} \<Longrightarrow> GF (shard_bytes K M db s ! (b - 1)) = shard_of K M EC_SL db s b"
proof -
  assume "b \<in> {1..EC_SL}"
  then have "b - 1 < length [1..<Suc EC_SL]" "[1..<Suc EC_SL] ! (b - 1) = b" by auto
  then show ?thesis unfolding shard_bytes_def by (simp only: nth_map gf.collapse)
qed

lemma length_shard [simp]: "length (shard data s) = EC_SL"
  by (simp add: shard_def)

lemma data_shards_pos: "0 < data_shards data"
  by (simp add: data_shards_def)

lemma data_shards_le: "length data \<le> EC_SL * Max_Data \<Longrightarrow> data_shards data \<le> Max_Data"
  by (auto simp: data_shards_def Max_Data_def)

lemma data_shards_enough: "length data \<le> data_shards data * EC_SL"
  by (simp add: data_shards_def)

text \<open>Pieces of the same length are found again.\<close>

lemma nth_piece: "(\<And>x. x \<in> set xs \<Longrightarrow> length (f x) = n) \<Longrightarrow> k < length xs \<Longrightarrow> take n (drop (k * n) (concat (map f xs))) = f (xs ! k)"
proof (induction xs arbitrary: k)
  case (Cons x xs)
  then show ?case by (cases k) (auto simp: add.commute)
qed simp

lemma length_pieces: "(\<And>x. x \<in> set xs \<Longrightarrow> length (f x) = n) \<Longrightarrow> length (concat (map f xs)) = length xs * n"
  by (induction xs) auto

lemma length_index_bytes: "length (index_bytes data) = 6 + (data_shards data + EC_M) * 32"
  using length_pieces [of "[1..<Suc (data_shards data + EC_M)]" "\<lambda>s. SHA256 (shard data s)" 32]
  by (simp add: index_bytes_def)

lemma index_digest:
  assumes "s \<in> {1..data_shards data + EC_M}"
  shows "take 32 (drop (6 + (s - 1) * 32) (index_bytes data)) = SHA256 (shard data s)"
proof -
  have "drop (6 + (s - 1) * 32) (index_bytes data) =
      drop ((s - 1) * 32) (concat (map (\<lambda>s. SHA256 (shard data s)) [1..<Suc (data_shards data + EC_M)]))"
    by (simp add: index_bytes_def)
  moreover have "s - 1 < length [1..<Suc (data_shards data + EC_M)]" using assms by auto
  ultimately show ?thesis
    using nth_piece [of "[1..<Suc (data_shards data + EC_M)]" "\<lambda>s. SHA256 (shard data s)" 32 "s - 1"] assms
    by simp
qed

lemma read_index_blob:
  assumes "damage_shows data fs" and "data_shards data \<le> Max_Data"
  shows "read_index fs = Inr (index_bytes data, data_shards data, EC_M)"
proof -
  have "index_bytes data ! 4 = of_nat (data_shards data)" "index_bytes data ! 5 = 2"
    by (simp_all add: index_bytes_def nth_append word_bytes_def numeral_eq_Suc)
  moreover have "unat (of_nat (data_shards data) :: byte) = data_shards data"
    using assms(2) by (simp add: unat_of_nat Max_Data_def)
  moreover from this have "(of_nat (data_shards data) :: byte) \<noteq> 0" using data_shards_pos [of data] by auto
  ultimately show ?thesis using assms(1) length_index_bytes [of data] by (simp add: damage_shows_def read_index_def)
qed

lemma valid_shards_blob:
  assumes "damage_shows data fs"
  shows "set ss \<subseteq> {1..data_shards data + EC_M} \<Longrightarrow>
    valid_shards (index_bytes data) fs ss = Inr (map (\<lambda>s. (s, shard data s)) (filter (\<lambda>s. s \<in> intact data fs) ss))"
proof (induction ss)
  case (Cons s ss)
  then have s: "s \<in> {1..data_shards data + EC_M}" by simp
  have l: "\<not> length (index_bytes data) < 6 + s * 32" using s by (simp add: length_index_bytes)
  have "sb = shard data s" if "lookup fs (Shard s) = Some sb" "length sb = EC_SL" "SHA256 sb = SHA256 (shard data s)" for sb
    using assms s that by (auto simp: damage_shows_def)
  with Cons l s index_digest [OF s] show ?case by (auto simp: intact_def split: option.split)
qed simp

text \<open>What the code recovers from them.\<close>

lemma recover_blob:
  assumes "damage_shows data fs" and "data_shards data \<le> Max_Data"
  shows "\<exists>r. recover_block (data_shards data) EC_M (index_bytes data) fs =
      Inr (filter (\<lambda>s. s \<in> intact data fs) [1..<Suc (data_shards data + EC_M)], r) \<and>
     (if data_shards data \<le> card (intact data fs)
      then \<exists>db. r = Some db \<and> (\<forall>j\<in>{1..data_shards data}. \<forall>b\<in>{1..EC_SL}. db j b = data_block data j b) else r = None)"
proof -
  let ?K = "data_shards data"
  let ?vs = "map (\<lambda>s. (s, shard data s)) (filter (\<lambda>s. s \<in> intact data fs) [1..<Suc (?K + EC_M)])"
  let ?rec = "Reconstruct ?K EC_M EC_SL (\<lambda>s. s \<in> set (map fst ?vs)) (shard_block ?vs)"
  have vs: "valid_shards (index_bytes data) fs [1..<Suc (?K + EC_M)] = Inr ?vs"
    by (rule valid_shards_blob [OF assms(1)]) auto
  have fst: "map fst ?vs = filter (\<lambda>s. s \<in> intact data fs) [1..<Suc (?K + EC_M)]" by (simp add: comp_def)
  have present: "s \<in> set (map fst ?vs) \<longleftrightarrow> s \<in> intact data fs" for s
    unfolding fst by (auto simp: intact_def)
  have card: "card {i\<in>{1..?K + EC_M}. i \<in> set (map fst ?vs)} = card (intact data fs)"
    unfolding present by (rule arg_cong [of _ _ card]) (auto simp: intact_def)
  have shards: "shard_block ?vs s b = shard_of ?K EC_M EC_SL (data_block data) s b"
    if "s \<in> set (map fst ?vs)" and b: "b \<in> {1..EC_SL}" for s b
  proof -
    have "s \<in> set (filter (\<lambda>s. s \<in> intact data fs) [1..<Suc (?K + EC_M)])" using that(1) fst by simp
    then have "map_of ?vs s = Some (shard data s)" by (simp add: map_of_map_restrict comp_def)
    then show ?thesis using b nth_shard_bytes [OF b] unfolding shard_block_def by (simp add: shard_def)
  qed
  have rec: "recover_block ?K EC_M (index_bytes data) fs = Inr (map fst ?vs, if snd ?rec then Some (fst ?rec) else None)"
    using vs assms(2) by (simp add: recover_block_def Max_Data_def Max_Parity_def case_prod_beta del: map_map)
  have K8: "?K \<le> 8" using assms(2) by (simp add: Max_Data_def)
  show ?thesis
  proof (cases "?K \<le> card (intact data fs)")
    case True
    then have "\<exists>out. ?rec = (out, True) \<and> (\<forall>j\<in>{1..?K}. \<forall>b\<in>{1..EC_SL}. out j b = data_block data j b)"
      using K8 card shards by (intro Reconstruct_enough) auto
    with rec fst True show ?thesis by auto
  next
    case False
    then have "?rec = (\<lambda>_ _. 0, False)" using card by (intro Reconstruct_few) simp
    with rec fst False show ?thesis by simp
  qed
qed

lemma recover_survives:
  assumes "survives data fs" and "data_shards data \<le> Max_Data"
  shows "\<exists>db. recover_block (data_shards data) EC_M (index_bytes data) fs =
      Inr (filter (\<lambda>s. s \<in> intact data fs) [1..<Suc (data_shards data + EC_M)], Some db) \<and>
     (\<forall>j\<in>{1..data_shards data}. \<forall>b\<in>{1..EC_SL}. db j b = data_block data j b)"
  using recover_blob [of data fs] assms by (auto simp: survives_def)

lemma read_files_survives:
  assumes "survives data fs" and "length data \<le> Max_Data * EC_SL"
  shows "read_files fs = Inr data"
proof -
  let ?K = "data_shards data"
  have K: "?K \<le> Max_Data" using assms(2) by (intro data_shards_le) (simp add: mult.commute)
  obtain db where db: "recover_block ?K EC_M (index_bytes data) fs =
      Inr (filter (\<lambda>s. s \<in> intact data fs) [1..<Suc (?K + EC_M)], Some db)"
    "\<And>j b. j \<in> {1..?K} \<Longrightarrow> b \<in> {1..EC_SL} \<Longrightarrow> db j b = data_block data j b"
    using recover_survives [OF assms(1) K] by blast
  have "be32 (index_bytes data) 0 = of_nat (length data)" unfolding index_bytes_def by (rule be32_word_bytes)
  then have len: "unat (be32 (index_bytes data) 0) = length data"
    using assms(2) by (simp add: unat_of_nat Max_Data_def)
  have "map (\<lambda>i. sym (db (i div EC_SL + 1) (i mod EC_SL + 1))) [0..<length data] = data"
  proof (rule nth_equalityI)
    fix i
    assume "i < length (map (\<lambda>i. sym (db (i div EC_SL + 1) (i mod EC_SL + 1))) [0..<length data])"
    then have i: "i < length data" by simp
    have "i div EC_SL < ?K" using i data_shards_enough [of data] by (intro less_mult_imp_div_less) simp
    then have "db (i div EC_SL + 1) (i mod EC_SL + 1) = data_block data (i div EC_SL + 1) (i mod EC_SL + 1)"
      by (intro db(2)) (auto simp: Suc_le_eq)
    then show "map (\<lambda>i. sym (db (i div EC_SL + 1) (i mod EC_SL + 1))) [0..<length data] ! i = data ! i"
      using i by (simp add: data_block_def Suc_le_eq)
  qed simp
  then show ?thesis
    using assms(2) read_index_blob [OF _ K, of fs] assms(1) db(1) len
    by (simp add: read_files_def survives_def Natural_Last_def Max_Data_def Let_def)
qed

lemma read_files_lost:
  assumes "damage_shows data fs" and "length data \<le> Max_Data * EC_SL" and "card (intact data fs) < data_shards data"
  shows "read_files fs = Inl Corruption_Detected"
proof -
  have K: "data_shards data \<le> Max_Data" using assms(2) by (intro data_shards_le) (simp add: mult.commute)
  have "be32 (index_bytes data) 0 = of_nat (length data)" unfolding index_bytes_def by (rule be32_word_bytes)
  then have "unat (be32 (index_bytes data) 0) = length data" using assms(2) by (simp add: unat_of_nat Max_Data_def)
  with assms(2,3) read_index_blob [OF assms(1) K] recover_blob [OF assms(1) K] show ?thesis
    by (auto simp: read_files_def Natural_Last_def Max_Data_def)
qed

text \<open>Repair writes the shards that are not intact.\<close>

lemma shard_of_cong:
  assumes "\<And>j b. j \<in> {1..K} \<Longrightarrow> b \<in> {1..EC_SL} \<Longrightarrow> db j b = db' j b" and "s > 0"
  shows "shard_bytes K M db s = shard_bytes K M db' s"
proof -
  have "shard_of K M EC_SL db s c = shard_of K M EC_SL db' s c" if "c \<in> {1..EC_SL}" for c
    using assms that by (auto simp: shard_of_def Encode_def accumulate_sum intro!: sum.cong)
  then show ?thesis by (simp add: shard_bytes_def)
qed

lemma lookup_fold_update:
  "lookup (fold (\<lambda>s. AList.update (Shard s) (f s)) ss fs) k =
     (case k of Shard s \<Rightarrow> if s \<in> set ss then Some (f s) else lookup fs k | _ \<Rightarrow> lookup fs k)"
  by (induction ss arbitrary: fs) (auto simp: update_conv' split: cas_file.split)

lemma repair_files_survives:
  assumes "survives data fs" and "length data \<le> Max_Data * EC_SL"
  shows "\<exists>fs'. repair_files fs = Inr (data_shards data + EC_M - card (intact data fs), True, fs') \<and>
     intact data fs' = {1..data_shards data + EC_M} \<and> lookup fs' Idx = lookup fs Idx \<and> lookup fs' Tag = lookup fs Tag"
proof -
  let ?K = "data_shards data" and ?all = "[1..<Suc (data_shards data + EC_M)]"
  have K: "?K \<le> Max_Data" using assms(2) by (intro data_shards_le) (simp add: mult.commute)
  have dmg: "damage_shows data fs" using assms(1) by (simp add: survives_def)
  obtain db where db: "recover_block ?K EC_M (index_bytes data) fs = Inr (filter (\<lambda>s. s \<in> intact data fs) ?all, Some db)"
    "\<And>j b. j \<in> {1..?K} \<Longrightarrow> b \<in> {1..EC_SL} \<Longrightarrow> db j b = data_block data j b"
    using recover_survives [OF assms(1) K] by blast
  have row: "shard_bytes ?K EC_M db s = shard data s" if "s > 0" for s
    unfolding shard_def by (rule shard_of_cong) (use db(2) that in auto)
  define lost where "lost = filter (\<lambda>s. s \<notin> set (filter (\<lambda>s. s \<in> intact data fs) ?all)) ?all"
  have lost: "set lost = {1..?K + EC_M} - intact data fs" by (auto simp: lost_def)
  have sub: "intact data fs \<subseteq> {1..?K + EC_M}" by (auto simp: intact_def)
  have "length lost = card (set lost)" by (rule distinct_card [symmetric]) (simp add: lost_def)
  also have "\<dots> = ?K + EC_M - card (intact data fs)" unfolding lost using sub by (subst card_Diff_subset) (auto intro: finite_subset)
  finally have n: "length lost = ?K + EC_M - card (intact data fs)" .
  let ?fs = "fold (\<lambda>s. AList.update (Shard s) (shard_bytes ?K EC_M db s)) lost fs"
  have "repair_files fs = Inr (?K + EC_M - card (intact data fs), True, ?fs)"
    using read_index_blob [OF dmg K] db(1) n by (simp add: repair_files_def Max_Parity_def Let_def lost_def)
  moreover have "lookup ?fs (Shard s) = Some (shard data s)" if "s \<in> {1..?K + EC_M}" for s
    using that row by (auto simp: lookup_fold_update lost intact_def)
  then have "intact data ?fs = {1..?K + EC_M}" by (auto simp: intact_def)
  ultimately show ?thesis by (auto simp: lookup_fold_update)
qed

lemma repair_files_lost:
  assumes "damage_shows data fs" and "length data \<le> Max_Data * EC_SL" and "card (intact data fs) < data_shards data"
  shows "repair_files fs = Inr (0, False, fs)"
proof -
  have K: "data_shards data \<le> Max_Data" using assms(2) by (intro data_shards_le) (simp add: mult.commute)
  with assms(3) read_index_blob [OF assms(1) K] recover_blob [OF assms(1) K] show ?thesis by (auto simp: repair_files_def)
qed

section \<open>Properties\<close>

text \<open>A new blob is whole.\<close>

lemma lookup_shard_files:
  "lookup (shard_files data) k = (case k of Shard s \<Rightarrow> if s \<in> {1..data_shards data + EC_M} then Some (shard data s) else None
     | Idx \<Rightarrow> Some (index_bytes data) | Tag \<Rightarrow> None)"
proof -
  have "lookup (map (\<lambda>s. (Shard s, shard data s)) ss @ [(Idx, x)]) k =
    (case k of Shard s \<Rightarrow> if s \<in> set ss then Some (shard data s) else None | Idx \<Rightarrow> Some x | Tag \<Rightarrow> None)" for ss x
    by (induction ss) (auto split: cas_file.split simp del: map_of_append)
  then show ?thesis unfolding shard_files_def by (auto split: cas_file.split simp del: map_of_append)
qed

lemma intact_shard_files: "intact data (shard_files data) = {1..data_shards data + EC_M}"
  by (auto simp: intact_def lookup_shard_files)

lemma survives_shard_files: "survives data (shard_files data)"
  by (simp add: survives_def damage_shows_def intact_shard_files) (auto simp: lookup_shard_files split: if_splits)

text \<open>
  C28: A blob survives the loss of any two of its shards.  When shards of a stored blob of up to 8 KiB have been lost, cut or
  altered so that it shows, reading returns exactly the blob as long as no more shards are damaged than there are parity
  shards, and repair then rewrites exactly the damaged ones with their original contents and counts them; with more
  damage reading reports corruption, and repair reports the loss and writes nothing.
\<close>

theorem shards_tolerate_loss:
  assumes "length data \<le> 8192" and "lookup st dir = Some fs" and "damage_shows data fs"
  shows "if card ({1..data_shards data + EC_M} - intact data fs) \<le> EC_M
    then Read_Shards dir st = Inr data \<and>
      (\<exists>fs'. Repair_Shards dir st = Inr (card ({1..data_shards data + EC_M} - intact data fs), True, AList.update dir fs' st) \<and>
         intact data fs' = {1..data_shards data + EC_M} \<and> lookup fs' Idx = lookup fs Idx \<and> lookup fs' Tag = lookup fs Tag)
    else Read_Shards dir st = Inl Corruption_Detected \<and> Repair_Shards dir st = Inr (0, False, AList.update dir fs st)"
proof -
  have sub: "intact data fs \<subseteq> {1..data_shards data + EC_M}" by (auto simp: intact_def)
  then have card: "card ({1..data_shards data + EC_M} - intact data fs) = data_shards data + EC_M - card (intact data fs)"
    by (subst card_Diff_subset) (auto intro: finite_subset)
  have le: "card (intact data fs) \<le> data_shards data + EC_M" using card_mono [OF _ sub] by simp
  have len: "length data \<le> Max_Data * EC_SL" using assms(1) by (simp add: Max_Data_def)
  show ?thesis
  proof (cases "data_shards data \<le> card (intact data fs)")
    case True
    then have s: "survives data fs" using assms(3) by (simp add: survives_def)
    from read_files_survives [OF s len] repair_files_survives [OF s len] True assms(2) card show ?thesis
      by (auto simp: Read_Shards_def Repair_Shards_def)
  next
    case False
    then have "card (intact data fs) < data_shards data" by simp
    from read_files_lost [OF assms(3) len this] repair_files_lost [OF assms(3) len this] assms(2) False card le show ?thesis
      by (simp add: Read_Shards_def Repair_Shards_def)
  qed
qed

text \<open>The directory of a short blob without its first and third shard.\<close>

lemma lost_two:
  "damage_shows [7] [(Shard 2, shard [7] 2), (Idx, index_bytes [7])]" "intact [7] [(Shard 2, shard [7] 2), (Idx, index_bytes [7])] = {2}"
  by (auto simp: damage_shows_def intact_def data_shards_def)

theorem shards_tolerate_loss_witness:
  "Read_Shards () [((), [(Shard 2, shard [7] 2), (Idx, index_bytes [7])])] = Inr [7]"
proof -
  have d: "data_shards [7] = 1" by (simp add: data_shards_def)
  have "{1..1 + EC_M} - {2} = {1, 3}" by auto
  then have c: "card ({1..1 + EC_M} - {2}) = 2" by simp
  let ?fs = "[(Shard 2, shard [7] 2), (Idx, index_bytes [7])]"
  have "length [7 :: byte] \<le> 8192" "lookup [((), ?fs)] () = Some ?fs" by simp_all
  from shards_tolerate_loss [OF this lost_two(1)] show ?thesis unfolding lost_two(2) d c by simp
qed

declare upt_Suc [simp]

end
