(* ===== verification/Cipher.thy ===== *)
theory Cipher
  imports Prelude "HOL-Library.Word"
begin

text \<open>
  The stream cipher ChaCha20 of \<open>src/trusted_core/src/dezhan-trusted_core-cipher.adb\<close>: \<open>Quarter_Round\<close>, \<open>Block\<close> and the byte
  loop of \<open>XCrypt\<close>.  The state of sixteen words and the arrays of bytes are lists.
\<close>

unbundle bit_operations_syntax

section \<open>Definitions\<close>

definition LE32 :: "8 word \<Rightarrow> 8 word \<Rightarrow> 8 word \<Rightarrow> 8 word \<Rightarrow> 32 word" where
  "LE32 b0 b1 b2 b3 = ucast b0 OR push_bit 8 (ucast b1) OR push_bit 16 (ucast b2) OR push_bit 24 (ucast b3)"

text \<open>The two assignments that each line of \<open>Quarter_Round\<close> makes twice, and the four pairs of them.\<close>

definition add_word :: "nat \<Rightarrow> nat \<Rightarrow> 32 word list \<Rightarrow> 32 word list" where
  "add_word a b s = s[a := s ! a + s ! b]"

definition rot_word :: "nat \<Rightarrow> nat \<Rightarrow> nat \<Rightarrow> 32 word list \<Rightarrow> 32 word list" where
  "rot_word d a n s = s[d := word_rotl n (s ! d XOR s ! a)]"

definition Quarter_Round :: "nat \<Rightarrow> nat \<Rightarrow> nat \<Rightarrow> nat \<Rightarrow> 32 word list \<Rightarrow> 32 word list" where
  "Quarter_Round a b c d s =
    rot_word b c 7 (add_word c d (rot_word d a 8 (add_word a b
      (rot_word b c 12 (add_word c d (rot_word d a 16 (add_word a b s)))))))"

definition column_rounds :: "32 word list \<Rightarrow> 32 word list" where
  "column_rounds w =
    Quarter_Round 3 7 11 15 (Quarter_Round 2 6 10 14 (Quarter_Round 1 5 9 13 (Quarter_Round 0 4 8 12 w)))"

definition diagonal_rounds :: "32 word list \<Rightarrow> 32 word list" where
  "diagonal_rounds w =
    Quarter_Round 3 4 9 14 (Quarter_Round 2 7 8 13 (Quarter_Round 1 6 11 12 (Quarter_Round 0 5 10 15 w)))"

definition initial_state :: "8 word list \<Rightarrow> 8 word list \<Rightarrow> 32 word \<Rightarrow> 32 word list" where
  "initial_state key nonce counter =
     [0x61707865, 0x3320646e, 0x79622d32, 0x6b206574] @
     map (\<lambda>i. LE32 (key ! (i * 4)) (key ! (i * 4 + 1)) (key ! (i * 4 + 2)) (key ! (i * 4 + 3))) [0..<8] @ [counter] @
     map (\<lambda>i. LE32 (nonce ! (i * 4)) (nonce ! (i * 4 + 1)) (nonce ! (i * 4 + 2)) (nonce ! (i * 4 + 3))) [0..<3]"

fun rounds :: "nat \<Rightarrow> 32 word list \<Rightarrow> 32 word list" where
  "rounds 0 w = w"
| "rounds (Suc n) w = rounds n (diagonal_rounds (column_rounds w))"

definition le_bytes :: "32 word \<Rightarrow> 8 word list" where
  "le_bytes w = [ucast (w AND 0xFF), ucast (drop_bit 8 w AND 0xFF), ucast (drop_bit 16 w AND 0xFF), ucast (drop_bit 24 w AND 0xFF)]"

definition Block :: "8 word list \<Rightarrow> 8 word list \<Rightarrow> 32 word \<Rightarrow> 8 word list" where
  "Block key nonce counter =
    (let st = initial_state key nonce counter; wk = rounds 10 st
     in concat (map le_bytes (map2 (+) wk st)))"

text \<open>The loop over the bytes, with the counter, the offset in the block and the block of the key stream.\<close>

fun xcrypt_loop :: "8 word list \<Rightarrow> 8 word list \<Rightarrow> 32 word \<Rightarrow> nat \<Rightarrow> 8 word list \<Rightarrow> 8 word list \<Rightarrow> 8 word list" where
  "xcrypt_loop key nonce ctr off ks [] = []"
| "xcrypt_loop key nonce ctr off ks (x # xs) = (x XOR ks ! off) #
    (if off = 63 then xcrypt_loop key nonce (ctr + 1) 0 (Block key nonce (ctr + 1)) xs
     else xcrypt_loop key nonce ctr (off + 1) ks xs)"

definition XCrypt :: "8 word list \<Rightarrow> 8 word list \<Rightarrow> 32 word \<Rightarrow> 8 word list \<Rightarrow> 8 word list" where
  "XCrypt key nonce counter data = xcrypt_loop key nonce counter 0 (Block key nonce counter) data"

section \<open>The key stream\<close>

definition key_byte :: "8 word list \<Rightarrow> 8 word list \<Rightarrow> 32 word \<Rightarrow> nat \<Rightarrow> 8 word" where
  "key_byte key nonce counter p = Block key nonce (counter + of_nat (p div 64)) ! (p mod 64)"

lemma key_byte_shift: "key_byte key nonce (counter + of_nat m) p = key_byte key nonce counter (64 * m + p)"
  by (simp add: key_byte_def ac_simps)

lemma xcrypt_loop_stream:
  "off < 64 \<Longrightarrow> xcrypt_loop key nonce ctr off (Block key nonce ctr) xs =
     map (\<lambda>(i, x). x XOR key_byte key nonce ctr (off + i)) (enumerate 0 xs)"
proof (induction xs arbitrary: ctr off)
  case (Cons x xs)
  have e: "enumerate (Suc 0) xs = map (\<lambda>(i, x). (Suc i, x)) (enumerate 0 xs)"
    by (rule nth_equalityI) (simp_all add: nth_enumerate_eq)
  show ?case
  proof (cases "off = 63")
    case True
    have "key_byte key nonce (ctr + 1) p = key_byte key nonce ctr (64 + p)" for p
      using key_byte_shift [of key nonce ctr 1 p] by simp
    with True Cons.IH [of 0 "ctr + 1"] show ?thesis by (simp add: e key_byte_def comp_def case_prod_beta)
  next
    case False
    with Cons show ?thesis by (simp add: e key_byte_def comp_def case_prod_beta)
  qed
qed simp

lemma XCrypt_stream: "XCrypt key nonce counter data = map (\<lambda>(i, x). x XOR key_byte key nonce counter i) (enumerate 0 data)"
  by (simp add: XCrypt_def xcrypt_loop_stream)

lemma length_XCrypt [simp]: "length (XCrypt key nonce counter data) = length data"
  by (simp add: XCrypt_stream)

lemma nth_XCrypt: "i < length data \<Longrightarrow> XCrypt key nonce counter data ! i = data ! i XOR key_byte key nonce counter i"
  by (simp add: XCrypt_stream nth_enumerate_eq)

text \<open>Decrypting is encrypting again.\<close>

lemma XCrypt_twice [simp]: "XCrypt key nonce counter (XCrypt key nonce counter data) = data"
  by (rule nth_equalityI) (simp_all add: nth_XCrypt xor.assoc)

text \<open>A message cut at a multiple of 64 bytes is encrypted piece by piece, the counter moved on.\<close>

lemma XCrypt_append:
  assumes "length xs = 64 * m"
  shows "XCrypt key nonce counter (xs @ ys) = XCrypt key nonce counter xs @ XCrypt key nonce (counter + of_nat m) ys"
  by (rule nth_equalityI) (auto simp: nth_XCrypt nth_append key_byte_shift assms)

end
