(* ===== verification/Cas.thy ===== *)
theory Cas
  imports Cas_Shards Cipher
begin

text \<open>
  The content-addressed store of \<open>src/storage/src/dezhan-storage-cas.adb\<close>: \<open>Put\<close>, and \<open>Load\<close> with \<open>Get\<close> and
  \<open>Verify\<close>, on a store of shard directories.  Hash, authentication code, cipher and erasure code are the
  modelled ones.  The compressor (\<open>dezhan-storage-deflate.adb\<close>), the order in which the worker tasks finish the chunks of an
  object and the contents of uninitialised storage are parameters.
\<close>

section \<open>Definitions\<close>

text \<open>\<open>Object_Path\<close> and \<open>Manifest_Path\<close> of a digest in hexadecimal.\<close>

datatype cas_dir = Object_Dir string | Manifest_Dir string

type_synonym cas_store = "(cas_dir \<times> files) list"

record cas_env =
  deflate :: "byte list \<Rightarrow> byte list"
  inflate :: "byte list \<Rightarrow> ada_exn + byte list"
  worker_order :: "nat \<Rightarrow> nat list"
  uninit_bytes :: "nat \<Rightarrow> byte list"

abbreviation (input) Chunk_Size :: nat where "Chunk_Size \<equiv> 8192"

abbreviation (input) Hdr :: nat where "Hdr \<equiv> 29"

abbreviation (input) Nonce_Off :: nat where "Nonce_Off \<equiv> 17"

definition Enc_Label :: string where "Enc_Label = ''dezhan/enc/chacha20''"

definition Mac_Label :: string where "Mac_Label = ''dezhan/mac/hmac-sha256''"

definition Counter_For :: "nat \<Rightarrow> 32 word" where
  "Counter_For c = of_nat c * of_nat (Chunk_Size div 64)"

text \<open>The rolling digest of the payload, a block of \<open>EC_SL\<close> bytes at a time, and the nonce derived from it.\<close>

function content_digest :: "byte list \<Rightarrow> byte list \<Rightarrow> byte list" where
  "content_digest acc payload =
    (let acc = SHA256 (acc @ take EC_SL payload)
     in if length payload \<le> EC_SL then acc else content_digest acc (drop EC_SL payload))"
  by auto
termination by (relation "measure (\<lambda>(acc, payload). length payload)") auto

declare content_digest.simps [simp del]

definition Derive_Nonce :: "byte list \<Rightarrow> byte list \<Rightarrow> byte list" where
  "Derive_Nonce key payload = take 12 (HMAC_SHA256 key (content_digest (replicate 32 0) payload))"

definition Subkey :: "byte list \<Rightarrow> string \<Rightarrow> byte list" where
  "Subkey key label = HMAC_SHA256 key (map of_char label)"

definition Object_Tag :: "byte list \<Rightarrow> byte list \<Rightarrow> byte list" where
  "Object_Tag mk manifest_digest = HMAC_SHA256 mk manifest_digest"

definition Get_U64 :: "byte list \<Rightarrow> nat \<Rightarrow> 64 word" where
  "Get_U64 from off = foldl (\<lambda>v i. push_bit 8 v OR ucast (from ! (off + i))) 0 [0..<8]"

text \<open>What is stored of an object: the compressed data when the prefix and the whole shrink, else the data.\<close>

definition compresses :: "cas_env \<Rightarrow> byte list \<Rightarrow> bool \<times> byte list" where
  "compresses env data =
    (let probe_n = min (length data) 131072; probe = deflate env (take probe_n data);
         worth = (probe_n > 0 \<and> length probe < probe_n);
         comp = (if \<not> worth then probe else if probe_n = length data then probe else deflate env data);
         compress = (worth \<and> length comp < length data)
     in (compress, if compress then comp else data))"

definition chunk :: "byte list \<Rightarrow> nat \<Rightarrow> byte list" where
  "chunk payload c = take Chunk_Size (drop (c * Chunk_Size) payload)"

definition cipher_chunk :: "byte list \<Rightarrow> byte list \<Rightarrow> byte list \<Rightarrow> nat \<Rightarrow> byte list" where
  "cipher_chunk ek nonce payload c = XCrypt ek nonce (Counter_For c) (chunk payload c)"

definition manifest_of :: "nat \<Rightarrow> nat \<Rightarrow> bool \<Rightarrow> byte list \<Rightarrow> byte list list \<Rightarrow> byte list" where
  "manifest_of p_len orig_len compress nonce digests =
     be64 (of_nat p_len) @ be64 (of_nat orig_len) @ [if compress then 1 else 0] @ nonce @ concat digests"

text \<open>\<open>Do_Chunk\<close> for the chunks in the given order.\<close>

fun store_chunks :: "(nat \<Rightarrow> byte list) \<Rightarrow> nat list \<Rightarrow> cas_store \<Rightarrow> (ada_exn + unit) \<times> cas_store" where
  "store_chunks f [] st = (Inr (), st)"
| "store_chunks f (c # cs) st = (case Store_Shards (Object_Dir (To_Hex (SHA256 (f c)))) (f c) st of
       Inl e \<Rightarrow> (Inl e, st)
     | Inr st' \<Rightarrow> store_chunks f cs st')"

definition Write_File :: "cas_dir \<Rightarrow> cas_file \<Rightarrow> byte list \<Rightarrow> cas_store \<Rightarrow> cas_store" where
  "Write_File dir file bs st =
     AList.update dir (AList.update file bs (case lookup st dir of Some fs \<Rightarrow> fs | None \<Rightarrow> [])) st"

definition chunk_count :: "nat \<Rightarrow> nat" where
  "chunk_count len = (len + Chunk_Size - 1) div Chunk_Size"

definition Put :: "cas_env \<Rightarrow> byte list \<Rightarrow> byte list \<Rightarrow> cas_store \<Rightarrow> (ada_exn + string) \<times> cas_store" where
  "Put env key data st =
    (let (compress, payload) = compresses env data;
         n = chunk_count (length payload);
         ek = Subkey key Enc_Label; mk = Subkey key Mac_Label;
         nonce = Derive_Nonce ek payload
     in if length data > Natural_Last \<or> length payload + Chunk_Size > Natural_Last then (Inl Constraint_Error, st)
        else if Hdr + n * 32 > Max_Message then (Inl Object_Too_Large, st)
        else case store_chunks (cipher_chunk ek nonce payload) (if n \<le> 3 then [0..<n] else worker_order env n) st of
          (Inl e, st1) \<Rightarrow> (Inl e, st1)
        | (Inr _, st1) \<Rightarrow>
           (let manifest = manifest_of (length payload) (length data) compress nonce
                  (map (\<lambda>c. SHA256 (cipher_chunk ek nonce payload c)) [0..<n]);
                md = SHA256 manifest; hex = To_Hex md
            in case Store_Shards (Manifest_Dir hex) manifest st1 of
                 Inl e \<Rightarrow> (Inl e, st1)
               | Inr st2 \<Rightarrow> (Inr hex, Write_File (Manifest_Dir hex) Tag (Object_Tag mk md) st2)))"

text \<open>Reading: the tag of a manifest, the numbers and digests it holds, and its chunks.\<close>

definition check_tag :: "byte list \<Rightarrow> string \<Rightarrow> byte list \<Rightarrow> cas_store \<Rightarrow> ada_exn + unit" where
  "check_tag mk oid md st = (case lookup st (Manifest_Dir oid) of
       None \<Rightarrow> Inl Auth_Failed
     | Some fs \<Rightarrow> (case lookup fs Tag of
           None \<Rightarrow> Inl Auth_Failed
         | Some got \<Rightarrow> if length got \<noteq> 32 \<or> got \<noteq> Object_Tag mk md then Inl Auth_Failed else Inr ()))"

definition chunk_digest :: "byte list \<Rightarrow> nat \<Rightarrow> byte list" where
  "chunk_digest mb c = take 32 (drop (Hdr + c * 32) mb)"

text \<open>The payload is written at increasing positions of an array of \<open>P_Len\<close> bytes.\<close>

fun load_chunks :: "byte list \<Rightarrow> (nat \<Rightarrow> byte list \<Rightarrow> byte list) \<Rightarrow> nat option \<Rightarrow> cas_store \<Rightarrow> nat list \<Rightarrow> nat \<Rightarrow> ada_exn + byte list" where
  "load_chunks mb dec room st [] pos = Inr []"
| "load_chunks mb dec room st (c # cs) pos =
    (if length mb < Hdr + c * 32 + 32 then Inl Constraint_Error
     else case Read_Shards (Object_Dir (To_Hex (chunk_digest mb c))) st of
       Inl e \<Rightarrow> Inl e
     | Inr bs \<Rightarrow>
        if SHA256 bs \<noteq> chunk_digest mb c then Inl Corruption_Detected
        else if (case room of None \<Rightarrow> False | Some p_len \<Rightarrow> pos + length bs > p_len) then Inl Constraint_Error
        else map_sum id ((@) (dec c bs)) (load_chunks mb dec room st cs (pos + length bs)))"

definition Load_Object :: "cas_env \<Rightarrow> byte list \<Rightarrow> string \<Rightarrow> bool \<Rightarrow> cas_store \<Rightarrow> ada_exn + byte list" where
  "Load_Object env key oid reassemble st = (case Read_Shards (Manifest_Dir oid) st of
       Inl e \<Rightarrow> Inl e
     | Inr mb \<Rightarrow>
        (let md = SHA256 mb; ek = Subkey key Enc_Label; mk = Subkey key Mac_Label in
         if To_Hex md \<noteq> oid then Inl Corruption_Detected
         else case (if reassemble then check_tag mk oid md st else Inr ()) of
           Inl e \<Rightarrow> Inl e
         | Inr _ \<Rightarrow>
            (let p_len = unat (Get_U64 mb 0); compress = (mb ! 16 = 1); nonce = take 12 (drop Nonce_Off mb) in
             if length mb < Hdr \<or> p_len + Chunk_Size > Natural_Last then Inl Constraint_Error
             else case load_chunks mb (\<lambda>c. XCrypt ek nonce (Counter_For c)) (if reassemble then Some p_len else None) st
                [0..<chunk_count p_len] 0 of
               Inl e \<Rightarrow> Inl e
             | Inr pl \<Rightarrow>
                if \<not> reassemble then Inr []
                else (let payload = pl @ take (p_len - length pl) (uninit_bytes env (p_len - length pl))
                      in if compress then inflate env payload else Inr payload))))"

definition Get :: "cas_env \<Rightarrow> byte list \<Rightarrow> string \<Rightarrow> cas_store \<Rightarrow> ada_exn + byte list" where
  "Get env key oid st = Load_Object env key oid True st"

definition Verify :: "cas_env \<Rightarrow> string \<Rightarrow> cas_store \<Rightarrow> bool" where
  "Verify env oid st = (case Load_Object env (replicate 32 0) oid False st of Inl _ \<Rightarrow> False | Inr _ \<Rightarrow> True)"

section \<open>Numbers and digests\<close>

lemma length_be64 [simp]: "length (be64 v) = 8"
  by (simp add: be64_def)

lemma next_byte: "push_bit 8 (drop_bit (8 + k) v) OR ucast (ucast (drop_bit k v AND 0xFF) :: byte) = drop_bit k (v :: 64 word)"
proof (rule bit_word_eqI)
  fix n
  assume "n < LENGTH(64)"
  then show "bit (push_bit 8 (drop_bit (8 + k) v) OR ucast (ucast (drop_bit k v AND 0xFF) :: byte)) n = bit (drop_bit k v) n"
    by (cases "n < 8") (auto simp: mask_FF bit_or_iff bit_push_bit_iff bit_ucast_iff bit_and_iff bit_mask_iff bit_drop_bit_eq
        ac_simps dest: bit_imp_le_length)
qed

lemma Get_U64_be64: "Get_U64 (be64 v @ xs) 0 = v"
proof -
  have "[0..<8] = [0, 1, 2, 3, 4, 5, 6, 7 :: nat]" by (simp add: upt_rec)
  moreover have "drop_bit 64 v = 0" by (rule bit_word_eqI) (auto simp: bit_drop_bit_eq dest: bit_imp_le_length)
  ultimately show ?thesis
    using next_byte [of 56 v] next_byte [of 48 v] next_byte [of 40 v] next_byte [of 32 v] next_byte [of 24 v] next_byte [of 16 v]
      next_byte [of 8 v] next_byte [of 0 v]
    by (simp add: Get_U64_def be64_def)
qed

lemma To_Hex_inj: "length a = 32 \<Longrightarrow> length b = 32 \<Longrightarrow> To_Hex a = To_Hex b \<longleftrightarrow> a = b"
  by (metis From_Hex_To_Hex option.inject)

lemma length_Derive_Nonce [simp]: "length (Derive_Nonce key payload) = 12"
  by (simp add: Derive_Nonce_def)

text \<open>The chunks make up the payload.\<close>

lemma chunk_count_less: "c < chunk_count n \<longleftrightarrow> c * Chunk_Size < n"
  by (auto simp: chunk_count_def)

lemma concat_chunks: "concat (map (chunk payload) [0..<chunk_count (length payload)]) = payload"
proof -
  have "concat (map (chunk payload) [0..<n]) = take (n * Chunk_Size) payload" for n
    by (induction n) (simp_all add: chunk_def flip: take_add, simp add: add.commute)
  moreover have "length payload \<le> chunk_count (length payload) * Chunk_Size" by (simp add: chunk_count_def)
  ultimately show ?thesis by simp
qed

section \<open>Sound stores\<close>

text \<open>
  Each directory, but for those in \<open>E\<close>, holds, with damage that does not matter, a blob with the digest it is named after.  \<open>X\<close> is a set of
  chunks and \<open>Y\<close> one of manifests, neither with two of the same digest: that SHA-256 has no collision among the blobs
  that occur is what the store relies on.
\<close>

fun dir_hash :: "cas_dir \<Rightarrow> string" where
  "dir_hash (Object_Dir h) = h"
| "dir_hash (Manifest_Dir h) = h"

fun known :: "byte list set \<Rightarrow> byte list set \<Rightarrow> cas_dir \<Rightarrow> byte list set" where
  "known X Y (Object_Dir h) = X"
| "known X Y (Manifest_Dir h) = Y"

definition sound :: "cas_dir set \<Rightarrow> byte list set \<Rightarrow> byte list set \<Rightarrow> cas_store \<Rightarrow> bool" where
  "sound E X Y st \<longleftrightarrow> inj_on SHA256 X \<and> inj_on SHA256 Y \<and> (\<forall>dir fs. dir \<notin> E \<longrightarrow> lookup st dir = Some fs \<longrightarrow>
     (\<exists>b\<in>known X Y dir. length b \<le> Max_Message \<and> dir_hash dir = To_Hex (SHA256 b) \<and> survives b fs))"

lemma read_sound:
  assumes "sound E X Y st" and "b \<in> known X Y dir" and "dir_hash dir = To_Hex (SHA256 b)" and "lookup st dir \<noteq> None" and "dir \<notin> E"
  shows "Read_Shards dir st = Inr b"
proof -
  obtain fs b' where fs: "lookup st dir = Some fs" "b' \<in> known X Y dir" "length b' \<le> Max_Message" "dir_hash dir = To_Hex (SHA256 b')" "survives b' fs"
    using assms(1,4,5) unfolding sound_def by blast
  have "inj_on SHA256 (known X Y dir)" using assms(1) by (cases dir) (simp_all add: sound_def)
  then have "b' = b" using fs assms(2,3) by (auto simp: To_Hex_inj dest: inj_onD)
  with fs show ?thesis by (simp add: Read_Shards_def read_files_survives Max_Message_def Max_Data_def)
qed

text \<open>A store grows: nothing that is read is lost.\<close>

definition grows :: "cas_store \<Rightarrow> cas_store \<Rightarrow> bool" where
  "grows st st' \<longleftrightarrow> (\<forall>dir. lookup st dir \<noteq> None \<longrightarrow> lookup st' dir = lookup st dir)"

lemma grows_refl [simp]: "grows st st"
  by (simp add: grows_def)

lemma grows_trans: "grows st st' \<Longrightarrow> grows st' st'' \<Longrightarrow> grows st st''"
  by (simp add: grows_def)

lemma store_sound:
  assumes "sound E X Y st" and "b \<in> known X Y dir" and "length b \<le> Max_Message" and "dir_hash dir = To_Hex (SHA256 b)"
  shows "\<exists>st'. Store_Shards dir b st = Inr st' \<and> sound E X Y st' \<and> grows st st' \<and> lookup st' dir \<noteq> None"
proof (cases "lookup st dir")
  case None
  have "data_shards b \<le> Max_Data" using assms(3) by (intro data_shards_le) (simp add: Max_Message_def Max_Data_def)
  with None have "Store_Shards dir b st = Inr (AList.update dir (shard_files b) st)" by (simp add: Store_Shards_def)
  moreover have "sound E X Y (AList.update dir (shard_files b) st)"
    using assms survives_shard_files [of b] by (auto simp: sound_def update_conv')
  ultimately show ?thesis using None by (auto simp: grows_def update_conv')
next
  case (Some fs)
  with assms(1) show ?thesis by (simp add: Store_Shards_def)
qed

lemma store_chunks_sound:
  assumes "sound E X Y st" and "\<And>c. c \<in> set cs \<Longrightarrow> f c \<in> X \<and> length (f c) \<le> Max_Message"
  shows "\<exists>st'. store_chunks f cs st = (Inr (), st') \<and> sound E X Y st' \<and> grows st st' \<and>
     (\<forall>c\<in>set cs. lookup st' (Object_Dir (To_Hex (SHA256 (f c)))) \<noteq> None)"
  using assms
proof (induction cs arbitrary: st)
  case (Cons c cs)
  obtain st1 where 1: "Store_Shards (Object_Dir (To_Hex (SHA256 (f c)))) (f c) st = Inr st1" "sound E X Y st1" "grows st st1"
    "lookup st1 (Object_Dir (To_Hex (SHA256 (f c)))) \<noteq> None"
    using store_sound [of E X Y st "f c" "Object_Dir (To_Hex (SHA256 (f c)))"] Cons.prems by auto
  from Cons.IH [OF 1(2)] Cons.prems(2) obtain st2 where 2: "store_chunks f cs st1 = (Inr (), st2)" "sound E X Y st2" "grows st1 st2"
    "\<forall>c\<in>set cs. lookup st2 (Object_Dir (To_Hex (SHA256 (f c)))) \<noteq> None" by auto
  from 1 2 show ?case by (auto simp: grows_def intro: grows_trans)
qed simp

text \<open>A tag says nothing about the blob.\<close>

lemma survives_Tag [simp]: "survives b (AList.update Tag x fs) = survives b fs"
  by (simp add: survives_def damage_shows_def intact_def update_conv')

lemma Write_Tag:
  assumes "sound E X Y st" and "lookup st dir = Some fs"
  shows "sound E X Y (Write_File dir Tag x st)" and "lookup (Write_File dir Tag x st) dir = Some (AList.update Tag x fs)"
    and "d \<noteq> dir \<Longrightarrow> lookup (Write_File dir Tag x st) d = lookup st d"
proof -
  have "\<exists>b\<in>known X Y d. length b \<le> Max_Message \<and> dir_hash d = To_Hex (SHA256 b) \<and> survives b gs"
    if "lookup (Write_File dir Tag x st) d = Some gs" "d \<notin> E" for d gs
  proof (cases "d = dir")
    case True
    with that assms obtain b where "b \<in> known X Y dir" "length b \<le> Max_Message" "dir_hash dir = To_Hex (SHA256 b)" "survives b fs"
      unfolding sound_def by blast
    with that True assms(2) show ?thesis by (auto simp: Write_File_def update_conv')
  next
    case False
    with that have "lookup st d = Some gs" by (simp add: Write_File_def update_conv')
    with assms(1) that(2) show ?thesis unfolding sound_def by blast
  qed
  then show "sound E X Y (Write_File dir Tag x st)" using assms(1) by (simp add: sound_def)
qed (simp_all add: Write_File_def update_conv' assms(2))

section \<open>Storing an object\<close>

text \<open>The pieces of an object: its payload, chunks and manifest.\<close>

definition put_payload :: "cas_env \<Rightarrow> byte list \<Rightarrow> byte list" where
  "put_payload env data = snd (compresses env data)"

definition put_chunk :: "cas_env \<Rightarrow> byte list \<Rightarrow> byte list \<Rightarrow> nat \<Rightarrow> byte list" where
  "put_chunk env key data = cipher_chunk (Subkey key Enc_Label) (Derive_Nonce (Subkey key Enc_Label) (put_payload env data))
     (put_payload env data)"

definition put_manifest :: "cas_env \<Rightarrow> byte list \<Rightarrow> byte list \<Rightarrow> byte list" where
  "put_manifest env key data = manifest_of (length (put_payload env data)) (length data) (fst (compresses env data))
     (Derive_Nonce (Subkey key Enc_Label) (put_payload env data))
     (map (\<lambda>c. SHA256 (put_chunk env key data c)) [0..<chunk_count (length (put_payload env data))])"

definition put_chunks :: "cas_env \<Rightarrow> byte list \<Rightarrow> byte list \<Rightarrow> byte list set" where
  "put_chunks env key data = put_chunk env key data ` {..<chunk_count (length (put_payload env data))}"

lemma length_put_chunk: "length (put_chunk env key data c) = length (chunk (put_payload env data) c)"
  by (simp add: put_chunk_def cipher_chunk_def)

lemma length_chunk: "length (chunk payload c) \<le> Max_Message"
  by (simp add: chunk_def Max_Message_def)

lemma length_put_manifest: "length (put_manifest env key data) = Hdr + chunk_count (length (put_payload env data)) * 32"
  using length_pieces [of "[0..<chunk_count (length (put_payload env data))]" "\<lambda>c. SHA256 (put_chunk env key data c)" 32]
  by (simp add: put_manifest_def manifest_of_def)

text \<open>When the object has an admissible size \<open>Put\<close> succeeds, and then the pieces are in the store.\<close>

definition admissible :: "cas_env \<Rightarrow> byte list \<Rightarrow> bool" where
  "admissible env data \<longleftrightarrow> length data \<le> Natural_Last \<and> length (put_payload env data) + Chunk_Size \<le> Natural_Last \<and>
     Hdr + chunk_count (length (put_payload env data)) * 32 \<le> Max_Message"

definition has_pieces :: "cas_env \<Rightarrow> byte list \<Rightarrow> byte list \<Rightarrow> cas_store \<Rightarrow> bool" where
  "has_pieces env key data st \<longleftrightarrow> lookup st (Manifest_Dir (To_Hex (SHA256 (put_manifest env key data)))) \<noteq> None \<and>
     (\<forall>c<chunk_count (length (put_payload env data)). lookup st (Object_Dir (To_Hex (SHA256 (put_chunk env key data c)))) \<noteq> None)"

definition put_tag :: "cas_env \<Rightarrow> byte list \<Rightarrow> byte list \<Rightarrow> byte list" where
  "put_tag env key data = Object_Tag (Subkey key Mac_Label) (SHA256 (put_manifest env key data))"

lemma Put_eq:
  "Put env key data st =
    (let n = chunk_count (length (put_payload env data)); hex = To_Hex (SHA256 (put_manifest env key data)) in
     if length data > Natural_Last \<or> length (put_payload env data) + Chunk_Size > Natural_Last then (Inl Constraint_Error, st)
     else if Hdr + n * 32 > Max_Message then (Inl Object_Too_Large, st)
     else case store_chunks (put_chunk env key data) (if n \<le> 3 then [0..<n] else worker_order env n) st of
       (Inl e, st1) \<Rightarrow> (Inl e, st1)
     | (Inr _, st1) \<Rightarrow> (case Store_Shards (Manifest_Dir hex) (put_manifest env key data) st1 of
           Inl e \<Rightarrow> (Inl e, st1)
         | Inr st2 \<Rightarrow> (Inr hex, Write_File (Manifest_Dir hex) Tag (put_tag env key data) st2)))"
  unfolding Put_def Let_def put_payload_def put_chunk_def put_manifest_def put_tag_def
  by (cases "compresses env data") (simp only: prod.case fst_conv snd_conv)

lemma Put_sound:
  assumes "sound E X Y st" and "put_chunks env key data \<subseteq> X" and "put_manifest env key data \<in> Y" and "\<And>n. set (worker_order env n) = {..<n}" and "admissible env data"
  shows "\<exists>st1. Put env key data st = (Inr (To_Hex (SHA256 (put_manifest env key data))),
       Write_File (Manifest_Dir (To_Hex (SHA256 (put_manifest env key data)))) Tag (put_tag env key data) st1) \<and>
     sound E X Y st1 \<and> grows st st1 \<and> has_pieces env key data st1"
proof -
  let ?n = "chunk_count (length (put_payload env data))"
  let ?cs = "if ?n \<le> 3 then [0..<?n] else worker_order env ?n"
  have cs: "set ?cs = {..<?n}" using assms(4) by auto
  have blobs: "put_chunk env key data c \<in> X \<and> length (put_chunk env key data c) \<le> Max_Message" if "c \<in> set ?cs" for c
    using that assms(2) length_chunk unfolding cs by (auto simp: put_chunks_def length_put_chunk)
  obtain st1 where st1: "store_chunks (put_chunk env key data) ?cs st = (Inr (), st1)" "sound E X Y st1" "grows st st1"
    "\<forall>c\<in>set ?cs. lookup st1 (Object_Dir (To_Hex (SHA256 (put_chunk env key data c)))) \<noteq> None"
    using store_chunks_sound [OF assms(1), of ?cs "put_chunk env key data"] blobs by blast
  let ?m = "put_manifest env key data"
  obtain st2 where st2: "Store_Shards (Manifest_Dir (To_Hex (SHA256 ?m))) ?m st1 = Inr st2" "sound E X Y st2" "grows st1 st2"
    "lookup st2 (Manifest_Dir (To_Hex (SHA256 ?m))) \<noteq> None"
    using store_sound [OF st1(2), of ?m "Manifest_Dir (To_Hex (SHA256 ?m))"] assms(3,5)
    by (auto simp: length_put_manifest admissible_def)
  have "Put env key data st = (Inr (To_Hex (SHA256 ?m)), Write_File (Manifest_Dir (To_Hex (SHA256 ?m))) Tag (put_tag env key data) st2)"
    using assms(5) unfolding Put_eq Let_def st1(1) admissible_def by (simp add: st2(1))
  moreover have "has_pieces env key data st2" using st1(4) st2(3,4) cs by (auto simp: has_pieces_def grows_def)
  ultimately show ?thesis using st1(3) st2(2,3) grows_trans by blast
qed

section \<open>Reading it back\<close>

lemma nth_put_manifest:
  "Get_U64 (put_manifest env key data) 0 = of_nat (length (put_payload env data))"
  "put_manifest env key data ! 16 = (if fst (compresses env data) then 1 else 0)"
  "take 12 (drop Nonce_Off (put_manifest env key data)) = Derive_Nonce (Subkey key Enc_Label) (put_payload env data)"
  unfolding put_manifest_def manifest_of_def by (rule Get_U64_be64) (simp_all add: nth_append)

lemma chunk_digest_put:
  assumes "c < chunk_count (length (put_payload env data))"
  shows "chunk_digest (put_manifest env key data) c = SHA256 (put_chunk env key data c)"
proof -
  have "drop (Hdr + c * 32) (put_manifest env key data) =
      drop (c * 32) (concat (map (\<lambda>c. SHA256 (put_chunk env key data c)) [0..<chunk_count (length (put_payload env data))]))"
    by (simp add: put_manifest_def manifest_of_def drop_Cons')
  then show ?thesis
    using nth_piece [of "[0..<chunk_count (length (put_payload env data))]" "\<lambda>c. SHA256 (put_chunk env key data c)" 32 c] assms
    by (simp add: chunk_digest_def)
qed

lemma load_chunks_ok:
  assumes "\<And>c. c \<in> set cs \<Longrightarrow> Hdr + c * 32 + 32 \<le> length mb \<and> chunk_digest mb c = SHA256 (f c) \<and>
      Read_Shards (Object_Dir (To_Hex (SHA256 (f c)))) st = Inr (f c)"
    and "pos + length (concat (map f cs)) \<le> p_len"
  shows "load_chunks mb dec (Some p_len) st cs pos = Inr (concat (map (\<lambda>c. dec c (f c)) cs))"
  using assms by (induction cs arbitrary: pos) (auto simp: not_less)

lemma compresses_inflates:
  assumes "\<And>x. inflate env (deflate env x) = Inr x" and "fst (compresses env data)"
  shows "inflate env (put_payload env data) = Inr data"
  using assms by (auto simp: compresses_def Let_def put_payload_def min_def split: if_splits)

lemma not_compresses: "\<not> fst (compresses env data) \<Longrightarrow> put_payload env data = data"
  unfolding compresses_def Let_def put_payload_def by (simp only: fst_conv snd_conv if_False)

lemma Get_pieces:
  assumes "sound {} X Y st" and "put_chunks env key data \<subseteq> X" and "put_manifest env key data \<in> Y" and "admissible env data" and "has_pieces env key data st"
    and "\<And>x. inflate env (deflate env x) = Inr x"
    and "lookup st (Manifest_Dir (To_Hex (SHA256 (put_manifest env key data)))) = Some fs" and "lookup fs Tag = Some (put_tag env key data)"
  shows "Get env key (To_Hex (SHA256 (put_manifest env key data))) st = Inr data"
proof -
  let ?m = "put_manifest env key data" and ?p = "put_payload env data"
  let ?n = "chunk_count (length ?p)"
  have mb: "Read_Shards (Manifest_Dir (To_Hex (SHA256 ?m))) st = Inr ?m"
    by (rule read_sound [OF assms(1)]) (use assms(3,7) in auto)
  have tag: "check_tag (Subkey key Mac_Label) (To_Hex (SHA256 ?m)) (SHA256 ?m) st = Inr ()"
    using assms(7,8) by (simp add: check_tag_def put_tag_def Object_Tag_def)
  have len: "unat (of_nat (length ?p) :: 64 word) = length ?p"
    using assms(4) by (simp add: admissible_def unat_of_nat Natural_Last_def)
  have "load_chunks ?m (\<lambda>c. XCrypt (Subkey key Enc_Label) (Derive_Nonce (Subkey key Enc_Label) ?p) (Counter_For c)) (Some (length ?p)) st [0..<?n] 0 =
      Inr (concat (map (\<lambda>c. XCrypt (Subkey key Enc_Label) (Derive_Nonce (Subkey key Enc_Label) ?p) (Counter_For c) (put_chunk env key data c)) [0..<?n]))"
  proof (rule load_chunks_ok)
    fix c
    assume "c \<in> set [0..<?n]"
    then have c: "c < ?n" by simp
    have "Read_Shards (Object_Dir (To_Hex (SHA256 (put_chunk env key data c)))) st = Inr (put_chunk env key data c)"
      by (rule read_sound [OF assms(1)]) (use assms(2,5) c in \<open>auto simp: put_chunks_def has_pieces_def\<close>)
    with c show "Hdr + c * 32 + 32 \<le> length ?m \<and> chunk_digest ?m c = SHA256 (put_chunk env key data c) \<and>
        Read_Shards (Object_Dir (To_Hex (SHA256 (put_chunk env key data c)))) st = Inr (put_chunk env key data c)"
      by (simp add: length_put_manifest chunk_digest_put)
  next
    have "length (concat (map (put_chunk env key data) [0..<?n])) = length (concat (map (chunk ?p) [0..<?n]))"
      by (simp add: length_concat comp_def length_put_chunk)
    then show "0 + length (concat (map (put_chunk env key data) [0..<?n])) \<le> length ?p" by (simp add: concat_chunks)
  qed
  also have "\<dots> = Inr ?p" by (simp add: put_chunk_def cipher_chunk_def concat_chunks)
  finally have "load_chunks ?m (\<lambda>c. XCrypt (Subkey key Enc_Label) (Derive_Nonce (Subkey key Enc_Label) ?p) (Counter_For c)) (Some (length ?p)) st
      [0..<?n] 0 = Inr ?p" .
  with mb tag len assms(4) show ?thesis
    using compresses_inflates [OF assms(6)] not_compresses [of env data]
    by (auto simp: Get_def Load_Object_def Let_def nth_put_manifest length_put_manifest admissible_def)
qed

text \<open>What can be read stays readable when directories are added and when tags are written.\<close>

lemma valid_shards_Tag: "valid_shards idx (AList.update Tag x fs) ss = valid_shards idx fs ss"
  by (induction ss) (auto simp: update_conv' split: option.split)

lemma recover_block_Tag: "recover_block K M idx (AList.update Tag x fs) = recover_block K M idx fs"
  by (simp add: recover_block_def valid_shards_Tag)

lemma read_files_Tag [simp]: "read_files (AList.update Tag x fs) = read_files fs"
  unfolding read_files_def read_index_def recover_block_Tag by (simp add: update_conv')

lemma load_chunks_transfer:
  assumes "\<And>dir b. Read_Shards dir st = Inr b \<Longrightarrow> Read_Shards dir st' = Inr b"
  shows "load_chunks mb dec room st cs pos = Inr x \<Longrightarrow> load_chunks mb dec room st' cs pos = Inr x"
proof (induction cs arbitrary: pos x)
  case (Cons c cs)
  then obtain b where b: "Read_Shards (Object_Dir (To_Hex (chunk_digest mb c))) st = Inr b"
    by (auto split: if_splits sum.splits)
  with Cons.prems obtain y where y: "load_chunks mb dec room st cs (pos + length b) = Inr y"
    by (cases "load_chunks mb dec room st cs (pos + length b)") (auto split: if_splits)
  from Cons.prems b y assms [OF b] Cons.IH [OF y] show ?case by (simp split: if_splits)
qed simp

lemma Load_transfer:
  assumes "\<And>dir b. Read_Shards dir st = Inr b \<Longrightarrow> Read_Shards dir st' = Inr b"
    and "\<And>mk md. length md = 32 \<Longrightarrow> To_Hex md = oid \<Longrightarrow> mk = Subkey key Mac_Label \<Longrightarrow> check_tag mk oid md st = Inr () \<Longrightarrow> check_tag mk oid md st' = Inr ()"
    and "Load_Object env key oid reassemble st = Inr x"
  shows "Load_Object env key oid reassemble st' = Inr x"
proof -
  obtain mb where mb: "Read_Shards (Manifest_Dir oid) st = Inr mb" and hex: "To_Hex (SHA256 mb) = oid"
    using assms(3) by (auto simp: Load_Object_def Let_def split: sum.splits if_splits)
  let ?load = "\<lambda>room st. load_chunks mb (\<lambda>c. XCrypt (Subkey key Enc_Label) (take 12 (drop Nonce_Off mb)) (Counter_For c)) room st
    [0..<chunk_count (unat (Get_U64 mb 0))] 0"
  show ?thesis
  proof (cases reassemble)
    case True
    have tag: "check_tag (Subkey key Mac_Label) oid (SHA256 mb) st = Inr ()"
      using assms(3) mb hex True by (auto simp: Load_Object_def Let_def split: sum.splits)
    then have "check_tag (Subkey key Mac_Label) oid (SHA256 mb) st' = Inr ()" using assms(2) hex by simp
    moreover obtain pl where pl: "?load (Some (unat (Get_U64 mb 0))) st = Inr pl"
      using assms(3) mb hex tag True by (auto simp: Load_Object_def Let_def split: sum.splits if_splits)
    ultimately show ?thesis
      using assms(3) mb hex tag True assms(1) [OF mb] pl load_chunks_transfer [OF assms(1) pl]
      by (simp add: Load_Object_def Let_def split: if_splits)
  next
    case False
    obtain pl where pl: "?load None st = Inr pl"
      using assms(3) mb hex False by (auto simp: Load_Object_def Let_def split: sum.splits if_splits)
    show ?thesis
      using assms(3) mb hex False assms(1) [OF mb] pl load_chunks_transfer [OF assms(1) pl]
      by (simp add: Load_Object_def Let_def split: if_splits)
  qed
qed

lemma length_Object_Tag [simp]: "length (Object_Tag mk md) = 32"
  by (simp add: Object_Tag_def)

lemma Get_grows:
  assumes "grows st st1" and "lookup st1 (Manifest_Dir hex) = Some fs" and "Get env key oid st = Inr x"
    and "length md = 32" and "hex = To_Hex md"
  shows "Get env key oid (Write_File (Manifest_Dir hex) Tag (Object_Tag (Subkey key Mac_Label) md) st1) = Inr x"
proof -
  let ?st = "Write_File (Manifest_Dir hex) Tag (Object_Tag (Subkey key Mac_Label) md) st1"
  have look: "lookup ?st d = (if d = Manifest_Dir hex then Some (AList.update Tag (Object_Tag (Subkey key Mac_Label) md) fs) else lookup st1 d)" for d
    using assms(2) by (simp add: Write_File_def update_conv')
  have "Read_Shards dir ?st = Inr b" if "Read_Shards dir st = Inr b" for dir b
    using that assms(1,2) by (auto simp: Read_Shards_def look grows_def split: option.splits)
  moreover have "check_tag mk oid md' ?st = Inr ()" if "check_tag mk oid md' st = Inr ()" "length md' = 32" "To_Hex md' = oid" "mk = Subkey key Mac_Label"
    for mk md'
  proof (cases "oid = hex")
    case True
    with that assms(4,5) have "md' = md" by (simp add: To_Hex_inj)
    with True that show ?thesis by (simp add: check_tag_def look update_conv')
  next
    case False
    from that obtain gs where "lookup st (Manifest_Dir oid) = Some gs" by (auto simp: check_tag_def split: option.splits)
    moreover from this assms(1) have "lookup st1 (Manifest_Dir oid) = Some gs" by (simp add: grows_def)
    ultimately show ?thesis using that(1) False by (simp add: check_tag_def look)
  qed
  ultimately show ?thesis using assms(3) unfolding Get_def by (blast intro: Load_transfer)
qed

text \<open>What a successful read has seen.\<close>

lemma load_chunks_read:
  "load_chunks mb dec room st cs pos = Inr x \<Longrightarrow> c \<in> set cs \<Longrightarrow>
     \<exists>b. Read_Shards (Object_Dir (To_Hex (chunk_digest mb c))) st = Inr b \<and> SHA256 b = chunk_digest mb c"
proof (induction cs arbitrary: pos x)
  case (Cons a cs)
  then obtain b where b: "Read_Shards (Object_Dir (To_Hex (chunk_digest mb a))) st = Inr b" "SHA256 b = chunk_digest mb a"
    by (auto split: if_splits sum.splits)
  with Cons.prems(1) obtain y where "load_chunks mb dec room st cs (pos + length b) = Inr y"
    by (cases "load_chunks mb dec room st cs (pos + length b)") (auto split: if_splits)
  with Cons b show ?case by auto
qed simp

lemma Get_read:
  assumes "Get env key oid st = Inr x"
  shows "\<exists>mb pl. Read_Shards (Manifest_Dir oid) st = Inr mb \<and> To_Hex (SHA256 mb) = oid \<and> check_tag (Subkey key Mac_Label) oid (SHA256 mb) st = Inr () \<and>
     load_chunks mb (\<lambda>c. XCrypt (Subkey key Enc_Label) (take 12 (drop Nonce_Off mb)) (Counter_For c)) (Some (unat (Get_U64 mb 0))) st
       [0..<chunk_count (unat (Get_U64 mb 0))] 0 = Inr pl \<and>
     (let payload = pl @ take (unat (Get_U64 mb 0) - length pl) (uninit_bytes env (unat (Get_U64 mb 0) - length pl))
      in (if mb ! 16 = 1 then inflate env payload else Inr payload) = Inr x)"
  using assms by (auto simp: Get_def Load_Object_def Let_def split: sum.splits if_splits)

text \<open>Everything together.\<close>

lemma read_known:
  assumes "sound {} X Y st" and "Read_Shards dir st = Inr b"
  shows "b \<in> known X Y dir"
proof -
  obtain fs where fs: "lookup st dir = Some fs" using assms(2) by (auto simp: Read_Shards_def split: option.splits)
  then obtain b' where "b' \<in> known X Y dir" "length b' \<le> Max_Message" "survives b' fs" using assms(1) unfolding sound_def by blast
  with assms(2) fs show ?thesis by (simp add: Read_Shards_def read_files_survives Max_Message_def Max_Data_def)
qed

lemma Put_sound_Get:
  assumes "sound {} X Y st" and "put_chunks env key data \<subseteq> X" and "put_manifest env key data \<in> Y"
    and "\<And>n. set (worker_order env n) = {..<n}" and "admissible env data" and "\<And>x. inflate env (deflate env x) = Inr x"
  shows "\<exists>oid st'. Put env key data st = (Inr oid, st') \<and> length oid = 64 \<and> Get env key oid st' = Inr data \<and> sound {} X Y st' \<and>
      (\<forall>j x. Get env key j st = Inr x \<longrightarrow> Get env key j st' = Inr x)"
proof -
  let ?m = "put_manifest env key data"
  let ?dir = "Manifest_Dir (To_Hex (SHA256 ?m))"
  obtain st1 where st1: "Put env key data st = (Inr (To_Hex (SHA256 ?m)), Write_File ?dir Tag (put_tag env key data) st1)"
    "sound {} X Y st1" "grows st st1" "has_pieces env key data st1"
    using Put_sound [OF assms(1-5)] by blast
  let ?st = "Write_File ?dir Tag (put_tag env key data) st1"
  obtain fs where fs: "lookup st1 ?dir = Some fs" using st1(4) by (auto simp: has_pieces_def)
  note w = Write_Tag [OF st1(2) fs, where x = "put_tag env key data"]
  have "has_pieces env key data ?st" using st1(4) w by (auto simp: has_pieces_def)
  then have "Get env key (To_Hex (SHA256 ?m)) ?st = Inr data"
    by (rule Get_pieces [OF w(1) assms(2,3,5) _ assms(6) w(2)]) (simp add: update_conv')
  moreover have "\<forall>j x. Get env key j st = Inr x \<longrightarrow> Get env key j ?st = Inr x"
    using Get_grows [OF st1(3) fs, of env key _ _ "SHA256 ?m"] by (simp add: put_tag_def)
  ultimately show ?thesis using st1(1) w(1) by (auto simp: length_To_Hex)
qed

section \<open>A store for evaluation\<close>

text \<open>A compressor that never helps, and workers that finish in order.\<close>

definition plain_cas :: cas_env where
  "plain_cas = \<lparr>deflate = (\<lambda>x. x @ [0]), inflate = (\<lambda>x. Inr (butlast x)), worker_order = (\<lambda>n. [0..<n]), uninit_bytes = (\<lambda>n. replicate n 0)\<rparr>"

definition sample_key :: "byte list" where
  "sample_key = replicate 32 7"

lemma plain_cas_ok: "set (worker_order plain_cas n) = {..<n}" "inflate plain_cas (deflate plain_cas x) = Inr x"
  by (auto simp: plain_cas_def)

lemma plain_payload: "put_payload plain_cas [1, 2, 3] = [1, 2, 3]"
  by (simp add: put_payload_def compresses_def plain_cas_def)

lemma plain_admissible: "admissible plain_cas [1, 2, 3]"
  by (simp add: admissible_def plain_payload Natural_Last_def Max_Message_def chunk_count_def)

lemma plain_sound: "sound {} (put_chunks plain_cas key [1, 2, 3]) {put_manifest plain_cas key [1, 2, 3]} []"
  by (simp add: sound_def put_chunks_def plain_payload chunk_count_def lessThan_Suc)

section \<open>Properties\<close>

text \<open>
  C25: What is stored is read back, and nothing else is lost.  On a store whose directories hold the blobs they are named
  after, if SHA-256 has no collision among its chunks and those of the object, nor among the manifests, if the
  compressor is lossless, and whatever order the workers finish in: an object of admissible size is stored under an id of 64 characters and
  \<open>Get\<close> with the same key returns exactly its bytes; every object that could be read before reads the same, and the
  store is sound again.  Any other object is refused and the store left as it was.
\<close>

theorem Put_Get:
  assumes "sound {} X Y st" and "put_chunks env key data \<subseteq> X" and "put_manifest env key data \<in> Y"
    and "\<And>n. set (worker_order env n) = {..<n}" and "\<And>x. inflate env (deflate env x) = Inr x"
  shows "if admissible env data
    then \<exists>oid st'. Put env key data st = (Inr oid, st') \<and> length oid = 64 \<and> Get env key oid st' = Inr data \<and> sound {} X Y st' \<and>
      (\<forall>j x. Get env key j st = Inr x \<longrightarrow> Get env key j st' = Inr x)
    else \<exists>e. Put env key data st = (Inl e, st)"
proof (cases "admissible env data")
  case True
  then show ?thesis using Put_sound_Get [OF assms(1-4) _ assms(5)] by simp
next
  case False
  then show ?thesis unfolding Put_eq Let_def admissible_def by (auto simp: not_le)
qed

theorem Put_Get_witness:
  "\<exists>oid st. Put plain_cas sample_key [1, 2, 3] [] = (Inr oid, st) \<and> Get plain_cas sample_key oid st = Inr [1, 2, 3]"
  using Put_Get [OF plain_sound order.refl _ plain_cas_ok, of "sample_key"] plain_admissible by auto



text \<open>
  C31: The chunks of an object are encrypted with disjoint stretches of one key stream.  The cipher texts that \<open>Put\<close> stores, chunk by chunk and in
  any order, each with its own counter, are together what encrypting the whole payload at once from counter zero gives, for
  every key, nonce and payload; so no part of the key stream is used for two chunks.
\<close>

theorem chunks_one_stream:
  "concat (map (cipher_chunk ek nonce payload) [0..<chunk_count (length payload)]) = XCrypt ek nonce 0 payload"
proof -
  have "concat (map (cipher_chunk ek nonce payload) [0..<n]) = XCrypt ek nonce 0 (take (n * Chunk_Size) payload)" for n
  proof (induction n)
    case (Suc n)
    show ?case
    proof (cases "n * Chunk_Size \<le> length payload")
      case True
      then have "XCrypt ek nonce 0 (take (n * Chunk_Size) payload @ chunk payload n) =
          XCrypt ek nonce 0 (take (n * Chunk_Size) payload) @ XCrypt ek nonce (0 + of_nat (n * 128)) (chunk payload n)"
        by (intro XCrypt_append) simp
      moreover have "take (n * Chunk_Size) payload @ chunk payload n = take (Suc n * Chunk_Size) payload"
        by (simp add: chunk_def flip: take_add) (simp add: add.commute)
      ultimately show ?thesis using Suc by (simp add: cipher_chunk_def Counter_For_def)
    next
      case False
      then have "chunk payload n = []" by (simp add: chunk_def)
      with False Suc show ?thesis by (simp add: cipher_chunk_def XCrypt_stream)
    qed
  qed (simp add: XCrypt_stream)
  moreover have "length payload \<le> chunk_count (length payload) * Chunk_Size" by (simp add: chunk_count_def)
  ultimately show ?thesis by simp
qed

text \<open>
  C39: A chunk that was only half written spoils every later object that contains it.  If a crash has left the directory of a
  chunk without its index, which is written last, then storing an object with that chunk succeeds, since the directory exists, and
  every read of the id it returned fails.
\<close>

theorem torn_chunk_unreadable:
  assumes "sound {} X Y st" and "put_chunks env key data \<subseteq> X" and "put_manifest env key data \<in> Y"
    and "\<And>n. set (worker_order env n) = {..<n}" and "admissible env data"
    and "c < chunk_count (length (put_payload env data))" and "n \<le> data_shards (put_chunk env key data c) + EC_M"
  shows "\<exists>oid st' e. Put env key data (AList.update (Object_Dir (To_Hex (SHA256 (put_chunk env key data c))))
       (take n (shard_files (put_chunk env key data c))) st) = (Inr oid, st') \<and> Get env key oid st' = Inl e"
proof -
  let ?b = "put_chunk env key data c" and ?m = "put_manifest env key data"
  let ?d = "Object_Dir (To_Hex (SHA256 ?b))" and ?md = "Manifest_Dir (To_Hex (SHA256 ?m))"
  let ?st = "AList.update ?d (take n (shard_files ?b)) st"
  have "sound {?d} X Y ?st" using assms(1) by (auto simp: sound_def update_conv')
  from Put_sound [OF this assms(2-5)] obtain st1 where st1:
    "Put env key data ?st = (Inr (To_Hex (SHA256 ?m)), Write_File ?md Tag (put_tag env key data) st1)"
    "sound {?d} X Y st1" "grows ?st st1" "has_pieces env key data st1" by blast
  let ?st' = "Write_File ?md Tag (put_tag env key data) st1"
  obtain fs where fs: "lookup st1 ?md = Some fs" using st1(4) by (auto simp: has_pieces_def)
  have mb: "Read_Shards ?md ?st' = Inr ?m"
    by (rule read_sound [OF Write_Tag(1) [OF st1(2) fs]]) (use assms(3) Write_Tag(2) [OF st1(2) fs] in auto)
  have "lookup (map (\<lambda>s. (Shard s, f s)) ss) Idx = None" for f :: "nat \<Rightarrow> byte list" and ss by (induction ss) simp_all
  then have "lookup (take n (shard_files ?b)) Idx = None"
    using assms(7) by (simp add: shard_files_def take_map del: upt_Suc)
  moreover have "lookup ?st' ?d = Some (take n (shard_files ?b))"
    using Write_Tag(3) [OF st1(2) fs, of ?d] st1(3) by (simp add: grows_def update_conv')
  ultimately have torn: "Read_Shards ?d ?st' = Inl Name_Error" by (simp add: Read_Shards_def read_files_def read_index_def)
  have "\<nexists>x. Get env key (To_Hex (SHA256 ?m)) ?st' = Inr x"
  proof
    assume "\<exists>x. Get env key (To_Hex (SHA256 ?m)) ?st' = Inr x"
    then obtain x where "Get env key (To_Hex (SHA256 ?m)) ?st' = Inr x" ..
    from Get_read [OF this] mb obtain pl where pl: "load_chunks ?m (\<lambda>c. XCrypt (Subkey key Enc_Label) (take 12 (drop Nonce_Off ?m)) (Counter_For c))
        (Some (unat (Get_U64 ?m 0))) ?st' [0..<chunk_count (unat (Get_U64 ?m 0))] 0 = Inr pl"
      by auto
    have "c \<in> set [0..<chunk_count (unat (Get_U64 ?m 0))]"
      using assms(5,6) by (simp add: nth_put_manifest(1) admissible_def unat_of_nat Natural_Last_def)
    from load_chunks_read [OF pl this] torn show False by (simp add: chunk_digest_put [OF assms(6)])
  qed
  then obtain e where "Get env key (To_Hex (SHA256 ?m)) ?st' = Inl e" by (metis sum.exhaust)
  with st1(1) show ?thesis by blast
qed

theorem torn_chunk_unreadable_witness:
  "\<exists>oid st e. Put plain_cas sample_key [1, 2, 3]
       [(Object_Dir (To_Hex (SHA256 (put_chunk plain_cas sample_key [1, 2, 3] 0))),
         take 1 (shard_files (put_chunk plain_cas sample_key [1, 2, 3] 0)))] = (Inr oid, st) \<and>
     Get plain_cas sample_key oid st = Inl e"
proof -
  have "0 < chunk_count (length (put_payload plain_cas [1, 2, 3]))" by (simp add: plain_payload chunk_count_def)
  moreover have "1 \<le> data_shards (put_chunk plain_cas sample_key [1, 2, 3] 0) + EC_M" by simp
  ultimately show ?thesis
    using torn_chunk_unreadable [OF plain_sound order.refl insertI1 plain_cas_ok(1) plain_admissible]
    by (simp only: AList.update.simps)
qed

end
