(* ===== verification/Cas_Maintenance.thy ===== *)
theory Cas_Maintenance
  imports Cas
begin

text \<open>
  Maintenance of the content-addressed store (\<open>src/storage/src/dezhan-storage-cas.adb\<close>): \<open>Repair\<close>, which restores the redundancy of an
  object's blobs in place, and \<open>Collect_Garbage\<close>, which marks what the live objects reach and deletes the other directories.
\<close>

section \<open>Definitions\<close>

record Repair_Result =
  Recoverable :: bool
  Shards_Repaired :: nat

text \<open>The loop over the chunks; an exception ends it, with what was counted so far.\<close>

fun repair_chunks :: "byte list \<Rightarrow> nat list \<Rightarrow> Repair_Result \<Rightarrow> cas_store \<Rightarrow> Repair_Result \<times> cas_store" where
  "repair_chunks mb [] res st = (res, st)"
| "repair_chunks mb (c # cs) res st =
    (if length mb < Hdr + c * 32 + 32 then (res\<lparr>Recoverable := False\<rparr>, st)
     else case Repair_Shards (Object_Dir (To_Hex (chunk_digest mb c))) st of
       Inl _ \<Rightarrow> (res\<lparr>Recoverable := False\<rparr>, st)
     | Inr (rep, ok, st') \<Rightarrow> repair_chunks mb cs
         \<lparr>Recoverable = (Recoverable res \<and> ok), Shards_Repaired = Shards_Repaired res + rep\<rparr> st')"

definition Repair :: "string \<Rightarrow> cas_store \<Rightarrow> Repair_Result \<times> cas_store" where
  "Repair oid st = (case Repair_Shards (Manifest_Dir oid) st of
       Inl _ \<Rightarrow> (\<lparr>Recoverable = False, Shards_Repaired = 0\<rparr>, st)
     | Inr (rep, ok, st1) \<Rightarrow>
        if \<not> ok then (\<lparr>Recoverable = False, Shards_Repaired = rep\<rparr>, st1)
        else (case Read_Shards (Manifest_Dir oid) st1 of
           Inl _ \<Rightarrow> (\<lparr>Recoverable = False, Shards_Repaired = rep\<rparr>, st1)
         | Inr mb \<Rightarrow>
            (let len = unat (Get_U64 mb 0) in
             if length mb < 8 \<or> len + Chunk_Size > Natural_Last then (\<lparr>Recoverable = False, Shards_Repaired = rep\<rparr>, st1)
             else repair_chunks mb [0..<chunk_count len] \<lparr>Recoverable = True, Shards_Repaired = rep\<rparr> st1)))"

text \<open>
  The chunks that marking reaches from a live manifest: all that it names, up to the end of the manifest if it is cut short, and
  none if it cannot be read.
\<close>

definition live_chunks :: "string \<Rightarrow> cas_store \<Rightarrow> string list" where
  "live_chunks oid st = (case Read_Shards (Manifest_Dir oid) st of
       Inl _ \<Rightarrow> []
     | Inr mb \<Rightarrow>
        (let len = unat (Get_U64 mb 0) in
         if length mb < 8 \<or> len + Chunk_Size > Natural_Last then []
         else map (\<lambda>c. To_Hex (chunk_digest mb c)) (takeWhile (\<lambda>c. Hdr + c * 32 + 32 \<le> length mb) [0..<chunk_count len])))"

definition Collect_Garbage :: "string list \<Rightarrow> cas_store \<Rightarrow> nat \<times> cas_store" where
  "Collect_Garbage live st =
    (let reach_c = concat (map (\<lambda>oid. live_chunks oid st) live);
         dead_m = filter (\<lambda>d. case d of Manifest_Dir h \<Rightarrow> h \<notin> set live | Object_Dir _ \<Rightarrow> False) (keys_of st);
         dead_c = filter (\<lambda>d. case d of Manifest_Dir _ \<Rightarrow> False | Object_Dir h \<Rightarrow> h \<notin> set reach_c) (keys_of st)
     in (length dead_m + length dead_c, fold AList.delete (dead_m @ dead_c) st))"

section \<open>Collecting garbage\<close>

definition reachable :: "string list \<Rightarrow> cas_store \<Rightarrow> cas_dir \<Rightarrow> bool" where
  "reachable live st d = (case d of
       Manifest_Dir h \<Rightarrow> h \<in> set live
     | Object_Dir h \<Rightarrow> \<exists>oid\<in>set live. h \<in> set (live_chunks oid st))"

lemma lookup_fold_delete: "lookup (fold AList.delete ks m) k = (if k \<in> set ks then None else lookup m k)"
  by (induction ks arbitrary: m) (auto simp: AList.delete_conv')

lemma fold_delete_id: "set ks \<inter> fst ` set m = {} \<Longrightarrow> fold AList.delete ks m = m"
  by (induction ks) (auto simp: delete_idem)

lemma length_filter_disj: "(\<And>x. \<not> (P x \<and> Q x)) \<Longrightarrow> length (filter P xs) + length (filter Q xs) = length (filter (\<lambda>x. P x \<or> Q x) xs)"
  by (induction xs) auto

lemma set_keys_of: "set (keys_of m) = dom (lookup m)"
  by (simp add: keys_of_def dom_map_of_conv_image_fst)

definition swept :: "string list \<Rightarrow> cas_store \<Rightarrow> cas_dir list" where
  "swept live st = filter (\<lambda>d. \<not> reachable live st d) (keys_of st)"

lemma Collect_Garbage_swept:
  "fst (Collect_Garbage live st) = length (swept live st)"
  "lookup (snd (Collect_Garbage live st)) d = (if reachable live st d then lookup st d else None)"
proof -
  let ?m = "\<lambda>d. case d of Manifest_Dir h \<Rightarrow> h \<notin> set live | Object_Dir _ \<Rightarrow> False"
  let ?c = "\<lambda>d. case d of Manifest_Dir _ \<Rightarrow> False | Object_Dir h \<Rightarrow> h \<notin> set (concat (map (\<lambda>oid. live_chunks oid st) live))"
  have 1: "(?m d \<or> ?c d) = (\<not> reachable live st d)" and 2: "\<not> (?m d \<and> ?c d)" for d by (cases d; simp add: reachable_def)+
  have sum: "length (filter ?m ds) + length (filter ?c ds) = length (filter (\<lambda>d. \<not> reachable live st d) ds)" for ds
    using length_filter_disj [of ?m ?c ds, OF 2] by (simp only: 1)
  then show "fst (Collect_Garbage live st) = length (swept live st)"
    by (simp only: Collect_Garbage_def Let_def fst_conv swept_def)
  have dead: "d \<in> set (filter ?m (keys_of st) @ filter ?c (keys_of st)) \<longleftrightarrow> lookup st d \<noteq> None \<and> \<not> reachable live st d"
    by (auto simp: set_keys_of dom_def reachable_def split: cas_dir.splits)
  show "lookup (snd (Collect_Garbage live st)) d = (if reachable live st d then lookup st d else None)"
    unfolding Collect_Garbage_def Let_def snd_conv lookup_fold_delete dead by auto
qed

lemma length_swept: "length (swept live st) = card {d. lookup st d \<noteq> None \<and> \<not> reachable live st d}"
proof -
  have "distinct (swept live st)" by (simp add: swept_def keys_of_def)
  moreover have "set (swept live st) = {d. lookup st d \<noteq> None \<and> \<not> reachable live st d}" by (auto simp: swept_def set_keys_of)
  ultimately show ?thesis using distinct_card by fastforce
qed

text \<open>A live object is read from directories that are kept.\<close>

lemma Read_Shards_cong: "lookup st' d = lookup st d \<Longrightarrow> Read_Shards d st' = Read_Shards d st"
  by (simp add: Read_Shards_def)

lemma load_chunks_cong:
  assumes "\<And>c. c \<in> set cs \<Longrightarrow> Hdr + c * 32 + 32 \<le> length mb \<Longrightarrow>
      lookup st' (Object_Dir (To_Hex (chunk_digest mb c))) = lookup st (Object_Dir (To_Hex (chunk_digest mb c)))"
  shows "load_chunks mb dec room st' cs pos = load_chunks mb dec room st cs pos"
  using assms
proof (induction cs arbitrary: pos)
  case (Cons c cs)
  have "Read_Shards (Object_Dir (To_Hex (chunk_digest mb c))) st' = Read_Shards (Object_Dir (To_Hex (chunk_digest mb c))) st"
    if "\<not> length mb < Hdr + c * 32 + 32"
    by (rule Read_Shards_cong) (use Cons.prems that in simp)
  with Cons show ?case by (auto split: sum.split)
qed simp

lemma live_chunks_all:
  assumes "Read_Shards (Manifest_Dir oid) st = Inr mb" and "8 \<le> length mb" and "unat (Get_U64 mb 0) + Chunk_Size \<le> Natural_Last"
    and "c < chunk_count (unat (Get_U64 mb 0))" and "Hdr + c * 32 + 32 \<le> length mb"
  shows "To_Hex (chunk_digest mb c) \<in> set (live_chunks oid st)"
proof -
  have prefix: "c \<in> set (takeWhile (\<lambda>c. Hdr + c * 32 + 32 \<le> length mb) [0..<n])" if "c < n" for n
    using that
  proof (induction n)
    case (Suc n)
    show ?case
    proof (cases "c < n")
      case True
      with Suc show ?thesis by (simp add: takeWhile_append)
    next
      case False
      with Suc.prems assms(5) show ?thesis by (simp add: takeWhile_append)
    qed
  qed simp
  with assms show ?thesis by (auto simp: live_chunks_def Let_def)
qed

lemma Load_Object_collected:
  assumes "oid \<in> set live"
  shows "Load_Object env key oid reassemble (snd (Collect_Garbage live st)) = Load_Object env key oid reassemble st"
proof -
  let ?st = "snd (Collect_Garbage live st)"
  have m: "lookup ?st (Manifest_Dir oid) = lookup st (Manifest_Dir oid)"
    using assms by (simp add: Collect_Garbage_swept(2) reachable_def)
  then have read: "Read_Shards (Manifest_Dir oid) ?st = Read_Shards (Manifest_Dir oid) st" by (rule Read_Shards_cong)
  have tag: "check_tag mk oid md ?st = check_tag mk oid md st" for mk md by (simp add: check_tag_def m)
  have "load_chunks mb dec room ?st [0..<chunk_count (unat (Get_U64 mb 0))] 0 = load_chunks mb dec room st [0..<chunk_count (unat (Get_U64 mb 0))] 0"
    if mb: "Read_Shards (Manifest_Dir oid) st = Inr mb" and ok: "\<not> (length mb < Hdr \<or> unat (Get_U64 mb 0) + Chunk_Size > Natural_Last)" for mb dec room
  proof (rule load_chunks_cong)
    fix c
    assume "c \<in> set [0..<chunk_count (unat (Get_U64 mb 0))]" "Hdr + c * 32 + 32 \<le> length mb"
    then have "To_Hex (chunk_digest mb c) \<in> set (live_chunks oid st)" using live_chunks_all [OF mb, of c] ok by simp
    then show "lookup ?st (Object_Dir (To_Hex (chunk_digest mb c))) = lookup st (Object_Dir (To_Hex (chunk_digest mb c)))"
      using assms by (auto simp: Collect_Garbage_swept(2) reachable_def)
  qed
  then show ?thesis unfolding Load_Object_def read tag Let_def by (auto split: sum.split)
qed

lemma live_chunks_collected: "oid \<in> set live \<Longrightarrow> live_chunks oid (snd (Collect_Garbage live st)) = live_chunks oid st"
  by (simp add: live_chunks_def Read_Shards_def Collect_Garbage_swept(2) reachable_def)

lemma Collect_Garbage_twice: "Collect_Garbage live (snd (Collect_Garbage live st)) = (0, snd (Collect_Garbage live st))"
proof -
  let ?st = "snd (Collect_Garbage live st)"
  have "reachable live ?st d = reachable live st d" for d
    by (auto simp: reachable_def live_chunks_collected split: cas_dir.split)
  then have r: "reachable live ?st d" if "lookup ?st d \<noteq> None" for d
    using that by (auto simp: Collect_Garbage_swept(2) split: if_splits)
  have "swept live ?st = []" using r by (auto simp: swept_def filter_empty_conv set_keys_of)
  then have "fst (Collect_Garbage live ?st) = 0" by (simp add: Collect_Garbage_swept(1))
  moreover from this have "snd (Collect_Garbage live ?st) = ?st" unfolding Collect_Garbage_def Let_def by simp
  ultimately show ?thesis by (simp add: prod_eq_iff)
qed

section \<open>Repairing\<close>

text \<open>
  The blobs of an object with their directories.  A store is recorded when each directory holds a known blob of its name, damaged in
  ways that show, but perhaps beyond repair.
\<close>

definition pieces :: "cas_env \<Rightarrow> byte list \<Rightarrow> byte list \<Rightarrow> (cas_dir \<times> byte list) set" where
  "pieces env key data = insert (Manifest_Dir (To_Hex (SHA256 (put_manifest env key data))), put_manifest env key data)
     ((\<lambda>b. (Object_Dir (To_Hex (SHA256 b)), b)) ` put_chunks env key data)"

definition damaged :: "byte list \<Rightarrow> cas_dir \<Rightarrow> cas_store \<Rightarrow> bool" where
  "damaged b d st \<longleftrightarrow> length b \<le> Max_Message \<and> (\<exists>fs. lookup st d = Some fs \<and> damage_shows b fs)"

definition alive :: "byte list \<Rightarrow> cas_dir \<Rightarrow> cas_store \<Rightarrow> bool" where
  "alive b d st \<longleftrightarrow> (\<exists>fs. lookup st d = Some fs \<and> survives b fs)"

definition whole :: "byte list \<Rightarrow> cas_dir \<Rightarrow> cas_store \<Rightarrow> bool" where
  "whole b d st \<longleftrightarrow> (\<exists>fs. lookup st d = Some fs \<and> damage_shows b fs \<and> intact b fs = {1..data_shards b + EC_M})"

text \<open>The shards of a blob that repair will write.\<close>

definition repairable :: "cas_store \<Rightarrow> cas_dir \<times> byte list \<Rightarrow> nat" where
  "repairable st = (\<lambda>(d, b). case lookup st d of None \<Rightarrow> 0
     | Some fs \<Rightarrow> if survives b fs then data_shards b + EC_M - card (intact b fs) else 0)"

lemma whole_alive: "whole b d st \<Longrightarrow> alive b d st"
  by (auto simp: whole_def alive_def survives_def)

lemma whole_repairable: "whole b d st \<Longrightarrow> repairable st (d, b) = 0"
  by (auto simp: whole_def repairable_def)

lemma Read_Shards_damaged: "damaged b d st \<Longrightarrow> Read_Shards d st = (if alive b d st then Inr b else Inl Corruption_Detected)"
  using read_files_survives [of b] read_files_lost [of b]
  by (auto simp: damaged_def alive_def Read_Shards_def survives_def Max_Message_def Max_Data_def)

text \<open>Two stores that are read alike.\<close>

definition tag_of :: "cas_dir \<Rightarrow> cas_store \<Rightarrow> byte list option" where
  "tag_of d st = (case lookup st d of None \<Rightarrow> None | Some fs \<Rightarrow> lookup fs Tag)"

definition same_reads :: "cas_store \<Rightarrow> cas_store \<Rightarrow> bool" where
  "same_reads st st' \<longleftrightarrow> (\<forall>d. Read_Shards d st' = Read_Shards d st \<and> tag_of d st' = tag_of d st)"

lemma same_reads_trans: "same_reads st st' \<Longrightarrow> same_reads st' st'' \<Longrightarrow> same_reads st st''"
  by (simp add: same_reads_def)

lemma check_tag_tag_of: "check_tag mk oid md st = (case tag_of (Manifest_Dir oid) st of
    None \<Rightarrow> Inl Auth_Failed | Some got \<Rightarrow> if length got \<noteq> 32 \<or> got \<noteq> Object_Tag mk md then Inl Auth_Failed else Inr ())"
  by (simp add: check_tag_def tag_of_def split: option.split)

lemma Load_Object_same:
  assumes "same_reads st st'"
  shows "Load_Object env key oid reassemble st' = Load_Object env key oid reassemble st"
proof -
  have read: "Read_Shards d st' = Read_Shards d st" and tag: "tag_of d st' = tag_of d st" for d
    using assms by (simp_all add: same_reads_def)
  have load: "load_chunks mb dec room st' cs pos = load_chunks mb dec room st cs pos" for mb dec room cs pos
    by (induction cs arbitrary: pos) (simp_all add: read split: sum.split)
  have check: "check_tag mk oid md st' = check_tag mk oid md st" for mk md by (simp add: check_tag_tag_of tag)
  show ?thesis unfolding Load_Object_def read load check ..
qed

text \<open>What the repair of one directory does; \<open>mended\<close> relates the stores before and after.\<close>

definition mended :: "byte list \<Rightarrow> cas_dir \<Rightarrow> cas_store \<Rightarrow> cas_store \<Rightarrow> bool" where
  "mended b d st st' \<longleftrightarrow> damaged b d st' \<and> (\<forall>e. e \<noteq> d \<longrightarrow> lookup st' e = lookup st e) \<and> same_reads st st' \<and>
     (if alive b d st then whole b d st' else lookup st' d = lookup st d)"

lemma Repair_Shards_damaged:
  assumes "damaged b d st"
  shows "\<exists>st'. Repair_Shards d st = Inr (repairable st (d, b), alive b d st, st') \<and> mended b d st st'"
proof -
  obtain fs where fs: "lookup st d = Some fs" "damage_shows b fs" "length b \<le> Max_Data * EC_SL" "length b \<le> Max_Message"
    using assms by (auto simp: damaged_def Max_Message_def Max_Data_def)
  show ?thesis
  proof (cases "survives b fs")
    case True
    from repair_files_survives [OF this fs(3)] obtain fs' where fs':
      "repair_files fs = Inr (data_shards b + EC_M - card (intact b fs), True, fs')" "intact b fs' = {1..data_shards b + EC_M}"
      "lookup fs' Idx = lookup fs Idx" "lookup fs' Tag = lookup fs Tag" by blast
    from fs'(2) have "lookup fs' (Shard s) = Some (shard b s)" if "s \<in> {1..data_shards b + EC_M}" for s
      using that unfolding intact_def by blast
    then have dmg: "damage_shows b fs'" using fs(2) fs'(3) by (simp add: damage_shows_def)
    then have "survives b fs'" using fs'(2) by (simp add: survives_def)
    then have "read_files fs' = read_files fs" using read_files_survives [OF _ fs(3)] True by metis
    then have "same_reads st (AList.update d fs' st)"
      using fs(1) fs'(4) by (simp add: same_reads_def Read_Shards_def tag_of_def update_conv')
    with True fs fs' dmg show ?thesis
      by (auto simp: Repair_Shards_def repairable_def alive_def mended_def damaged_def whole_def update_conv')
  next
    case False
    then have "repair_files fs = Inr (0, False, fs)" using fs by (intro repair_files_lost) (auto simp: survives_def)
    with False fs show ?thesis
      by (auto simp: Repair_Shards_def repairable_def alive_def mended_def damaged_def same_reads_def Read_Shards_def tag_of_def update_conv')
  qed
qed

lemma piece_local:
  assumes "lookup st' d = lookup st d"
  shows "alive b d st' = alive b d st" "damaged b d st' = damaged b d st" "whole b d st' = whole b d st" "repairable st' (d, b) = repairable st (d, b)"
  using assms by (simp_all add: alive_def damaged_def whole_def repairable_def)

lemma mended_self:
  assumes "mended b d st st'"
  shows "alive b d st' = alive b d st" and "repairable st' (d, b) = 0" and "alive b d st \<Longrightarrow> whole b d st'" and "damaged b d st'"
proof -
  show alive: "alive b d st' = alive b d st"
    using assms whole_alive [of b d st'] piece_local(1) [of st' d st b] by (cases "alive b d st") (simp_all add: mended_def)
  show "repairable st' (d, b) = 0"
  proof (cases "alive b d st")
    case True
    with assms show ?thesis by (intro whole_repairable) (simp add: mended_def)
  next
    case False
    with alive show ?thesis by (auto simp: repairable_def alive_def split: option.split)
  qed
qed (use assms in \<open>simp_all add: mended_def\<close>)

lemma mended_other:
  assumes "mended b d st st'" and "e \<noteq> d"
  shows "alive x e st' = alive x e st" "repairable st' (e, x) = repairable st (e, x)" "whole x e st' = whole x e st" "damaged x e st' = damaged x e st"
  using assms piece_local [of st' e st x] by (simp_all add: mended_def)

text \<open>The loop over the chunks, for a list with repetitions.\<close>

abbreviation (input) chunk_dir :: "byte list \<Rightarrow> cas_dir" where
  "chunk_dir b \<equiv> Object_Dir (To_Hex (SHA256 b))"

lemma repair_chunks_damaged:
  assumes "inj_on SHA256 (f ` set cs)"
    and "\<And>c. c \<in> set cs \<Longrightarrow> Hdr + c * 32 + 32 \<le> length mb \<and> chunk_digest mb c = SHA256 (f c) \<and> damaged (f c) (chunk_dir (f c)) st"
  shows "\<exists>st'. repair_chunks mb cs res st =
      (\<lparr>Recoverable = (Recoverable res \<and> (\<forall>b\<in>f ` set cs. alive b (chunk_dir b) st)),
        Shards_Repaired = Shards_Repaired res + (\<Sum>b\<in>f ` set cs. repairable st (chunk_dir b, b))\<rparr>, st') \<and>
     (\<forall>b\<in>f ` set cs. alive b (chunk_dir b) st \<longrightarrow> whole b (chunk_dir b) st') \<and>
     (\<forall>d. d \<notin> chunk_dir ` f ` set cs \<longrightarrow> lookup st' d = lookup st d) \<and> same_reads st st'"
  using assms
proof (induction cs arbitrary: res st)
  case Nil
  show ?case by (cases res) (auto simp: same_reads_def)
next
  case (Cons c cs)
  let ?b = "f c" and ?B = "f ` set cs"
  let ?res = "\<lparr>Recoverable = (Recoverable res \<and> alive ?b (chunk_dir ?b) st), Shards_Repaired = Shards_Repaired res + repairable st (chunk_dir ?b, ?b)\<rparr>"
  obtain st1 where st1: "Repair_Shards (chunk_dir ?b) st = Inr (repairable st (chunk_dir ?b, ?b), alive ?b (chunk_dir ?b) st, st1)"
    "mended ?b (chunk_dir ?b) st st1"
    using Repair_Shards_damaged [of ?b "chunk_dir ?b" st] Cons.prems(2) [of c] by auto
  have dir: "chunk_dir b = chunk_dir ?b \<longleftrightarrow> b = ?b" if "b \<in> insert ?b ?B" for b
    using inj_on_eq_iff [OF Cons.prems(1), of b ?b] that by (simp add: To_Hex_inj)
  note self = mended_self [OF st1(2)] and other = mended_other [OF st1(2)]
  have alive: "alive b (chunk_dir b) st1 = alive b (chunk_dir b) st"
    and rep: "repairable st1 (chunk_dir b, b) = (if b = ?b then 0 else repairable st (chunk_dir b, b))"
    and dmg: "damaged b (chunk_dir b) st \<Longrightarrow> damaged b (chunk_dir b) st1" if "b \<in> insert ?b ?B" for b
    using self other(1,2,4) [of "chunk_dir b" b] dir [OF that] by (cases "b = ?b"; simp)+
  have "inj_on SHA256 ?B" by (rule inj_on_subset [OF Cons.prems(1)]) auto
  from Cons.IH [OF this, of st1 ?res] Cons.prems(2) dmg
  obtain st2 where st2: "repair_chunks mb cs ?res st1 =
      (\<lparr>Recoverable = (Recoverable ?res \<and> (\<forall>b\<in>?B. alive b (chunk_dir b) st1)),
        Shards_Repaired = Shards_Repaired ?res + (\<Sum>b\<in>?B. repairable st1 (chunk_dir b, b))\<rparr>, st2)"
    "\<forall>b\<in>?B. alive b (chunk_dir b) st1 \<longrightarrow> whole b (chunk_dir b) st2"
    "\<forall>d. d \<notin> chunk_dir ` ?B \<longrightarrow> lookup st2 d = lookup st1 d" "same_reads st1 st2" by auto
  have "(\<Sum>b\<in>?B. repairable st1 (chunk_dir b, b)) = (\<Sum>b\<in>?B - {?b}. repairable st (chunk_dir b, b))"
    by (rule sum.mono_neutral_cong_right) (auto simp: rep)
  then have sum: "repairable st (chunk_dir ?b, ?b) + (\<Sum>b\<in>?B. repairable st1 (chunk_dir b, b)) = (\<Sum>b\<in>insert ?b ?B. repairable st (chunk_dir b, b))"
    by (simp add: sum.insert_remove)
  have "whole ?b (chunk_dir ?b) st2" if "alive ?b (chunk_dir ?b) st"
  proof (cases "?b \<in> ?B")
    case True
    then show ?thesis using st2(2) alive that by auto
  next
    case False
    have "chunk_dir ?b \<notin> chunk_dir ` ?B"
    proof
      assume "chunk_dir ?b \<in> chunk_dir ` ?B"
      then obtain b where "chunk_dir ?b = chunk_dir b" "b \<in> ?B" by (rule imageE)
      with dir [of b] False show False by simp
    qed
    then have "lookup st2 (chunk_dir ?b) = lookup st1 (chunk_dir ?b)" using st2(3) by blast
    then show ?thesis using self(3) [OF that] piece_local(3) [of st2 "chunk_dir ?b" st1 ?b] by simp
  qed
  moreover have "same_reads st st2" using st1(2) st2(4) same_reads_trans by (auto simp: mended_def)
  moreover have "lookup st1 d = lookup st d" if "d \<noteq> chunk_dir ?b" for d using st1(2) that by (simp add: mended_def)
  moreover have "(\<forall>b\<in>?B. alive b (chunk_dir b) st1) = (\<forall>b\<in>?B. alive b (chunk_dir b) st)" using alive by simp
  ultimately show ?case using Cons.prems(2) [of c] st1(1) st2(1-3) alive sum by (auto simp: add.assoc)
qed

text \<open>A keyless read succeeds exactly when every piece survives.\<close>

lemma load_chunks_alive:
  assumes "\<And>c. c \<in> set cs \<Longrightarrow> Hdr + c * 32 + 32 \<le> length mb \<and> chunk_digest mb c = SHA256 (f c) \<and> damaged (f c) (chunk_dir (f c)) st"
  shows "(\<exists>x. load_chunks mb dec None st cs pos = Inr x) \<longleftrightarrow> (\<forall>b\<in>f ` set cs. alive b (chunk_dir b) st)"
  using assms
proof (induction cs arbitrary: pos)
  case (Cons c cs)
  have "Read_Shards (chunk_dir (f c)) st = (if alive (f c) (chunk_dir (f c)) st then Inr (f c) else Inl Corruption_Detected)"
    using Cons.prems [of c] by (intro Read_Shards_damaged) simp
  moreover have "(\<exists>x. map_sum id ((@) y) r = Inr x) = (\<exists>x. r = Inr x)" for y and r :: "ada_exn + byte list" by (cases r) simp_all
  moreover have "\<not> length mb < Hdr + c * 32 + 32" "chunk_digest mb c = SHA256 (f c)" using Cons.prems [of c] by simp_all
  ultimately show ?case using Cons.IH [of "pos + length (f c)"] Cons.prems by simp
qed simp

text \<open>An object that was stored, its blobs damaged in ways that show.\<close>

definition stored_object :: "cas_env \<Rightarrow> byte list \<Rightarrow> byte list \<Rightarrow> cas_store \<Rightarrow> bool" where
  "stored_object env key data st \<longleftrightarrow> admissible env data \<and> inj_on SHA256 (put_chunks env key data) \<and>
     (\<forall>(d, b)\<in>pieces env key data. damaged b d st)"

definition object_id :: "cas_env \<Rightarrow> byte list \<Rightarrow> byte list \<Rightarrow> string" where
  "object_id env key data = To_Hex (SHA256 (put_manifest env key data))"

lemma stored_object_chunks:
  assumes "stored_object env key data st"
  defines "n \<equiv> chunk_count (length (put_payload env data))"
  shows "unat (Get_U64 (put_manifest env key data) 0) = length (put_payload env data)"
    and "\<not> (length (put_manifest env key data) < 29 \<or> length (put_payload env data) + Chunk_Size > Natural_Last)"
    and "put_chunks env key data = put_chunk env key data ` set [0..<n]"
    and "damaged (put_manifest env key data) (Manifest_Dir (object_id env key data)) st"
    and "c \<in> set [0..<n] \<Longrightarrow> Hdr + c * 32 + 32 \<le> length (put_manifest env key data) \<and>
       chunk_digest (put_manifest env key data) c = SHA256 (put_chunk env key data c) \<and>
       damaged (put_chunk env key data c) (chunk_dir (put_chunk env key data c)) st"
  using assms
  by (auto simp: stored_object_def nth_put_manifest(1) admissible_def unat_of_nat Natural_Last_def length_put_manifest put_chunks_def
      pieces_def object_id_def chunk_digest_put image_iff atLeast0LessThan lessThan_Suc_atMost)

lemma Verify_pieces:
  assumes "stored_object env key data st"
  shows "Verify env' (object_id env key data) st \<longleftrightarrow> (\<forall>(d, b)\<in>pieces env key data. alive b d st)"
proof -
  note ok = stored_object_chunks [OF assms]
  let ?m = "put_manifest env key data"
  have load: "(\<forall>b\<in>put_chunks env key data. alive b (chunk_dir b) st) \<longleftrightarrow>
      (\<exists>x. load_chunks ?m dec None st [0..<chunk_count (length (put_payload env data))] pos = Inr x)" for dec pos
    unfolding ok(3) by (rule load_chunks_alive [symmetric]) (rule ok(5))
  show ?thesis
  proof (cases "alive ?m (Manifest_Dir (object_id env key data)) st")
    case True
    then have "Read_Shards (Manifest_Dir (object_id env key data)) st = Inr ?m" using Read_Shards_damaged [OF ok(4)] by simp
    then have "Verify env' (object_id env key data) st \<longleftrightarrow> (\<forall>b\<in>put_chunks env key data. alive b (chunk_dir b) st)"
      using ok(2) unfolding Verify_def Load_Object_def load [of "\<lambda>c. XCrypt (Subkey (replicate 32 0) Enc_Label) (take 12 (drop Nonce_Off ?m)) (Counter_For c)" 0]
      by (simp add: Let_def ok(1) object_id_def split: sum.split)
    with True show ?thesis by (simp add: pieces_def object_id_def)
  next
    case False
    then show ?thesis using Read_Shards_damaged [OF ok(4)] by (auto simp: Verify_def Load_Object_def pieces_def object_id_def)
  qed
qed

lemma Repair_pieces:
  assumes "stored_object env key data st"
  shows "\<exists>n st'. Repair (object_id env key data) st = (\<lparr>Recoverable = (\<forall>(d, b)\<in>pieces env key data. alive b d st), Shards_Repaired = n\<rparr>, st') \<and>
     same_reads st st' \<and> (\<forall>d. d \<notin> fst ` pieces env key data \<longrightarrow> lookup st' d = lookup st d) \<and>
     (alive (put_manifest env key data) (Manifest_Dir (object_id env key data)) st \<longrightarrow>
        n = (\<Sum>p\<in>pieces env key data. repairable st p) \<and> (\<forall>(d, b)\<in>pieces env key data. alive b d st \<longrightarrow> whole b d st'))"
proof -
  note ok = stored_object_chunks [OF assms]
  let ?m = "put_manifest env key data" and ?d = "Manifest_Dir (object_id env key data)" and ?B = "put_chunks env key data"
  obtain st1 where st1: "Repair_Shards ?d st = Inr (repairable st (?d, ?m), alive ?m ?d st, st1)" "mended ?m ?d st st1"
    using Repair_Shards_damaged [OF ok(4)] by blast
  note self = mended_self [OF st1(2)] and other = mended_other [OF st1(2)]
  have reads: "same_reads st st1" and away: "\<And>e. e \<noteq> ?d \<Longrightarrow> lookup st1 e = lookup st e" using st1(2) by (simp_all add: mended_def)
  show ?thesis
  proof (cases "alive ?m ?d st")
    case True
    have "stored_object env key data st1" using assms self(4) other(4) by (auto simp: stored_object_def pieces_def object_id_def)
    note ok1 = stored_object_chunks(5) [OF this]
    have inj: "inj_on SHA256 ?B" using assms by (simp add: stored_object_def)
    obtain st2 where st2: "repair_chunks ?m [0..<chunk_count (length (put_payload env data))] \<lparr>Recoverable = True, Shards_Repaired = repairable st (?d, ?m)\<rparr> st1 =
        (\<lparr>Recoverable = (\<forall>b\<in>?B. alive b (chunk_dir b) st1),
          Shards_Repaired = repairable st (?d, ?m) + (\<Sum>b\<in>?B. repairable st1 (chunk_dir b, b))\<rparr>, st2)"
      "\<forall>b\<in>?B. alive b (chunk_dir b) st1 \<longrightarrow> whole b (chunk_dir b) st2" "\<forall>d. d \<notin> chunk_dir ` ?B \<longrightarrow> lookup st2 d = lookup st1 d" "same_reads st1 st2"
      using repair_chunks_damaged [OF inj [unfolded ok(3)] ok1, where res = "\<lparr>Recoverable = True, Shards_Repaired = repairable st (?d, ?m)\<rparr>"]
      unfolding ok(3) [symmetric] by auto
    have "Read_Shards ?d st1 = Inr ?m" using Read_Shards_damaged [OF self(4)] self(1) True by simp
    with st1(1) st2(1) True ok(2) have rep: "Repair (object_id env key data) st =
        (\<lparr>Recoverable = (\<forall>b\<in>?B. alive b (chunk_dir b) st), Shards_Repaired = repairable st (?d, ?m) + (\<Sum>b\<in>?B. repairable st (chunk_dir b, b))\<rparr>, st2)"
      by (simp add: Repair_def Let_def ok(1) other(1,2))
    have "(\<Sum>p\<in>pieces env key data. repairable st p) = repairable st (?d, ?m) + (\<Sum>b\<in>?B. repairable st (chunk_dir b, b))"
      unfolding pieces_def object_id_def by (subst sum.insert) (auto simp: put_chunks_def sum.reindex inj_on_def)
    moreover have "whole ?m ?d st2" using self(3) [OF True] st2(3) piece_local(3) [of st2 ?d st1 ?m] by (auto simp: image_iff)
    moreover have "lookup st2 d = lookup st d" if "d \<notin> fst ` pieces env key data" for d
      using that st2(3) away [of d] by (auto simp: pieces_def object_id_def image_image)
    ultimately show ?thesis using rep True same_reads_trans [OF reads st2(4)] st2(2) other(1)
      by (auto simp: pieces_def object_id_def)
  next
    case False
    then show ?thesis using st1 reads away by (auto simp: Repair_def pieces_def object_id_def)
  qed
qed

text \<open>
  The same for a whole store: every directory holds a blob of its name, damaged in ways that show.  Whatever the id, repair then
  changes no read, and reports recoverable exactly what verifies.
\<close>

definition addresses :: "cas_dir \<Rightarrow> byte list \<Rightarrow> bool" where
  "addresses d b \<longleftrightarrow> dir_hash d = To_Hex (SHA256 b) \<and> (\<forall>h. d = Manifest_Dir h \<longrightarrow> Hdr \<le> length b)"

definition recorded :: "cas_store \<Rightarrow> bool" where
  "recorded st \<longleftrightarrow> (\<forall>d. lookup st d \<noteq> None \<longrightarrow> (\<exists>b. damaged b d st \<and> addresses d b))"

definition readable :: "cas_dir \<Rightarrow> cas_store \<Rightarrow> bool" where
  "readable d st \<longleftrightarrow> (\<exists>b. Read_Shards d st = Inr b)"

lemma readable_same: "same_reads st st' \<Longrightarrow> readable d st' = readable d st"
  by (simp add: readable_def same_reads_def)

lemma recorded_read:
  assumes "recorded st" and "Read_Shards d st = Inr b"
  shows "addresses d b"
proof -
  have "lookup st d \<noteq> None" using assms(2) by (cases "lookup st d") (simp_all add: Read_Shards_def)
  with assms(1) obtain b' where "damaged b' d st" "addresses d b'" unfolding recorded_def by blast
  with Read_Shards_damaged [of b' d st] assms(2) show ?thesis by (simp split: if_splits)
qed

lemma Repair_Shards_recorded:
  assumes "recorded st"
  shows "case Repair_Shards d st of Inl _ \<Rightarrow> \<not> readable d st
    | Inr (n, ok, st') \<Rightarrow> ok = readable d st \<and> same_reads st st' \<and> recorded st'"
proof (cases "lookup st d")
  case None
  then show ?thesis by (simp add: Repair_Shards_def readable_def Read_Shards_def)
next
  case (Some fs)
  then have "lookup st d \<noteq> None" by simp
  with assms obtain b where b: "damaged b d st" "addresses d b" unfolding recorded_def by blast
  obtain st' where st': "Repair_Shards d st = Inr (repairable st (d, b), alive b d st, st')" "mended b d st st'"
    using Repair_Shards_damaged [OF b(1)] by blast
  have "alive b d st = readable d st" using Read_Shards_damaged [OF b(1)] by (simp add: readable_def)
  moreover have "\<exists>b. damaged b e st' \<and> addresses e b" if e: "lookup st' e \<noteq> None" for e
  proof (cases "e = d")
    case True
    with b(2) st'(2) show ?thesis by (auto simp: mended_def)
  next
    case False
    with e st'(2) have "lookup st e \<noteq> None" by (simp add: mended_def)
    with assms mended_other(4) [OF st'(2) False] show ?thesis unfolding recorded_def by blast
  qed
  then have "recorded st'" by (simp add: recorded_def)
  ultimately show ?thesis using st' by (simp add: mended_def)
qed

lemma repair_chunks_recorded:
  assumes "recorded st" and "repair_chunks mb cs res st = (res', st')"
  shows "same_reads st st' \<and> recorded st' \<and> (Recoverable res' \<longleftrightarrow> Recoverable res \<and>
     (\<forall>c\<in>set cs. Hdr + c * 32 + 32 \<le> length mb \<and> readable (Object_Dir (To_Hex (chunk_digest mb c))) st))"
  using assms
proof (induction cs arbitrary: res st)
  case Nil
  then show ?case by (auto simp: same_reads_def)
next
  case (Cons c cs)
  let ?d = "Object_Dir (To_Hex (chunk_digest mb c))"
  note one = Repair_Shards_recorded [OF Cons.prems(1), of ?d]
  show ?case
  proof (cases "length mb < Hdr + c * 32 + 32 \<or> (\<exists>e. Repair_Shards ?d st = Inl e)")
    case True
    then have "(res\<lparr>Recoverable := False\<rparr>, st) = (res', st')" using Cons.prems(2) by (auto split: if_splits)
    then have "res' = res\<lparr>Recoverable := False\<rparr>" "st' = st" by simp_all
    with True Cons.prems(1) one show ?thesis by (auto simp: same_reads_def)
  next
    case False
    then obtain n ok st1 where r: "Repair_Shards ?d st = Inr (n, ok, st1)"
      by (cases "Repair_Shards ?d st") (auto simp: split_paired_all)
    with one have st1: "ok = readable ?d st" "same_reads st st1" "recorded st1" by simp_all
    have "repair_chunks mb cs \<lparr>Recoverable = (Recoverable res \<and> ok), Shards_Repaired = Shards_Repaired res + n\<rparr> st1 = (res', st')"
      using Cons.prems(2) r False by simp
    from Cons.IH [OF st1(3) this] st1 False show ?thesis
      by (auto simp: readable_same [OF st1(2)] intro: same_reads_trans)
  qed
qed

lemma load_chunks_recorded:
  assumes "recorded st"
  shows "(\<exists>x. load_chunks mb dec None st cs pos = Inr x) \<longleftrightarrow>
     (\<forall>c\<in>set cs. Hdr + c * 32 + 32 \<le> length mb \<and> readable (Object_Dir (To_Hex (chunk_digest mb c))) st)"
proof (induction cs arbitrary: pos)
  case (Cons c cs)
  let ?d = "Object_Dir (To_Hex (chunk_digest mb c))"
  have inr: "(\<exists>x. map_sum id ((@) y) r = Inr x) = (\<exists>x. r = Inr x)" for y and r :: "ada_exn + byte list" by (cases r) simp_all
  show ?case
  proof (cases "length mb < Hdr + c * 32 + 32")
    case False
    then have "length (chunk_digest mb c) = 32" by (simp add: chunk_digest_def)
    then have "SHA256 b = chunk_digest mb c" if "Read_Shards ?d st = Inr b" for b
      using recorded_read [OF assms that] by (simp add: addresses_def To_Hex_inj [symmetric])
    with False Cons inr show ?thesis by (auto simp: readable_def split: sum.split)
  qed auto
qed simp

lemma Repair_recorded:
  assumes "recorded st" and "Repair oid st = (res, st')"
  shows "Recoverable res = Verify env oid st" and "same_reads st st'" and "recorded st'"
proof -
  note one = Repair_Shards_recorded [OF assms(1), of "Manifest_Dir oid"]
  have "Recoverable res = Verify env oid st \<and> same_reads st st' \<and> recorded st'"
  proof (cases "readable (Manifest_Dir oid) st")
    case False
    then have "\<not> Verify env oid st" by (auto simp: Verify_def Load_Object_def readable_def split: sum.split)
    with assms one False show ?thesis by (auto simp: Repair_def same_reads_def split: sum.splits)
  next
    case True
    then obtain mb where mb: "Read_Shards (Manifest_Dir oid) st = Inr mb" by (auto simp: readable_def)
    with recorded_read [OF assms(1) mb] have m: "To_Hex (SHA256 mb) = oid" "Hdr \<le> length mb" by (simp_all add: addresses_def)
    obtain n st1 where r: "Repair_Shards (Manifest_Dir oid) st = Inr (n, True, st1)" and st1: "same_reads st st1" "recorded st1"
      using one True by (auto split: sum.splits prod.splits)
    have "Read_Shards (Manifest_Dir oid) st1 = Inr mb" using st1(1) mb by (simp add: same_reads_def)
    note rep = assms(2) [unfolded Repair_def r, simplified, unfolded this, simplified]
    let ?len = "unat (Get_U64 mb 0)"
    have ver: "Verify env oid st \<longleftrightarrow> \<not> ?len + Chunk_Size > Natural_Last \<and>
        (\<forall>c\<in>set [0..<chunk_count ?len]. Hdr + c * 32 + 32 \<le> length mb \<and> readable (Object_Dir (To_Hex (chunk_digest mb c))) st)"
      unfolding load_chunks_recorded [OF assms(1), of mb "\<lambda>c. XCrypt (Subkey (replicate 32 0) Enc_Label) (take 12 (drop Nonce_Off mb)) (Counter_For c)" _ 0, symmetric]
      using m by (simp add: Verify_def Load_Object_def mb Let_def split: sum.split)
    show ?thesis
    proof (cases "?len + Chunk_Size > Natural_Last")
      case True
      with rep ver st1 show ?thesis by auto
    next
      case False
      with rep m have "repair_chunks mb [0..<chunk_count ?len] \<lparr>Recoverable = True, Shards_Repaired = n\<rparr> st1 = (res, st')" by (simp add: Let_def)
      from repair_chunks_recorded [OF st1(2) this] ver False st1(1) show ?thesis
        by (auto simp: readable_same [OF st1(1)] intro: same_reads_trans)
    qed
  qed
  then show "Recoverable res = Verify env oid st" "same_reads st st'" "recorded st'" by simp_all
qed

section \<open>Properties\<close>

text \<open>
  C26: Garbage collection keeps exactly what the live objects need.  For every store, damaged or not, and every list of live
  ids: each live object is read and verified as before, with the same result or the same error; the directories that stay are
  exactly the live manifests and the chunks that the readable ones among them name, unchanged; the number
  returned is that of the directories removed; and a second collection removes nothing.
\<close>

theorem Collect_Garbage_keeps_live:
  "(\<forall>oid\<in>set live. \<forall>env key. Get env key oid (snd (Collect_Garbage live st)) = Get env key oid st \<and>
      Verify env oid (snd (Collect_Garbage live st)) = Verify env oid st) \<and>
   (\<forall>d. lookup (snd (Collect_Garbage live st)) d = (if reachable live st d then lookup st d else None)) \<and>
   fst (Collect_Garbage live st) = card {d. lookup st d \<noteq> None \<and> lookup (snd (Collect_Garbage live st)) d = None} \<and>
   Collect_Garbage live (snd (Collect_Garbage live st)) = (0, snd (Collect_Garbage live st))"
proof -
  have "{d. lookup st d \<noteq> None \<and> lookup (snd (Collect_Garbage live st)) d = None} = {d. lookup st d \<noteq> None \<and> \<not> reachable live st d}"
    by (auto simp: Collect_Garbage_swept(2))
  then show ?thesis
    by (simp add: Get_def Verify_def Load_Object_collected Collect_Garbage_swept Collect_Garbage_twice length_swept)
qed

theorem Collect_Garbage_keeps_live_witness:
  "\<exists>oid st. Get plain_cas sample_key oid st = Inr [1, 2, 3] \<and>
     Get plain_cas sample_key oid (snd (Collect_Garbage [oid] st)) = Inr [1, 2, 3]"
proof -
  obtain oid st where get: "Get plain_cas sample_key oid st = Inr [1, 2, 3]"
    using Put_sound_Get [OF plain_sound order.refl insertI1 plain_cas_ok(1) plain_admissible plain_cas_ok(2)] by blast
  have "Get plain_cas sample_key oid (snd (Collect_Garbage [oid] st)) = Get plain_cas sample_key oid st"
    using conjunct1 [OF Collect_Garbage_keeps_live [of "[oid]" st]] by simp
  with get show ?thesis by (intro exI [of _ oid] exI [of _ st]) simp
qed

text \<open>
  C27: Repair restores what can be restored and tells the truth about it.  For a stored object whose shards have been damaged in
  ways that show, \<open>Repair\<close> reports it recoverable exactly when it verifies; then every blob of it has all its shards
  again, the number returned is that of the shards that were damaged, and a second repair has nothing to do.  In any case no
  read of any object with any key has another outcome than before, and no directory but the object's own is touched.
\<close>

theorem Repair_restores:
  assumes "stored_object env key data st"
  shows "\<exists>res st'. Repair (object_id env key data) st = (res, st') \<and> (Recoverable res \<longleftrightarrow> Verify env (object_id env key data) st) \<and>
     (Recoverable res \<longrightarrow> Shards_Repaired res = (\<Sum>p\<in>pieces env key data. repairable st p) \<and>
        (\<forall>(d, b)\<in>pieces env key data. whole b d st') \<and>
        fst (Repair (object_id env key data) st') = \<lparr>Recoverable = True, Shards_Repaired = 0\<rparr>) \<and>
     (\<forall>env' key' j. Get env' key' j st' = Get env' key' j st) \<and>
     (\<forall>d. d \<notin> fst ` pieces env key data \<longrightarrow> lookup st' d = lookup st d)"
proof -
  let ?P = "pieces env key data"
  have m: "(Manifest_Dir (object_id env key data), put_manifest env key data) \<in> ?P" by (simp add: pieces_def object_id_def)
  obtain n st' where r: "Repair (object_id env key data) st = (\<lparr>Recoverable = (\<forall>(d, b)\<in>?P. alive b d st), Shards_Repaired = n\<rparr>, st')"
    "same_reads st st'" "\<forall>d. d \<notin> fst ` ?P \<longrightarrow> lookup st' d = lookup st d"
    "alive (put_manifest env key data) (Manifest_Dir (object_id env key data)) st \<longrightarrow>
        n = (\<Sum>p\<in>?P. repairable st p) \<and> (\<forall>(d, b)\<in>?P. alive b d st \<longrightarrow> whole b d st')"
    using Repair_pieces [OF assms] by blast
  have "fst (Repair (object_id env key data) st') = \<lparr>Recoverable = True, Shards_Repaired = 0\<rparr> \<and> (\<forall>(d, b)\<in>?P. whole b d st') \<and>
      n = (\<Sum>p\<in>?P. repairable st p)" if alive: "\<forall>(d, b)\<in>?P. alive b d st"
  proof -
    have "alive (put_manifest env key data) (Manifest_Dir (object_id env key data)) st" using alive m by blast
    then have w: "\<forall>(d, b)\<in>?P. whole b d st'" "n = (\<Sum>p\<in>?P. repairable st p)" using r(4) alive by fast+
    then have "stored_object env key data st'" using assms by (auto simp: stored_object_def damaged_def whole_def)
    from Repair_pieces [OF this] obtain n' st2 where r2:
      "Repair (object_id env key data) st' = (\<lparr>Recoverable = (\<forall>(d, b)\<in>?P. alive b d st'), Shards_Repaired = n'\<rparr>, st2)"
      "alive (put_manifest env key data) (Manifest_Dir (object_id env key data)) st' \<longrightarrow> n' = (\<Sum>p\<in>?P. repairable st' p)" by blast
    have "\<forall>(d, b)\<in>?P. alive b d st'" using w(1) whole_alive by fast
    moreover from this have "n' = (\<Sum>p\<in>?P. repairable st' p)" using r2(2) m by fast
    moreover have "(\<Sum>p\<in>?P. repairable st' p) = 0" using w(1) whole_repairable by (intro sum.neutral) fast
    ultimately show ?thesis using r2(1) w by simp
  qed
  with r(1-3) show ?thesis by (simp add: Verify_pieces [OF assms] Get_def Load_Object_same)
qed

text \<open>An object in three shards, with two of the chunk's lost.\<close>

definition hurt_store :: cas_store where
  "hurt_store = [(Manifest_Dir (object_id plain_cas sample_key [1, 2, 3]), shard_files (put_manifest plain_cas sample_key [1, 2, 3])),
     (Object_Dir (To_Hex (SHA256 (put_chunk plain_cas sample_key [1, 2, 3] 0))),
       [(Shard 2, shard (put_chunk plain_cas sample_key [1, 2, 3] 0) 2), (Idx, index_bytes (put_chunk plain_cas sample_key [1, 2, 3] 0))])]"

lemma hurt_object:
  defines "b \<equiv> put_chunk plain_cas sample_key [1, 2, 3] 0"
  shows "pieces plain_cas sample_key [1, 2, 3] =
      {(Manifest_Dir (object_id plain_cas sample_key [1, 2, 3]), put_manifest plain_cas sample_key [1, 2, 3]), (chunk_dir b, b)}"
    and "stored_object plain_cas sample_key [1, 2, 3] hurt_store"
    and "alive b (chunk_dir b) hurt_store" and "repairable hurt_store (chunk_dir b, b) = 2"
    and "whole (put_manifest plain_cas sample_key [1, 2, 3]) (Manifest_Dir (object_id plain_cas sample_key [1, 2, 3])) hurt_store"
proof -
  let ?fs = "[(Shard 2, shard b 2), (Idx, index_bytes b)]" and ?m = "put_manifest plain_cas sample_key [1, 2, 3]"
  have chunks: "put_chunks plain_cas sample_key [1, 2, 3] = {b}"
    by (simp add: put_chunks_def plain_payload chunk_count_def lessThan_Suc b_def)
  then show pieces: "pieces plain_cas sample_key [1, 2, 3] = {(Manifest_Dir (object_id plain_cas sample_key [1, 2, 3]), ?m), (chunk_dir b, b)}"
    by (simp add: pieces_def object_id_def)
  have len: "length b = 3" by (simp add: b_def length_put_chunk plain_payload chunk_def)
  then have ds: "data_shards b = 1" by (simp add: data_shards_def)
  then have fs: "damage_shows b ?fs" "intact b ?fs = {2}" by (auto simp: damage_shows_def intact_def)
  have look: "lookup hurt_store (chunk_dir b) = Some ?fs" "lookup hurt_store (Manifest_Dir (object_id plain_cas sample_key [1, 2, 3])) = Some (shard_files ?m)"
    by (simp_all add: hurt_store_def b_def)
  show "whole ?m (Manifest_Dir (object_id plain_cas sample_key [1, 2, 3])) hurt_store"
    using look(2) survives_shard_files [of ?m] by (simp add: whole_def intact_shard_files survives_def)
  have "length ?m \<le> Max_Message" by (simp add: length_put_manifest plain_payload chunk_count_def Max_Message_def)
  then show "stored_object plain_cas sample_key [1, 2, 3] hurt_store"
    using look fs len survives_shard_files [of ?m]
    by (simp add: stored_object_def plain_admissible chunks pieces damaged_def survives_def) (simp add: Max_Message_def)
  show "alive b (chunk_dir b) hurt_store" "repairable hurt_store (chunk_dir b, b) = 2"
    using look(1) fs ds by (simp_all add: alive_def repairable_def survives_def)
qed

theorem Repair_restores_witness:
  "\<exists>res st. Repair (object_id plain_cas sample_key [1, 2, 3]) hurt_store = (res, st) \<and> Recoverable res \<and> Shards_Repaired res = 2"
proof -
  note h = hurt_object
  have "Verify plain_cas (object_id plain_cas sample_key [1, 2, 3]) hurt_store"
    using h(3) whole_alive [OF h(5)] by (simp add: Verify_pieces [OF h(2)] h(1))
  moreover have "(\<Sum>p\<in>pieces plain_cas sample_key [1, 2, 3]. repairable hurt_store p) = 2"
    using h(4) whole_repairable [OF h(5)] by (simp add: h(1))
  ultimately show ?thesis using Repair_restores [OF h(2)] by auto
qed

end
