(* ===== verification/Vault_Cas.thy ===== *)
theory Vault_Cas
  imports Vault_Journal Cas_Maintenance
begin

text \<open>
  The vault on its content-addressed store: the environment of \<open>Vault\<close> built from \<open>Put\<close> and \<open>Get\<close> of \<open>Cas\<close> and
  SHA-256, and the maintenance operations of \<open>src/vault/src/dezhan-vault.adb\<close>, \<open>Scrub\<close>, \<open>Quarantined_Count\<close> and \<open>Collect_Garbage\<close>.  What
  collection and repair promise to the vault are the locales \<open>collector\<close> and \<open>repairer\<close>, interpreted on the store.
\<close>

section \<open>Definitions\<close>

definition to_bytes :: "bytes \<Rightarrow> byte list" where
  "to_bytes s = map of_char s"

definition of_bytes :: "byte list \<Rightarrow> bytes" where
  "of_bytes bs = map (\<lambda>b. char_of (unat b)) bs"

definition cas_vault :: "cas_env \<Rightarrow> byte list \<Rightarrow> (string list \<Rightarrow> string \<Rightarrow> nat) \<Rightarrow> (nat \<Rightarrow> bytes) \<Rightarrow> cas_store vault_env" where
  "cas_vault cenv key rk un = \<lparr>cas_Put = (\<lambda>data. Put cenv key (to_bytes data)),
     cas_Get = (\<lambda>oid st. map_sum id of_bytes (Get cenv key oid st)), sha256 = SHA256, rank = rk, uninit = un\<rparr>"

subsection \<open>Collecting garbage\<close>

text \<open>The ids in a list of ids, 64 characters each; \<open>Add_Parts\<close> reads the list of a composite object.\<close>

fun part_ids :: "bytes \<Rightarrow> nat \<Rightarrow> string list" where
  "part_ids ids 0 = []"
| "part_ids ids (Suc n) = take 64 ids # part_ids (drop 64 ids) n"

fun live_index :: "'d vault_env \<Rightarrow> 'd \<Rightarrow> Meta list \<Rightarrow> ada_exn + string list" where
  "live_index env d [] = Inr []"
| "live_index env d (m # ms) =
    (if Composite m then
       (case cas_Get env (Id m) d of
          Inl e \<Rightarrow> Inl e
        | Inr ids \<Rightarrow> map_sum id (\<lambda>rest. Id m # part_ids ids (length ids div 64) @ rest) (live_index env d ms))
     else map_sum id (Cons (Id m)) (live_index env d ms))"

definition Vault_Collect_Garbage ::
  "'d vault_env \<Rightarrow> (string list \<Rightarrow> 'd \<Rightarrow> nat \<times> 'd) \<Rightarrow> ('d mvault, ada_exn, nat) io" where
  "Vault_Collect_Garbage env collect = (\<lambda>m. let v = Base m in
     case live_index env (Store v) (map (\<lambda>k. the (lookup (Index v) k)) (iterate env (Index v))) of
       Inl e \<Rightarrow> io_throw e m
     | Inr ids \<Rightarrow>
        (let live = ids @
               concat (map (\<lambda>k. ordered_parts (up_Parts (the (lookup (Uploads m) k)))) (iterate env (Uploads m))) @
               concat (map (\<lambda>k. map Ver_Id (the (lookup (Versions v) k))) (iterate env (Versions v)));
             (n, d) = collect live (Store v)
         in io_return n (m\<lparr>Base := v\<lparr>Store := d\<rparr>\<rparr>)))"

subsection \<open>Scrubbing\<close>

record Scrub_Report =
  Total :: nat
  Intact :: nat
  Repaired :: nat
  Corrupt :: nat
  sr_Shards_Repaired :: nat

definition set_quarantined :: "string \<Rightarrow> bool \<Rightarrow> 'd vault \<Rightarrow> 'd vault" where
  "set_quarantined name q v = v\<lparr>Index := AList.update name ((the (lookup (Index v) name))\<lparr>Quarantined := q\<rparr>) (Index v)\<rparr>"

definition scrub_object ::
  "'d vault_env \<Rightarrow> (string \<Rightarrow> 'd \<Rightarrow> Repair_Result \<times> 'd) \<Rightarrow> string \<Rightarrow> Scrub_Report \<Rightarrow> ('d pvault, ada_exn, Scrub_Report) io" where
  "scrub_object env repair name R = (\<lambda>p.
     let m = the (lookup (Index (Self p)) name); (res, d) = repair (Id m) (Store (Self p));
         p = p\<lparr>Self := (Self p)\<lparr>Store := d\<rparr>\<rparr>; R = R\<lparr>Total := Total R + 1\<rparr>
     in if \<not> Recoverable res then
          (let R = R\<lparr>Corrupt := Corrupt R + 1\<rparr> in
           if \<not> Quarantined m then
             io_bind (run_op (io_bind (io_modify (set_quarantined name True))
                 (\<lambda>_. Add_Audit env Object_Quarantined (Name_Digest env name) 0)) (\<lambda>_ p. J_Audit (J_Obj name p)))
               (\<lambda>_. io_return R) p
           else io_return R p)
        else
          (let R = (if Shards_Repaired res > 0
                 then R\<lparr>Repaired := Repaired R + 1, sr_Shards_Repaired := sr_Shards_Repaired R + Shards_Repaired res\<rparr>
                 else R\<lparr>Intact := Intact R + 1\<rparr>) in
           if Quarantined m then
             io_bind (run_op (io_modify (set_quarantined name False)) (\<lambda>_. J_Obj name)) (\<lambda>_. io_return R) p
           else io_return R p))"

fun scrub_loop ::
  "'d vault_env \<Rightarrow> (string \<Rightarrow> 'd \<Rightarrow> Repair_Result \<times> 'd) \<Rightarrow> string list \<Rightarrow> Scrub_Report \<Rightarrow> ('d pvault, ada_exn, Scrub_Report) io" where
  "scrub_loop env repair [] R = io_return R"
| "scrub_loop env repair (name # names) R = io_bind (scrub_object env repair name R) (\<lambda>R. scrub_loop env repair names R)"

definition Scrub ::
  "'d vault_env \<Rightarrow> (string \<Rightarrow> 'd \<Rightarrow> Repair_Result \<times> 'd) \<Rightarrow> ('d pvault, ada_exn, Scrub_Report) io" where
  "Scrub env repair = (\<lambda>p. io_bind (scrub_loop env repair (iterate env (Index (Self p)))
      \<lparr>Total = 0, Intact = 0, Repaired = 0, Corrupt = 0, sr_Shards_Repaired = 0\<rparr>)
    (\<lambda>R p. io_return R (Commit_Jrnl env p)) p)"

definition Quarantined_Count :: "'d vault \<Rightarrow> nat" where
  "Quarantined_Count v = length (filter (\<lambda>k. Quarantined (the (lookup (Index v) k))) (keys_of (Index v)))"

section \<open>The contract of the content store\<close>

lemma char_of_byte: "char_of (unat (of_char c :: byte)) = c"
proof -
  have "(of_char c :: byte) = of_nat (of_char c)" by (simp add: of_char_def)
  moreover have "(of_char c :: nat) < 256" by (rule nat_of_char_less_256)
  ultimately show ?thesis by (simp add: unat_of_nat)
qed

lemma of_to_bytes [simp]: "of_bytes (to_bytes s) = s"
  by (simp add: of_bytes_def to_bytes_def comp_def char_of_byte)

text \<open>
  The store with a guard: it refuses data outside \<open>D\<close> and works only on sound stores.  It keeps the contract the vault relies
  on, and as long as it refuses nothing it is the real store.
\<close>

definition in_store :: "cas_env \<Rightarrow> byte list \<Rightarrow> byte list set \<Rightarrow> byte list set \<Rightarrow> bytes \<Rightarrow> bool" where
  "in_store cenv key X Y data \<longleftrightarrow> put_chunks cenv key (to_bytes data) \<subseteq> X \<and> put_manifest cenv key (to_bytes data) \<in> Y"

definition guarded :: "byte list set \<Rightarrow> byte list set \<Rightarrow> cas_env \<Rightarrow> byte list \<Rightarrow> cas_store vault_env \<Rightarrow> cas_store vault_env" where
  "guarded X Y cenv key env = env\<lparr>cas_Put := (\<lambda>data st.
     if sound {} X Y st \<and> in_store cenv key X Y data then cas_Put env data st else (Inl (Cas_Error ''guard''), st))\<rparr>"

definition lossless :: "cas_env \<Rightarrow> bool" where
  "lossless cenv \<longleftrightarrow> (\<forall>n. set (worker_order cenv n) = {..<n}) \<and> (\<forall>x. inflate cenv (deflate cenv x) = Inr x)"

lemma cas_vault_Put:
  assumes "lossless cenv" and "sound {} X Y st" and "in_store cenv key X Y data" and "cas_Put (cas_vault cenv key rk un) data st = (r, st')"
  shows "sound {} X Y st'" and "r = Inr i \<Longrightarrow> length i = 64 \<and> cas_Get (cas_vault cenv key rk un) i st' = Inr data"
    and "cas_Get (cas_vault cenv key rk un) j st = Inr x \<Longrightarrow> cas_Get (cas_vault cenv key rk un) j st' = Inr x"
proof -
  have w: "\<And>n. set (worker_order cenv n) = {..<n}" and z: "\<And>x. inflate cenv (deflate cenv x) = Inr x" using assms(1) by (simp_all add: lossless_def)
  have put: "Put cenv key (to_bytes data) st = (r, st')" using assms(4) by (simp add: cas_vault_def)
  have "sound {} X Y st' \<and> (\<forall>i. r = Inr i \<longrightarrow> length i = 64 \<and> Get cenv key i st' = Inr (to_bytes data)) \<and>
      (\<forall>j x. Get cenv key j st = Inr x \<longrightarrow> Get cenv key j st' = Inr x)"
  proof (cases "admissible cenv (to_bytes data)")
    case True
    have c: "put_chunks cenv key (to_bytes data) \<subseteq> X" and m: "put_manifest cenv key (to_bytes data) \<in> Y"
      using assms(3) by (simp_all add: in_store_def)
    from Put_sound_Get [OF assms(2) c m w True z] put show ?thesis by auto
  next
    case False
    then have "\<exists>e. Put cenv key (to_bytes data) st = (Inl e, st)" unfolding Put_eq Let_def admissible_def by (auto simp: not_le)
    with put assms(2) show ?thesis by auto
  qed
  then show "sound {} X Y st'" "r = Inr i \<Longrightarrow> length i = 64 \<and> cas_Get (cas_vault cenv key rk un) i st' = Inr data"
    "cas_Get (cas_vault cenv key rk un) j st = Inr x \<Longrightarrow> cas_Get (cas_vault cenv key rk un) j st' = Inr x"
    by (auto simp: cas_vault_def map_sum_eq_iff)
qed

lemma cas_spec_guarded: "lossless cenv \<Longrightarrow> cas_spec (guarded X Y cenv key (cas_vault cenv key rk un))"
  using cas_vault_Put [of cenv X Y _ key _ rk un] unfolding cas_spec_def guarded_def by (auto split: if_splits)

lemma cas_vault_id:
  assumes "cas_Put (cas_vault cenv key rk un) data st = (Inr i, st')"
  shows "i = object_id cenv key (to_bytes data)"
  using assms by (auto simp: cas_vault_def Put_eq Let_def object_id_def split: if_splits prod.splits sum.splits)

lemma guarded_sels [simp]:
  "cas_Get (guarded X Y cenv key env) = cas_Get env" "sha256 (guarded X Y cenv key env) = sha256 env"
  "uninit (guarded X Y cenv key env) = uninit env"
  by (simp_all add: guarded_def)

lemma guarded_reads:
  "get_parts (guarded X Y cenv key env) d ids n = get_parts env d ids n" "read_object (guarded X Y cenv key env) d m = read_object env d m"
  "Get_Object (guarded X Y cenv key env) name v = Get_Object env name v" "Add_Audit (guarded X Y cenv key env) = Add_Audit env"
  "Name_Digest (guarded X Y cenv key env) = Name_Digest env"
proof -
  show parts: "get_parts (guarded X Y cenv key env) d ids n = get_parts env d ids n" for d ids n
    by (induction n arbitrary: ids) (simp_all split: sum.split)
  show "read_object (guarded X Y cenv key env) d m = read_object env d m" for d m
    unfolding read_object_def parts guarded_sels ..
  then show "Get_Object (guarded X Y cenv key env) name v = Get_Object env name v" unfolding Get_Object_def by presburger
qed (simp_all add: Add_Audit_def Name_Digest_def fun_eq_iff)

text \<open>The blobs of an object: itself, or its parts and the list of the parts' ids.\<close>

definition storable :: "cas_env \<Rightarrow> byte list \<Rightarrow> byte list set \<Rightarrow> byte list set \<Rightarrow> bytes \<Rightarrow> bool" where
  "storable cenv key X Y data \<longleftrightarrow> (length data \<le> Max_Single \<longrightarrow> in_store cenv key X Y data) \<and>
     (length data \<le> Max_Single \<and> admissible cenv (to_bytes data) \<or>
      (\<forall>p\<in>set (parts_of data). in_store cenv key X Y p) \<and>
      in_store cenv key X Y (concat (map (\<lambda>p. object_id cenv key (to_bytes p)) (parts_of data))))"

definition safely :: "byte list set \<Rightarrow> byte list set \<Rightarrow> cas_env \<Rightarrow> byte list \<Rightarrow> cas_store vault_env \<Rightarrow>
    (cas_store vault_env \<Rightarrow> (cas_store vault, ada_exn, 'a) io) \<Rightarrow> cas_store vault \<Rightarrow> bool" where
  "safely X Y cenv key env act v \<longleftrightarrow> act (guarded X Y cenv key env) v = act env v \<and>
     (\<forall>r v'. act env v = Some (r, v') \<longrightarrow> sound {} X Y (Store v'))"

lemma store_put_safely:
  assumes "lossless cenv" and "sound {} X Y (Store v)" and "in_store cenv key X Y data"
  shows "safely X Y cenv key (cas_vault cenv key rk un) (\<lambda>e. store_put e data) v"
  using assms cas_vault_Put(1) [OF assms]
  by (auto simp: safely_def store_put_def guarded_def split: prod.splits)

lemma safely_basic:
  assumes "sound {} X Y (Store v)"
  shows "safely X Y cenv key env (\<lambda>_. io_return x) v" "safely X Y cenv key env (\<lambda>_. io_throw e) v"
  using assms by (simp_all add: safely_def io_return_def io_throw_def)

lemma safely_if:
  "(b \<Longrightarrow> safely X Y cenv key env m v) \<Longrightarrow> (\<not> b \<Longrightarrow> safely X Y cenv key env m' v) \<Longrightarrow> safely X Y cenv key env (\<lambda>env. if b then m env else m' env) v"
  by (cases b) simp_all

lemma safely_try:
  assumes "safely X Y cenv key env m v"
    and "\<And>e v'. m env v = Some (Inl e, v') \<Longrightarrow> sound {} X Y (Store v') \<Longrightarrow> safely X Y cenv key env (\<lambda>env. h env e) v'"
    and "\<And>x v'. m env v = Some (Inr x, v') \<Longrightarrow> sound {} X Y (Store v') \<Longrightarrow> safely X Y cenv key env (\<lambda>env. k env x) v'"
  shows "safely X Y cenv key env (\<lambda>env. io_try (m env) (h env) (k env)) v"
proof (cases "m env v")
  case None
  with assms(1) show ?thesis by (simp add: safely_def io_try_def)
next
  case (Some a)
  then obtain r v' where "m env v = Some (r, v')" by (cases a) simp
  with assms show ?thesis by (cases r) (simp_all add: safely_def io_try_def)
qed

lemma safely_bind:
  assumes "safely X Y cenv key env m v"
    and "\<And>x v'. m env v = Some (Inr x, v') \<Longrightarrow> sound {} X Y (Store v') \<Longrightarrow> safely X Y cenv key env (\<lambda>env. k env x) v'"
  shows "safely X Y cenv key env (\<lambda>env. io_bind (m env) (k env)) v"
  unfolding io_bind_def by (rule safely_try [OF assms(1)]) (use assms(2) safely_basic in blast)+

lemma store_put_id:
  "store_put (cas_vault cenv key rk un) data v = Some (Inr i, v') \<Longrightarrow> i = object_id cenv key (to_bytes data)"
  using cas_vault_id [of cenv key rk un data "Store v" i] by (auto simp: store_put_def split: prod.splits)

lemma store_parts_ids:
  "store_parts (cas_vault cenv key rk un) ps v = Some (Inr ids, v') \<Longrightarrow> ids = concat (map (\<lambda>p. object_id cenv key (to_bytes p)) ps)"
proof (induction ps arbitrary: v ids)
  case (Cons p ps)
  then obtain pid v1 rest where "store_put (cas_vault cenv key rk un) p v = Some (Inr pid, v1)"
    "store_parts (cas_vault cenv key rk un) ps v1 = Some (Inr rest, v')" "ids = pid @ rest"
    by (auto simp: io_bind_Inr io_return_def)
  with Cons.IH store_put_id show ?case by fastforce
qed (simp add: io_return_def)

lemma store_parts_safely:
  assumes "lossless cenv"
  shows "\<forall>p\<in>set ps. in_store cenv key X Y p \<Longrightarrow> sound {} X Y (Store v) \<Longrightarrow> safely X Y cenv key (cas_vault cenv key rk un) (\<lambda>e. store_parts e ps) v"
proof (induction ps arbitrary: v)
  case (Cons p ps)
  have "safely X Y cenv key (cas_vault cenv key rk un)
      (\<lambda>e. io_bind (store_put e p) (\<lambda>pid. io_bind (store_parts e ps) (\<lambda>rest. io_return (pid @ rest)))) v"
    using Cons by (intro safely_bind store_put_safely [OF assms] safely_basic) simp_all
  then show ?case by simp
qed (simp add: safely_basic)

lemma Store_Composite_safely:
  assumes "lossless cenv" and "sound {} X Y (Store v)" and "\<forall>p\<in>set (parts_of data). in_store cenv key X Y p"
    and "in_store cenv key X Y (concat (map (\<lambda>p. object_id cenv key (to_bytes p)) (parts_of data)))"
  shows "safely X Y cenv key (cas_vault cenv key rk un) (\<lambda>e. Store_Composite e data) v"
  unfolding Store_Composite_def
proof (rule safely_bind [OF store_parts_safely [OF assms(1,3,2)]])
  fix ids v'
  assume "store_parts (cas_vault cenv key rk un) (parts_of data) v = Some (Inr ids, v')" "sound {} X Y (Store v')"
  then show "safely X Y cenv key (cas_vault cenv key rk un) (\<lambda>env. store_put env ids) v'"
    using assms(4) store_parts_ids by (intro store_put_safely [OF assms(1)]) auto
qed

lemma store_put_admissible:
  assumes "lossless cenv" and "sound {} X Y (Store v)" and "in_store cenv key X Y data" and "admissible cenv (to_bytes data)"
  shows "store_put (cas_vault cenv key rk un) data v \<noteq> Some (Inl e, v')"
  using assms Put_sound [of "{}" X Y "Store v" cenv key "to_bytes data"]
  by (auto simp: store_put_def cas_vault_def in_store_def lossless_def split: prod.splits)

lemma store_object_safely:
  assumes "lossless cenv" and "storable cenv key X Y data" and "sound {} X Y (Store v)"
  shows "safely X Y cenv key (cas_vault cenv key rk un) (\<lambda>e. store_object e data) v"
proof -
  let ?env = "cas_vault cenv key rk un" and ?one = "length data \<le> Max_Single \<and> admissible cenv (to_bytes data)"
  have comp: "safely X Y cenv key ?env (\<lambda>e. io_bind (Store_Composite e data) (\<lambda>i. io_return (True, i))) v'"
    if "sound {} X Y (Store v')" "\<not> ?one" for v'
    using that assms(2) by (intro safely_bind Store_Composite_safely assms(1) safely_basic) (auto simp: storable_def)
  have "safely X Y cenv key ?env (\<lambda>e. io_try (store_put e data)
      (\<lambda>x. if x = Object_Too_Large then io_bind (Store_Composite e data) (\<lambda>i. io_return (True, i)) else io_throw x)
      (\<lambda>i. io_return (False, i))) v" if le: "length data \<le> Max_Single"
  proof -
    have i: "in_store cenv key X Y data" using assms(2) le by (simp add: storable_def)
    show ?thesis
      using comp le store_put_admissible [OF assms(1,3) i, of rk un]
      by (intro safely_try safely_if store_put_safely [OF assms(1,3) i] safely_basic) auto
  qed
  with comp [OF assms(3)] show ?thesis unfolding store_object_def by (intro safely_if) simp_all
qed

lemma Put_Object_safely:
  assumes "lossless cenv" and "storable cenv key X Y data" and "sound {} X Y (Store v)"
  shows "safely X Y cenv key (cas_vault cenv key rk un) (\<lambda>e. Put_Object e name data mode retain_for um) v"
proof -
  let ?env = "cas_vault cenv key rk un"
  obtain r v1 where st: "store_object ?env data v = Some (r, v1)" using store_object_None [of ?env data v] by auto
  from store_object_safely [OF assms, of rk un] st
  have g: "store_object (guarded X Y cenv key ?env) data v = Some (r, v1)" and v1: "sound {} X Y (Store v1)" by (simp_all add: safely_def)
  note simps = Check_Ingest_def io_bind_def io_try_def io_gets_def io_return_def io_throw_def Let_def
  have "Put_Object (guarded X Y cenv key ?env) name data mode retain_for um v = Put_Object ?env name data mode retain_for um v"
    unfolding Put_Object_def guarded_reads by (simp add: simps st g)
  moreover have "sound {} X Y (Store v')" if "Put_Object ?env name data mode retain_for um v = Some (x, v')" for x v'
    using that assms(3) v1 by (cases r) (auto simp: Put_Object_def simps io_modify_def Add_Audit_def st split: if_splits)
  ultimately show ?thesis by (simp add: safely_def)
qed

section \<open>Collection\<close>

text \<open>What the vault relies on of the collector: the objects it names stay readable as they were.\<close>

locale collector =
  fixes env :: "'d vault_env" and collect :: "string list \<Rightarrow> 'd \<Rightarrow> nat \<times> 'd"
  assumes collect_live: "oid \<in> set live \<Longrightarrow> cas_Get env oid (snd (collect live d)) = cas_Get env oid d"
begin

lemma get_parts_live:
  "set (part_ids ids n) \<subseteq> set live \<Longrightarrow> get_parts env (snd (collect live d)) ids n = get_parts env d ids n"
  by (induction n arbitrary: ids) (simp_all add: collect_live split: sum.split)

lemma live_index_names:
  "live_index env d ms = Inr ids \<Longrightarrow> m \<in> set ms \<Longrightarrow> Id m \<in> set ids \<and>
     (Composite m \<longrightarrow> (\<exists>bs. cas_Get env (Id m) d = Inr bs \<and> set (part_ids bs (length bs div 64)) \<subseteq> set ids))"
proof (induction ms arbitrary: ids)
  case (Cons x ms)
  obtain rest where rest: "live_index env d ms = Inr rest" "set rest \<subseteq> set ids"
    using Cons.prems(1) by (fastforce simp: map_sum_eq_iff split: if_splits sum.splits)
  show ?case
  proof (cases "m = x")
    case True
    with Cons.prems(1) show ?thesis by (auto simp: map_sum_eq_iff split: if_splits sum.splits)
  next
    case False
    with Cons.IH [OF rest(1)] Cons.prems(2) rest(2) show ?thesis by auto
  qed
qed simp

lemma read_object_live:
  assumes "Id m \<in> set live" and "Composite m \<Longrightarrow> \<exists>bs. cas_Get env (Id m) d = Inr bs \<and> set (part_ids bs (length bs div 64)) \<subseteq> set live"
  shows "read_object env (snd (collect live d)) m = read_object env d m"
  using assms(2) by (auto simp: read_object_def collect_live [OF assms(1)] get_parts_live)

text \<open>After a collection the vault reads what it read before: objects, versions, and parts of uploads.\<close>

lemma Vault_Collect_reads:
  assumes "Vault_Collect_Garbage env collect m = Some (Inr n, m')"
  shows "m' = m\<lparr>Base := (Base m)\<lparr>Store := Store (Base m')\<rparr>\<rparr>"
    and "lookup (Index (Base m)) name = Some x \<Longrightarrow> read_object env (Store (Base m')) x = read_object env (Store (Base m)) x"
    and "lookup (Versions (Base m)) name = Some es \<Longrightarrow> e \<in> set es \<Longrightarrow> cas_Get env (Ver_Id e) (Store (Base m')) = cas_Get env (Ver_Id e) (Store (Base m))"
    and "lookup (Uploads m) uid = Some u \<Longrightarrow> pid \<in> set (ordered_parts (up_Parts u)) \<Longrightarrow> cas_Get env pid (Store (Base m')) = cas_Get env pid (Store (Base m))"
proof -
  let ?v = "Base m"
  obtain ids where ids: "live_index env (Store ?v) (map (\<lambda>k. the (lookup (Index ?v) k)) (iterate env (Index ?v))) = Inr ids"
    using assms by (auto simp: Vault_Collect_Garbage_def Let_def io_throw_def split: sum.splits)
  define live where "live = ids @
     concat (map (\<lambda>k. ordered_parts (up_Parts (the (lookup (Uploads m) k)))) (iterate env (Uploads m))) @
     concat (map (\<lambda>k. map Ver_Id (the (lookup (Versions ?v) k))) (iterate env (Versions ?v)))"
  have m': "m' = m\<lparr>Base := ?v\<lparr>Store := snd (collect live (Store ?v))\<rparr>\<rparr>"
    using assms by (simp add: Vault_Collect_Garbage_def Let_def ids io_return_def live_def case_prod_beta)
  then show "m' = m\<lparr>Base := ?v\<lparr>Store := Store (Base m')\<rparr>\<rparr>" by simp
  have keys: "k \<in> set (iterate env c)" if "lookup c k = Some y" for k y and c :: "(string \<times> 'z) list"
    using that by (auto simp: set_iterate)
  show "read_object env (Store (Base m')) x = read_object env (Store ?v) x" if x: "lookup (Index ?v) name = Some x"
  proof -
    have "x \<in> set (map (\<lambda>k. the (lookup (Index ?v) k)) (iterate env (Index ?v)))" using keys [OF x] x by force
    from live_index_names [OF ids this] show ?thesis unfolding m' by (auto intro!: read_object_live simp: live_def)
  qed
  show "cas_Get env (Ver_Id e) (Store (Base m')) = cas_Get env (Ver_Id e) (Store ?v)"
    if es: "lookup (Versions ?v) name = Some es" and "e \<in> set es"
  proof -
    have "Ver_Id e \<in> set live" using keys [OF es] that by (force simp: live_def)
    then show ?thesis unfolding m' by (simp add: collect_live)
  qed
  show "cas_Get env pid (Store (Base m')) = cas_Get env pid (Store ?v)"
    if u: "lookup (Uploads m) uid = Some u" and "pid \<in> set (ordered_parts (up_Parts u))"
  proof -
    have "pid \<in> set live" using keys [OF u] that by (force simp: live_def)
    then show ?thesis unfolding m' by (simp add: collect_live)
  qed
qed

end

interpretation cc: collector "cas_vault cenv key rk un" Collect_Garbage for cenv key rk un
  by unfold_locales (simp add: cas_vault_def Get_def Load_Object_collected)

section \<open>Scrubbing\<close>

text \<open>One object: what the repair's result leads to.\<close>

definition scrubbed :: "'d vault_env \<Rightarrow> string \<Rightarrow> Meta \<Rightarrow> bool \<Rightarrow> 'd \<Rightarrow> 'd vault \<Rightarrow> 'd vault" where
  "scrubbed env name m bad d v = v\<lparr>Store := d,
     Index := (if bad = Quarantined m then Index v else AList.update name (m\<lparr>Quarantined := bad\<rparr>) (Index v)),
     Log := Log v @ (if bad \<and> \<not> Quarantined m
       then [Append (sha256 env) (last (Log v)) (Now (Clock v)) Object_Quarantined (Name_Digest env name) 0] else [])\<rparr>"

definition scrub_entries :: "'d vault_env \<Rightarrow> string \<Rightarrow> Meta \<Rightarrow> bool \<Rightarrow> 'd vault \<Rightarrow> entry list" where
  "scrub_entries env name m bad v = (if bad = Quarantined m then [] else E_Obj name (m\<lparr>Quarantined := bad\<rparr>) #
     (if bad then [E_Audit (Append (sha256 env) (last (Log v)) (Now (Clock v)) Object_Quarantined (Name_Digest env name) 0)] else []))"

definition counted :: "bool \<Rightarrow> Scrub_Report \<Rightarrow> Scrub_Report \<Rightarrow> bool" where
  "counted bad R R' \<longleftrightarrow> Total R' = Suc (Total R) \<and> Corrupt R' = (if bad then Suc (Corrupt R) else Corrupt R) \<and>
     Intact R' + Repaired R' = (if bad then Intact R + Repaired R else Suc (Intact R + Repaired R))"

lemma scrub_object_run:
  assumes "lookup (Index (Self p)) name = Some m" and "repair (Id m) (Store (Self p)) = (res, d)"
    and "scrub_object env repair name R p = Some (Inr R', q)"
  shows "q = p\<lparr>Self := scrubbed env name m (\<not> Recoverable res) d (Self p),
      Jrnl_Buf := Jrnl_Buf p @ map entry_line (scrub_entries env name m (\<not> Recoverable res) (Self p))\<rparr>"
    and "counted (\<not> Recoverable res) R R'"
    and "\<not> Recoverable res \<Longrightarrow> \<not> Quarantined m \<Longrightarrow> Log (Self p) \<noteq> [] \<and> Seq (last (Log (Self p))) \<noteq> Natural_Last"
proof -
  note simps = scrub_object_def Let_def scrubbed_def scrub_entries_def counted_def run_op_def io_bind_def io_try_def io_modify_def io_return_def
    io_throw_def Add_Audit_def set_quarantined_def J_Audit_def J_Obj_def Append_Jrnl_def update_conv'
  have "q = p\<lparr>Self := scrubbed env name m (\<not> Recoverable res) d (Self p),
      Jrnl_Buf := Jrnl_Buf p @ map entry_line (scrub_entries env name m (\<not> Recoverable res) (Self p))\<rparr> \<and> counted (\<not> Recoverable res) R R' \<and>
    (\<not> Recoverable res \<longrightarrow> \<not> Quarantined m \<longrightarrow> Log (Self p) \<noteq> [] \<and> Seq (last (Log (Self p))) \<noteq> Natural_Last)"
    using assms by (cases "Recoverable res"; cases "Quarantined m") (auto simp: simps split: if_splits)
  then show "q = p\<lparr>Self := scrubbed env name m (\<not> Recoverable res) d (Self p),
      Jrnl_Buf := Jrnl_Buf p @ map entry_line (scrub_entries env name m (\<not> Recoverable res) (Self p))\<rparr>"
    "counted (\<not> Recoverable res) R R'"
    "\<not> Recoverable res \<Longrightarrow> \<not> Quarantined m \<Longrightarrow> Log (Self p) \<noteq> [] \<and> Seq (last (Log (Self p))) \<noteq> Natural_Last" by blast+
qed

text \<open>The files follow.\<close>

lemma scrubbed_journal:
  assumes "journal_inv env p" and "vault_wf (Self p)" and "env_ok env" and "lookup (Index (Self p)) name = Some m"
    and "bad \<Longrightarrow> \<not> Quarantined m \<Longrightarrow> Log (Self p) \<noteq> [] \<and> Seq (last (Log (Self p))) \<noteq> Natural_Last"
  shows "vault_wf (scrubbed env name m bad d (Self p))"
    and "journal_inv env (p\<lparr>Self := scrubbed env name m bad d (Self p),
      Jrnl_Buf := Jrnl_Buf p @ map entry_line (scrub_entries env name m bad (Self p))\<rparr>)"
proof -
  let ?v = "Self p" and ?cs = "scrub_entries env name m bad (Self p)"
  have ok: "name \<noteq> []" "meta_ok (m\<lparr>Quarantined := bad\<rparr>)"
    using assms(2,4) by (auto simp: vault_wf_def dur_wf_def durable_def meta_ok_def)
  have a: "audit_ok (Append (sha256 env) (last (Log ?v)) (Now (Clock ?v)) Object_Quarantined (Name_Digest env name) 0)"
    "Seq (Append (sha256 env) (last (Log ?v)) (Now (Clock ?v)) Object_Quarantined (Name_Digest env name) 0) = length (Log ?v)"
    if "bad" "\<not> Quarantined m"
    using Append_ok [OF assms(2) _ _ assms(3) Name_Digest_32 [OF assms(3)]] assms(5) that by simp_all
  have wf: "list_all entry_wf ?cs" using ok a by (auto simp: scrub_entries_def)
  have dur: "durable (scrubbed env name m bad d ?v) = fold dur_apply ?cs (durable ?v)"
    using a(2) by (auto simp: scrubbed_def scrub_entries_def durable_def update_conv' Bucket_Versioned_def [abs_def])
  then show "vault_wf (scrubbed env name m bad d ?v)" using dur_wf_fold [OF _ wf] assms(2) by (simp add: vault_wf_def)
  from dur have "unclock (durable (scrubbed env name m bad d ?v)) = unclock (fold dur_apply ?cs (durable ?v))" by simp
  from journal_inv_write [OF assms(1) wf this]
  show "journal_inv env (p\<lparr>Self := scrubbed env name m bad d ?v, Jrnl_Buf := Jrnl_Buf p @ map entry_line ?cs\<rparr>)" .
qed

text \<open>Two vaults that differ at most in store, index and log.\<close>

definition same_rest :: "'d vault \<Rightarrow> 'd vault \<Rightarrow> bool" where
  "same_rest v w \<longleftrightarrow> w = v\<lparr>Store := Store w, Index := Index w, Log := Log w\<rparr>"

lemma same_rest_trans: "same_rest u v \<Longrightarrow> same_rest v w \<Longrightarrow> same_rest u w"
  unfolding same_rest_def by (cases u; cases v; cases w) simp

text \<open>
  What the vault relies on of the repair: on stores that are \<open>good\<close> it reports recoverable what verifies, and changes neither
  that nor any read.
\<close>

locale repairer =
  fixes env :: "'d vault_env" and repair :: "string \<Rightarrow> 'd \<Rightarrow> Repair_Result \<times> 'd" and good :: "'d \<Rightarrow> bool" and verifies :: "string \<Rightarrow> 'd \<Rightarrow> bool"
  assumes repair_law: "good d \<Longrightarrow> repair oid d = (res, d') \<Longrightarrow> Recoverable res = verifies oid d \<and> good d' \<and>
      (\<forall>j. verifies j d' = verifies j d) \<and> (\<forall>j. cas_Get env j d' = cas_Get env j d)"
begin

definition lost :: "'d pvault \<Rightarrow> string \<Rightarrow> bool" where
  "lost p n = (\<not> verifies (Id (the (lookup (Index (Self p)) n))) (Store (Self p)))"

definition newly_lost :: "'d pvault \<Rightarrow> string \<Rightarrow> bool" where
  "newly_lost p n = (lost p n \<and> \<not> Quarantined (the (lookup (Index (Self p)) n)))"

definition scrub_spec :: "string list \<Rightarrow> 'd pvault \<Rightarrow> Scrub_Report \<Rightarrow> 'd pvault \<Rightarrow> Scrub_Report \<Rightarrow> bool" where
  "scrub_spec ns p R q R' \<longleftrightarrow>
     (\<forall>n. lookup (Index (Self q)) n = (if n \<in> set ns then map_option (\<lambda>m. m\<lparr>Quarantined := lost p n\<rparr>) (lookup (Index (Self p)) n)
        else lookup (Index (Self p)) n)) \<and>
     good (Store (Self q)) \<and> (\<forall>j. verifies j (Store (Self q)) = verifies j (Store (Self p))) \<and>
     (\<forall>j. cas_Get env j (Store (Self q)) = cas_Get env j (Store (Self p))) \<and>
     Total R' = Total R + length ns \<and> Corrupt R' = Corrupt R + length (filter (lost p) ns) \<and>
     Intact R' + Repaired R' + Corrupt R' = Intact R + Repaired R + Corrupt R + length ns \<and>
     same_rest (Self p) (Self q) \<and>
     (\<exists>es. Log (Self q) = Log (Self p) @ es \<and> map Kind es = map (\<lambda>_. Object_Quarantined) es \<and>
        map Subject es = map (Name_Digest env) (filter (newly_lost p) ns)) \<and> logged env (Self p) (Self q)"

lemma scrub_object_step:
  assumes "scrub_object env repair n R p = Some (Inr R1, p1)" and "good (Store (Self p))" and "n \<in> dom (lookup (Index (Self p)))"
  shows "\<exists>m d. lookup (Index (Self p)) n = Some m \<and> counted (lost p n) R R1 \<and> good d \<and> (\<forall>j. verifies j d = verifies j (Store (Self p))) \<and>
      (\<forall>j. cas_Get env j d = cas_Get env j (Store (Self p))) \<and> (newly_lost p n \<longrightarrow> Log (Self p) \<noteq> [] \<and> Seq (last (Log (Self p))) \<noteq> Natural_Last) \<and>
      p1 = p\<lparr>Self := scrubbed env n m (lost p n) d (Self p), Jrnl_Buf := Jrnl_Buf p @ map entry_line (scrub_entries env n m (lost p n) (Self p))\<rparr>"
proof -
  obtain m where m: "lookup (Index (Self p)) n = Some m" using assms(3) by auto
  obtain res d where r: "repair (Id m) (Store (Self p)) = (res, d)" by (cases "repair (Id m) (Store (Self p))") simp
  have l: "(\<not> Recoverable res) = lost p n" using repair_law [OF assms(2) r] m by (simp add: lost_def)
  note run = scrub_object_run [OF m r assms(1)]
  have "newly_lost p n \<longrightarrow> Log (Self p) \<noteq> [] \<and> Seq (last (Log (Self p))) \<noteq> Natural_Last"
    using run(3) l m by (simp add: newly_lost_def)
  with m run(1,2) repair_law [OF assms(2) r] show ?thesis unfolding l by blast
qed

lemma scrub_step_spec:
  assumes "scrub_object env repair n R p = Some (Inr R1, p1)" and "good (Store (Self p))" and "n \<in> dom (lookup (Index (Self p)))"
  shows "scrub_spec [n] p R p1 R1"
proof -
  obtain m d where s: "lookup (Index (Self p)) n = Some m" "counted (lost p n) R R1" "good d" "\<forall>j. verifies j d = verifies j (Store (Self p))"
      "\<forall>j. cas_Get env j d = cas_Get env j (Store (Self p))" "newly_lost p n \<longrightarrow> Log (Self p) \<noteq> [] \<and> Seq (last (Log (Self p))) \<noteq> Natural_Last"
    and p1: "p1 = p\<lparr>Self := scrubbed env n m (lost p n) d (Self p), Jrnl_Buf := Jrnl_Buf p @ map entry_line (scrub_entries env n m (lost p n) (Self p))\<rparr>"
    using scrub_object_step [OF assms] by blast
  have n: "newly_lost p n = (lost p n \<and> \<not> Quarantined m)" using s(1) by (simp add: newly_lost_def)
  have "logged env (Self p) (Self p1)"
  proof (cases "newly_lost p n")
    case True
    let ?e = "Append (sha256 env) (last (Log (Self p))) (Now (Clock (Self p))) Object_Quarantined (Name_Digest env n) 0"
    have "Add_Audit env Object_Quarantined (Name_Digest env n) 0 (Self p) = Some (Inr (), (Self p)\<lparr>Log := Log (Self p) @ [?e]\<rparr>)"
      using True s(6) by (simp add: Add_Audit_def io_modify_def)
    with logs_Add_Audit [of env "Self p" Object_Quarantined "Name_Digest env n" 0]
    have "logged env (Self p) ((Self p)\<lparr>Log := Log (Self p) @ [?e]\<rparr>)" by (simp add: logs_def)
    moreover have "logged env ((Self p)\<lparr>Log := Log (Self p) @ [?e]\<rparr>) (Self p1)"
      using True n by (intro logged_same) (simp add: p1 scrubbed_def)
    ultimately show ?thesis by (rule logged_trans)
  next
    case False
    then show ?thesis using n by (intro logged_same) (auto simp: p1 scrubbed_def)
  qed
  moreover have "m\<lparr>Quarantined := Quarantined m\<rparr> = m" by simp
  ultimately show ?thesis using s n unfolding scrub_spec_def
    by (auto simp: p1 scrubbed_def counted_def same_rest_def update_conv' Append_def Let_def)
qed

lemma scrub_spec_trans:
  assumes "scrub_spec [n] p R p1 R1" and "scrub_spec ns p1 R1 q R'" and "n \<notin> set ns"
  shows "scrub_spec (n # ns) p R q R'"
proof -
  have look: "lookup (Index (Self p1)) k = lookup (Index (Self p)) k" if "k \<in> set ns" for k
    using assms(1,3) that by (auto simp: scrub_spec_def)
  have "lost p1 k = lost p k" "newly_lost p1 k = newly_lost p k" if "k \<in> set ns" for k
    using look [OF that] assms(1) by (auto simp: lost_def newly_lost_def scrub_spec_def)
  then have f: "filter (lost p1) ns = filter (lost p) ns" "filter (newly_lost p1) ns = filter (newly_lost p) ns"
    and l: "\<And>k. k \<in> set ns \<Longrightarrow> lost p1 k = lost p k" by (auto intro: filter_cong)
  obtain es1 where es1: "Log (Self p1) = Log (Self p) @ es1" "map Kind es1 = map (\<lambda>_. Object_Quarantined) es1"
      "map Subject es1 = map (Name_Digest env) (filter (newly_lost p) [n])" using assms(1) unfolding scrub_spec_def by blast
  obtain es2 where es2: "Log (Self q) = Log (Self p1) @ es2" "map Kind es2 = map (\<lambda>_. Object_Quarantined) es2"
      "map Subject es2 = map (Name_Digest env) (filter (newly_lost p) ns)" using assms(2) unfolding scrub_spec_def f by blast
  have "\<exists>es. Log (Self q) = Log (Self p) @ es \<and> map Kind es = map (\<lambda>_. Object_Quarantined) es \<and>
      map Subject es = map (Name_Digest env) (filter (newly_lost p) (n # ns))"
    using es1 es2 by (intro exI [of _ "es1 @ es2"]) (simp split: if_splits)
  moreover have "lookup (Index (Self q)) k = (if k \<in> set (n # ns) then map_option (\<lambda>m. m\<lparr>Quarantined := lost p k\<rparr>) (lookup (Index (Self p)) k)
      else lookup (Index (Self p)) k)" for k
    using assms look [of k] l [of k] by (auto simp: scrub_spec_def)
  moreover have "same_rest (Self p) (Self q)" using assms(1,2) same_rest_trans unfolding scrub_spec_def by blast
  moreover have "logged env (Self p) (Self q)" using assms(1,2) logged_trans unfolding scrub_spec_def by blast
  ultimately show ?thesis using assms(1,2) unfolding scrub_spec_def f by simp
qed

lemma scrub_loop_spec:
  "scrub_loop env repair ns R p = Some (Inr R', q) \<Longrightarrow> good (Store (Self p)) \<Longrightarrow> distinct ns \<Longrightarrow> set ns \<subseteq> dom (lookup (Index (Self p))) \<Longrightarrow>
     scrub_spec ns p R q R'"
proof (induction ns arbitrary: R p)
  case Nil
  then show ?case by (auto simp: scrub_spec_def io_return_def same_rest_def logged_same)
next
  case (Cons n ns)
  from Cons.prems(1) obtain R1 p1 where st: "scrub_object env repair n R p = Some (Inr R1, p1)" "scrub_loop env repair ns R1 p1 = Some (Inr R', q)"
    by (auto simp: io_bind_Inr)
  have one: "scrub_spec [n] p R p1 R1" using Cons.prems by (intro scrub_step_spec [OF st(1)]) auto
  then have "good (Store (Self p1))" "set ns \<subseteq> dom (lookup (Index (Self p1)))" using Cons.prems(4) by (auto simp: scrub_spec_def dom_def)
  with Cons.IH [OF st(2)] Cons.prems(3) one show ?case by (auto intro: scrub_spec_trans)
qed

lemma scrub_loop_journal:
  "scrub_loop env repair ns R p = Some (Inr R', q) \<Longrightarrow> good (Store (Self p)) \<Longrightarrow> distinct ns \<Longrightarrow> set ns \<subseteq> dom (lookup (Index (Self p))) \<Longrightarrow>
     journal_inv env p \<Longrightarrow> vault_wf (Self p) \<Longrightarrow> env_ok env \<Longrightarrow> journal_inv env q \<and> vault_wf (Self q)"
proof (induction ns arbitrary: R p)
  case Nil
  then show ?case by (simp add: io_return_def)
next
  case (Cons n ns)
  from Cons.prems(1) obtain R1 p1 where st: "scrub_object env repair n R p = Some (Inr R1, p1)" "scrub_loop env repair ns R1 p1 = Some (Inr R', q)"
    by (auto simp: io_bind_Inr)
  obtain m d where s: "lookup (Index (Self p)) n = Some m" "newly_lost p n \<longrightarrow> Log (Self p) \<noteq> [] \<and> Seq (last (Log (Self p))) \<noteq> Natural_Last"
    and p1: "p1 = p\<lparr>Self := scrubbed env n m (lost p n) d (Self p), Jrnl_Buf := Jrnl_Buf p @ map entry_line (scrub_entries env n m (lost p n) (Self p))\<rparr>"
    using scrub_object_step [OF st(1)] Cons.prems(2,4) by auto
  have "lost p n \<Longrightarrow> \<not> Quarantined m \<Longrightarrow> Log (Self p) \<noteq> [] \<and> Seq (last (Log (Self p))) \<noteq> Natural_Last"
    using s by (simp add: newly_lost_def)
  note j = scrubbed_journal [OF Cons.prems(5,6,7) s(1) this, where d = d]
  have one: "scrub_spec [n] p R p1 R1" using Cons.prems by (intro scrub_step_spec [OF st(1)]) auto
  then have "good (Store (Self p1))" "set ns \<subseteq> dom (lookup (Index (Self p1)))" using Cons.prems(4) by (auto simp: scrub_spec_def dom_def)
  with Cons.IH [OF st(2)] Cons.prems(3,7) j show ?case by (simp add: p1)
qed

lemma Scrub_run:
  assumes "Scrub env repair p = Some (Inr R, q)" and "good (Store (Self p))"
  shows "scrub_spec (iterate env (Index (Self p))) p \<lparr>Total = 0, Intact = 0, Repaired = 0, Corrupt = 0, sr_Shards_Repaired = 0\<rparr> q R"
    and "p_inv env p \<Longrightarrow> env_ok env \<Longrightarrow> p_inv env q"
proof -
  let ?ns = "iterate env (Index (Self p))" and ?R = "\<lparr>Total = 0, Intact = 0, Repaired = 0, Corrupt = 0, sr_Shards_Repaired = 0\<rparr>"
  obtain q1 where q1: "scrub_loop env repair ?ns ?R p = Some (Inr R, q1)" "q = Commit_Jrnl env q1"
    using assms(1) by (auto simp: Scrub_def io_bind_Inr io_return_def)
  have ns: "distinct ?ns" "set ?ns \<subseteq> dom (lookup (Index (Self p)))" by (simp_all add: distinct_iterate set_iterate)
  have "Self q = Self q1" by (simp add: q1(2))
  with scrub_loop_spec [OF q1(1) assms(2) ns] show "scrub_spec ?ns p ?R q R" by (simp add: scrub_spec_def)
  show "p_inv env q" if "p_inv env p" "env_ok env"
    using scrub_loop_journal [OF q1(1) assms(2) ns] journal_inv_Commit [of env q1] that by (simp add: p_inv_def q1(2))
qed

end

interpretation rp: repairer "cas_vault cenv key rk un" Repair recorded "Verify cenv" for cenv key rk un
proof
  fix d d' :: cas_store and oid :: string and res
  assume "recorded d" "Repair oid d = (res, d')"
  note r = Repair_recorded [OF this]
  show "Recoverable res = Verify cenv oid d \<and> recorded d' \<and> (\<forall>j. Verify cenv j d' = Verify cenv j d) \<and>
      (\<forall>j. cas_Get (cas_vault cenv key rk un) j d' = cas_Get (cas_vault cenv key rk un) j d)"
    using r by (simp add: Verify_def cas_vault_def Get_def Load_Object_same)
qed

section \<open>Properties\<close>

lemma to_of_bytes: "to_bytes (of_bytes bs) = bs"
  by (simp add: to_bytes_def of_bytes_def comp_def of_char_byte)

lemma cas_Get_eq_iff:
  "cas_Get (cas_vault cenv key rk un) j d' = cas_Get (cas_vault cenv key rk un) j d \<longleftrightarrow> Get cenv key j d' = Get cenv key j d"
proof -
  have "inj of_bytes" by (rule inj_on_inverseI [of _ to_bytes]) (simp add: to_of_bytes)
  then have "map_sum id of_bytes x = map_sum id of_bytes y \<longleftrightarrow> x = y" for x y :: "ada_exn + byte list"
    by (cases x; cases y) (auto dest: injD)
  then show ?thesis by (simp add: cas_vault_def)
qed

lemma env_ok_cas_vault: "env_ok (cas_vault cenv key rk un)"
proof -
  have "length i = 64 \<and> field_text i" if "cas_Put (cas_vault cenv key rk un) x d = (Inr i, d')" for x d i d'
    using cas_vault_id [OF that] by (simp add: object_id_def length_To_Hex field_text_digest)
  then show ?thesis by (auto simp: env_ok_def cas_vault_def)
qed

text \<open>
  C22: What the vault stores in its content store it reads back.  On a store whose directories hold the blobs they are named
  after, and without a collision of SHA-256 among the blobs of the store and of the object, after a successful
  \<open>Put_Object\<close> of any size \<open>Get_Object\<close> returns exactly the bytes, through splitting, compression, chunking, encryption and
  erasure coding; every other object reads as before, and the store is sound again.
\<close>

theorem Put_Get_Object_stored:
  assumes "lossless cenv" and "sound {} X Y (Store v)" and "storable cenv key X Y data"
    and "Put_Object (cas_vault cenv key rk un) name data mode retain_for um v = Some (Inr (), v')" and "\<not> Ingest_Only v"
  shows "Get_Object (cas_vault cenv key rk un) name v' = Some (Inr data, v') \<and> sound {} X Y (Store v') \<and>
    (\<forall>n x. n \<noteq> name \<longrightarrow> Get_Object (cas_vault cenv key rk un) n v = Some (Inr x, v) \<longrightarrow>
       Get_Object (cas_vault cenv key rk un) n v' = Some (Inr x, v'))"
proof -
  note safe = Put_Object_safely [OF assms(1,3,2), of rk un name mode retain_for um]
  then have put: "Put_Object (guarded X Y cenv key (cas_vault cenv key rk un)) name data mode retain_for um v = Some (Inr (), v')"
    using assms(4) by (simp add: safely_def)
  note spec = cas_spec_guarded [OF assms(1), of X Y key rk un]
  have "sound {} X Y (Store v')" using safe assms(4) by (simp add: safely_def)
  with Put_Object_readback [OF spec put assms(5)] Put_Object_others [OF spec put] show ?thesis by (simp add: guarded_reads)
qed

text \<open>An empty vault on an empty store.\<close>

definition plain_vault :: "cas_store vault_env" where
  "plain_vault = cas_vault plain_cas sample_key (\<lambda>_ _. 0) (\<lambda>n. replicate n (CHR ''?''))"

definition new_vault :: "cas_store \<Rightarrow> (string \<times> Meta) list \<Rightarrow> cas_store vault" where
  "new_vault st ix = \<lparr>Clock = Init \<lparr>Mono = 0, Realtime = 0, Boot_Changed = False\<rparr>, Started = False, Op_Sealed = False, Last_Boot = [],
     Ingest_Only = False, Sync_Shut = False, Index = ix, Log = [Genesis_Entry SHA256 0], Buckets = [], Versioned = [], Versions = [],
     Ver_Seq = 0, Store = st\<rparr>"

lemma plain_vault_ok: "lossless plain_cas" "to_bytes (of_bytes [1, 2, 3]) = [1, 2, 3]" "length (of_bytes bs) = length bs"
  by (simp_all add: lossless_def plain_cas_ok to_of_bytes) (simp add: of_bytes_def)

lemma plain_storable:
  "storable plain_cas sample_key (put_chunks plain_cas sample_key [1, 2, 3]) {put_manifest plain_cas sample_key [1, 2, 3]} (of_bytes [1, 2, 3])"
  unfolding storable_def in_store_def plain_vault_ok(2,3) by (simp add: plain_admissible Max_Single_def)

lemma plain_put:
  "\<exists>v. Put_Object plain_vault ''a'' (of_bytes [1, 2, 3]) Compliance 5 [] (new_vault [] []) = Some (Inr (), v)"
proof -
  have "in_store plain_cas sample_key (put_chunks plain_cas sample_key [1, 2, 3]) {put_manifest plain_cas sample_key [1, 2, 3]} (of_bytes [1, 2, 3])"
    by (simp add: in_store_def plain_vault_ok(2))
  from store_put_admissible [OF plain_vault_ok(1) _ this, of "new_vault [] []"] plain_sound
  have no: "store_put plain_vault (of_bytes [1, 2, 3]) (new_vault [] []) \<noteq> Some (Inl e, v)" for e v
    by (simp add: plain_vault_def plain_admissible plain_vault_ok(2) new_vault_def)
  obtain r d where "cas_Put plain_vault (of_bytes [1, 2, 3]) [] = (r, d)" by (cases "cas_Put plain_vault (of_bytes [1, 2, 3]) []")
  then have "store_put plain_vault (of_bytes [1, 2, 3]) (new_vault [] []) = Some (r, new_vault d [])"
    by (simp add: store_put_def new_vault_def)
  with no obtain i where "store_put plain_vault (of_bytes [1, 2, 3]) (new_vault [] []) = Some (Inr i, new_vault d [])"
    by (cases r) auto
  then show ?thesis
    by (simp add: Put_Object_def store_object_def plain_vault_ok(3) Max_Single_def Check_Ingest_def Add_Audit_def io_defs new_vault_def Init_def Now_def
        Time_Last_def Genesis_Entry_def Natural_Last_def Let_def)
qed

theorem Put_Get_Object_stored_witness:
  "\<exists>v. Put_Object plain_vault ''a'' (of_bytes [1, 2, 3]) Compliance 5 [] (new_vault [] []) = Some (Inr (), v) \<and>
     Get_Object plain_vault ''a'' v = Some (Inr (of_bytes [1, 2, 3]), v)"
proof -
  obtain v where v: "Put_Object plain_vault ''a'' (of_bytes [1, 2, 3]) Compliance 5 [] (new_vault [] []) = Some (Inr (), v)"
    using plain_put by blast
  have "sound {} (put_chunks plain_cas sample_key [1, 2, 3]) {put_manifest plain_cas sample_key [1, 2, 3]} (Store (new_vault [] []))"
    "\<not> Ingest_Only (new_vault [] [])" using plain_sound by (simp_all add: new_vault_def)
  from Put_Get_Object_stored [OF plain_vault_ok(1) this(1) plain_storable v [unfolded plain_vault_def] this(2)] v
  show ?thesis by (simp add: plain_vault_def)
qed

text \<open>
  C24: Garbage collection of a vault loses nothing it can still be asked for.  When \<open>Collect_Garbage\<close> of a vault on its content store
  succeeds, every object and every recorded version reads as before, with the same bytes or the same error, the
  parts of every upload in progress read as before, and nothing but the store has changed.
\<close>

theorem Vault_Collect_Garbage_keeps:
  assumes "Vault_Collect_Garbage (cas_vault cenv key rk un) Collect_Garbage m = Some (Inr n, m')"
  shows "(\<forall>name. map_option fst (Get_Object (cas_vault cenv key rk un) name (Base m')) = map_option fst (Get_Object (cas_vault cenv key rk un) name (Base m))) \<and>
     (\<forall>name vid. map_option fst (Get_Object_Version (cas_vault cenv key rk un) name vid (Base m')) =
        map_option fst (Get_Object_Version (cas_vault cenv key rk un) name vid (Base m))) \<and>
     (\<forall>uid u pid. lookup (Uploads m) uid = Some u \<longrightarrow> pid \<in> set (ordered_parts (up_Parts u)) \<longrightarrow>
        Get cenv key pid (Store (Base m')) = Get cenv key pid (Store (Base m))) \<and>
     m' = m\<lparr>Base := (Base m)\<lparr>Store := Store (Base m')\<rparr>\<rparr>"
proof -
  let ?env = "cas_vault cenv key rk un"
  note c = cc.Vault_Collect_reads [OF assms]
  have base: "Base m' = (Base m)\<lparr>Store := Store (Base m')\<rparr>" using arg_cong [OF c(1), of Base] by simp
  have rest: "Index (Base m') = Index (Base m)" "Versions (Base m') = Versions (Base m)" "Ingest_Only (Base m') = Ingest_Only (Base m)"
    by (subst base, simp)+
  have "map_option fst (Get_Object ?env name (Base m')) = map_option fst (Get_Object ?env name (Base m))" for name
    using c(2) by (auto simp: Get_Object_def rest io_throw_def io_return_def split: option.split sum.split)
  moreover have "map_option fst (Get_Object_Version ?env name vid (Base m')) = map_option fst (Get_Object_Version ?env name vid (Base m))" for name vid
  proof (cases "lookup (Versions (Base m)) name")
    case (Some es)
    have "cas_Get ?env (Ver_Id e) (Store (Base m')) = cas_Get ?env (Ver_Id e) (Store (Base m))" if "find (\<lambda>e. Vid e = vid) es = Some e" for e
      using c(3) [OF Some] that by (auto simp: find_Some_iff)
    with Some show ?thesis by (auto simp: Get_Object_Version_def rest io_throw_def io_return_def split: option.split sum.split)
  qed (simp add: Get_Object_Version_def rest io_throw_def)
  moreover have "Get cenv key pid (Store (Base m')) = Get cenv key pid (Store (Base m))"
    if "lookup (Uploads m) uid = Some u" "pid \<in> set (ordered_parts (up_Parts u))" for uid u pid
    using c(4) [OF that] by (simp only: cas_Get_eq_iff)
  ultimately show ?thesis using c(1) by blast
qed

theorem Vault_Collect_Garbage_keeps_witness:
  "\<exists>m n m'. Vault_Collect_Garbage plain_vault Collect_Garbage m = Some (Inr n, m') \<and>
     map_option fst (Get_Object plain_vault ''a'' (Base m')) = Some (Inr (of_bytes [1, 2, 3]))"
proof -
  obtain oid st where get: "Get plain_cas sample_key oid st = Inr [1, 2, 3]"
    using Put_sound_Get [OF plain_sound order.refl insertI1 plain_cas_ok(1) plain_admissible plain_cas_ok(2)] by blast
  let ?meta = "\<lparr>Id = oid, Lock = Create_Lock Compliance 5 0, Composite = False, Quarantined = False, Size = 3, User_Meta = []\<rparr>"
  let ?m = "\<lparr>Base = new_vault st [(''a'', ?meta)], Uploads = [], Upload_Seq = 0\<rparr>"
  obtain n d where "Collect_Garbage [oid] st = (n, d)" by (cases "Collect_Garbage [oid] st")
  then have run: "Vault_Collect_Garbage plain_vault Collect_Garbage ?m = Some (Inr n, ?m\<lparr>Base := new_vault d [(''a'', ?meta)]\<rparr>)"
    by (simp add: Vault_Collect_Garbage_def Let_def new_vault_def iterate_def keys_of_def io_return_def)
  from Vault_Collect_Garbage_keeps [OF run [unfolded plain_vault_def]]
  have "map_option fst (Get_Object plain_vault ''a'' (new_vault d [(''a'', ?meta)])) =
      map_option fst (Get_Object plain_vault ''a'' (new_vault st [(''a'', ?meta)]))" by (simp add: plain_vault_def)
  also have "\<dots> = Some (Inr (of_bytes [1, 2, 3]))"
    using get by (simp add: Get_Object_def new_vault_def read_object_def plain_vault_def cas_vault_def io_return_def)
  finally show ?thesis using run by (intro exI [of _ ?m] exI [of _ n] exI [of _ "?m\<lparr>Base := new_vault d [(''a'', ?meta)]\<rparr>"]) simp
qed


text \<open>A vault with an object in the damaged store and one whose content is gone.\<close>

definition hurt_meta :: "string \<Rightarrow> Meta" where
  "hurt_meta oid = \<lparr>Id = oid, Lock = Create_Lock Compliance 5 0, Composite = False, Quarantined = False, Size = 3, User_Meta = []\<rparr>"

definition hurt_vault :: "cas_store pvault" where
  "hurt_vault = \<lparr>Self = new_vault hurt_store [(''a'', hurt_meta (object_id plain_cas sample_key [1, 2, 3])), (''b'', hurt_meta [])],
     Jrnl_Count = 0, Jrnl_Buf = [], Disk = \<lparr>State_File = None, Journal_File = None\<rparr>\<rparr>"

lemma recorded_hurt: "recorded hurt_store"
proof -
  have "addresses d b \<and> damaged b d hurt_store" if "(d, b) \<in> pieces plain_cas sample_key [1, 2, 3]" for d b
    using that hurt_object(2) by (auto simp: stored_object_def addresses_def pieces_def length_put_manifest)
  moreover have "fst ` pieces plain_cas sample_key [1, 2, 3] = {d. lookup hurt_store d \<noteq> None}"
    unfolding hurt_object(1) by (auto simp: hurt_store_def)
  ultimately show ?thesis unfolding recorded_def by force
qed

lemma hurt_scrub: "\<exists>R q. Scrub plain_vault Repair hurt_vault = Some (Inr R, q)"
proof -
  let ?i = "object_id plain_cas sample_key [1, 2, 3]"
  obtain st where r1: "Repair ?i hurt_store = (\<lparr>Recoverable = True, Shards_Repaired = 2\<rparr>, st)"
    and out: "\<forall>d. d \<notin> fst ` pieces plain_cas sample_key [1, 2, 3] \<longrightarrow> lookup st d = lookup hurt_store d"
    using Repair_pieces [OF hurt_object(2)] hurt_object(3,4) whole_alive [OF hurt_object(5)] whole_repairable [OF hurt_object(5)]
    unfolding hurt_object(1) by auto
  have "length ?i = 64" by (simp add: object_id_def length_To_Hex)
  then have "?i \<noteq> []" by auto
  then have "lookup st (Manifest_Dir []) = None"
    using out unfolding hurt_object(1) by (auto simp: hurt_store_def)
  then have r2: "Repair [] st = (\<lparr>Recoverable = False, Shards_Repaired = 0\<rparr>, st)" by (simp add: Repair_def Repair_Shards_def)
  have "rank plain_vault = (\<lambda>_ _. 0)" by (simp add: plain_vault_def cas_vault_def)
  then show ?thesis
    by (simp add: Scrub_def scrub_object_def hurt_vault_def new_vault_def hurt_meta_def iterate_def keys_of_def r1 r2 Let_def io_defs run_op_def
        set_quarantined_def Add_Audit_def Genesis_Entry_def Natural_Last_def)
qed


end
