(* ===== verification/Spec2Isabelle.thy ===== *)
theory Spec2Isabelle
  imports Csi_Dezhan Ctl_Shell Ctl_Tree Operator_Kube Operator_DeepCopy Operator_Main Vault_Cas
begin

text \<open>
  \<^bold>\<open>dezhan, a write-once backup vault, its command-line client, its Kubernetes storage driver and operator.\<close>

  \<^bold>\<open>The program.\<close>  The vault is a single-writer HTTP server (Ada, \<open>src/server\<close>, \<open>src/vault\<close>,
  \<open>src/trusted_core\<close>) that refuses to delete an object before its retention has expired, whatever
  the wall clock says.  It is used through two Go programs: \<open>dezhanctl\<close> (\<open>src/ctl\<close>), which talks to
  the plain \<open>/v\<close>, \<open>/metrics\<close> and \<open>/admin\<close> routes, and the CSI driver (\<open>src/csi\<close>), which gives
  Kubernetes volumes and snapshots as buckets of an S3 endpoint, through the AWS SDK.  A third Go
  program, the operator (\<open>src/operator\<close>), deploys the server on Kubernetes.

  \<^bold>\<open>Theories.\<close>
    \<^item> \<open>Prelude\<close>: actions on a state that may raise and may not return (\<open>io\<close>), with their weakest
      preconditions (\<open>io_wp\<close>: returns, and the result is right; \<open>io_wlp\<close>: if it returns), loops over
      a list (\<open>for_each\<close>), finite dictionaries (\<open>lookup\<close>).
    \<^item> \<open>Go_Strings\<close>: what the Go sources use of \<open>strings\<close>, \<open>strconv\<close>, \<open>fmt\<close> and \<open>net/url\<close>.
    \<^item> \<open>S3_Api\<close>: the part of the AWS SDK the driver calls, as a record of functions, and the interfaces
      between driver and store as locales: \<open>s3_store\<close> (what each request does to the buckets),
      \<open>s3_rel\<close> (a relation every request respects), \<open>s3_worm\<close> (held objects stay).
    \<^item> \<open>Csi_S3\<close> (\<open>csi/internal/driver/s3.go\<close>): \<open>connFrom\<close>, \<open>client\<close>, \<open>createBucket\<close>, \<open>deleteBucket\<close>,
      \<open>listKeys\<close>, \<open>emptyBucket\<close>, \<open>copyAll\<close>, with their contracts proved in the three locales.
    \<^item> \<open>Csi_Driver\<close> (\<open>driver.go\<close>, \<open>identity.go\<close>, \<open>controller.go\<close>, \<open>node.go\<close>): every RPC handler,
      \<open>parseEndpoint\<close>, \<open>Run\<close>, bucket names, the mount command of the node service.
    \<^item> \<open>Csi_Services\<close>: the controller service on any store that keeps the contract, and the step
      relation \<open>csi_step\<close> of its state-changing RPCs.  \<open>S3_Reference\<close>: an in-memory store that keeps it.
    \<^item> \<open>Retention\<close>, \<open>Clock_Guard\<close>, \<open>Audit_Chain\<close> (\<open>trusted_core/src\<close>): locks, the trusted clock, the
      hash-chained log.
    \<^item> \<open>Vault\<close> (\<open>vault/src/dezhan-vault.adb\<close>): index, buckets, the object operations, holds, seal,
      the audit entries they write.  The content store, the hash function and the order of the hashed
      containers are parameters (\<open>vault_env\<close>).  \<open>Vault_Versions\<close>: recording, reading, deleting and listing versions.
      \<open>Vault_Multipart\<close>: multipart uploads, and the runs of one upload among everything else (\<open>upload_run\<close>).
    \<^item> \<open>Vault_Persist\<close>: the text records of snapshot and journal, their writing (\<open>Save\<close>, \<open>Commit_Jrnl\<close>) and
      loading (\<open>Apply_Line\<close>, \<open>Load\<close>, \<open>Open\<close>); \<open>durable\<close> is the state the records describe.  \<open>Vault_Journal\<close>: each
      operation with the records it writes, and their step relation \<open>p_step\<close>, restarts included.
    \<^item> \<open>Galois\<close>, \<open>Erasure\<close>, \<open>Hashing\<close>, \<open>Cipher\<close> (\<open>trusted_core/src\<close>): the field of 256 elements and the erasure code over
      it, SHA-256 and HMAC, ChaCha20, at machine width.  \<open>Cas_Shards\<close>, \<open>Cas\<close> (\<open>storage/src/dezhan-storage-cas.adb\<close>): the
      content-addressed store on a list of shard directories, with chunking, encryption, digests and tags; \<open>sound\<close> says that
      every directory holds, with damage that does not matter, the blob it is named after.  \<open>Cas_Maintenance\<close>: \<open>Repair\<close> and
      \<open>Collect_Garbage\<close> of the store.  \<open>Vault_Cas\<close>: the vault on this store (\<open>cas_vault\<close>), \<open>Scrub\<close> and \<open>Collect_Garbage\<close> of the vault;
      what it relies on of repair and collection are the locales \<open>repairer\<close> and \<open>collector\<close>.
    \<^item> \<open>Dezhan_S3\<close>, \<open>Dezhan_Http\<close> (\<open>server/src/dezhan_server.adb\<close>): the S3 routes the driver uses and
      the plain routes \<open>dezhanctl\<close> uses; every request first feeds a clock sample to the guard.
    \<^item> \<open>Dezhan_Contract\<close>: \<open>s3_store\<close>, \<open>s3_worm\<close> and \<open>s3_rel\<close> interpreted on the server.
    \<^item> \<open>Csi_Dezhan\<close>: the driver on the server.
    \<^item> \<open>Ctl_Client\<close> (\<open>ctl/internal/client\<close>): every method of the client over an arbitrary HTTP
      transport; \<open>Ctl_Dezhan\<close>: the client on the server.
    \<^item> \<open>Ctl_Cmd\<close> (\<open>ctl/cmd\<close>, \<open>ctl/main.go\<close>): every command over a record of the calls of \<open>os\<close> and
      \<open>encoding/json\<close> it makes; \<open>Ctl_Shell\<close>: the commands on a console with files and output streams,
      against the server.
    \<^item> \<open>Ctl_Tui\<close> (\<open>ctl/internal/tui\<close>, \<open>ctl/cmd/dashboard.go\<close>): the dashboard's model, \<open>Update\<close> and \<open>View\<close>,
      and the step relation \<open>tui_step\<close> of the runtime that delivers its messages.  \<open>Ctl_Tree\<close>: the command tree with its
      flags and argument checks, and \<open>Execute\<close>; what Cobra promises is the locale \<open>cobra\<close>.
    \<^item> \<open>Operator\<close> (\<open>operator/api/v1alpha1\<close>, \<open>operator/internal/controller\<close>): the resource types and every
      operation of the reconciler.  \<open>Operator_Api\<close>: what it relies on of Kubernetes (locales
      \<open>quantity_order\<close>, \<open>kube_api\<close>), the specification of a vault's objects, and the reconciler proved
      against both.  \<open>Operator_Kube\<close>: an in-memory API server that keeps the contract and fills in defaults,
      and the operator's properties.  \<open>Operator_DeepCopy\<close> (\<open>zz_generated.deepcopy.go\<close>): every deep copy on a memory of
      cells, with the contract of a deep copy as the locale \<open>deep_copy\<close>.  \<open>Operator_Main\<close> (\<open>operator/cmd/main.go\<close>): the
      process entry and the registration of types and controller.

  \<^bold>\<open>State and effects.\<close>  An operation is a function from the state to \<open>Some (Inl error, state)\<close>,
  \<open>Some (Inr result, state)\<close>, or \<open>None\<close> where it does not return; the state at the error is kept,
  since a failing request has often changed something.  The controller service is stateless: its
  state is the store's.  The server's state is the vault and the clock readings still to come.

  \<^bold>\<open>Loops.\<close>  The only loop whose end depends on foreign code is the paginator loop of \<open>listKeys\<close>; it
  is a \<open>partial_function (option)\<close>, and the contract's \<open>list_returns\<close> (a listing ends) is proved
  of the server, so that the RPCs are proved to return.  No fuel appears in a model.

  \<^bold>\<open>What is shown.\<close>  The vault never deletes a protected object, its trusted time is bounded by the
  elapsed monotonic time, and its audit log only grows and keeps verifying; a restart finds every acknowledged
  change again, a recorded version stays readable, and the parts of an upload are assembled in order.  The content store
  returns what it was given, also when two shards of a blob are lost or altered; an id stands for one content, and the chunks of
  an object never share key stream.  Repair restores every shard it can and reports the rest, garbage collection removes exactly what no
  live object needs, and a scrub quarantines exactly the objects that are lost.  The controller's
  \<open>DeleteVolume\<close> removes exactly one bucket, a snapshot holds exactly the volume's objects and a
  volume restored from it too; no sequence of RPCs touches a held object of the vault.  The
  client reads what the server writes: objects, listings, metrics.  A file stored with \<open>dezhanctl put\<close> comes back
  byte for byte with \<open>get\<close>, \<open>ls\<close> prints exactly the vault's names, \<open>del\<close> of a protected object exits
  with status 1, and the dashboard refreshes as long as it runs.  A successful pass of the operator has
  brought the cluster to the state the resource asks for; no sequence of passes loses or shrinks a data claim.
  The places where the programs do not fit together are theorems too: a snapshot of a non-empty volume fails on the dezhan server,
  deleting a volume twice fails there, \<open>dezhanctl del --bypass\<close> bypasses nothing, a \<open>PUT\<close> on the
  plain route replaces a retained object, the deletion of a version ignores its lock, a restart sets the trusted time
  back to zero, a crash in \<open>Save\<close> can undo what it was saving, and a chunk half written in a crash spoils later objects.

  \<^bold>\<open>Not modelled.\<close>  Of the server, authentication, the multipart, version, tag and
  administration routes; of the vault, replication and export; the compressor of the content
  store (a parameter), Ed25519 and SHA-512.  gRPC, the AWS SDK, \<open>net/http\<close>, Cobra, Bubble Tea, \<open>lipgloss\<close> and \<open>controller-runtime\<close> are
  foreign code.
\<close>

section \<open>The audit log under the CSI driver\<close>

text \<open>
  C11: Whatever the CSI controller does to a vault is appended to its audit log.  After any
  sequence of controller RPCs on the dezhan server the log of the start is a prefix of the log at the
  end, and a log that verified still verifies, for every hash function and storage engine.
\<close>

theorem csi_audit_log:
  assumes "(csi_step (\<lambda>_. dezhan_client env) ul)\<^sup>*\<^sup>* s t"
  shows "(\<exists>es. Log (Vlt t) = Log (Vlt s) @ es) \<and>
     (Audit_Verifies env (Vlt s) \<longrightarrow> Audit_Verifies env (Vlt t))"
proof -
  have "audit_grows env s t"
    by (rule da.csi_steps_rel [where s3_New = "\<lambda>_. dezhan_client env", OF _ assms]) simp
  then show ?thesis by (simp add: audit_grows_def logged_def)
qed

theorem csi_audit_log_witness:
  "\<exists>r t. DeleteVolume (\<lambda>_. dezhan_client list_env) \<lparr>del_Id = ''wb'', del_Secrets = sample_secrets\<rparr> locked_server =
     Some (r, t) \<and> Audit_Verifies list_env (Vlt t)"
proof -
  obtain r t where d: "DeleteVolume (\<lambda>_. dezhan_client list_env) \<lparr>del_Id = ''wb'', del_Secrets = sample_secrets\<rparr>
      locked_server = Some (r, t)"
    using DeleteVolume_dezhan_returns [of "\<lparr>del_Id = ''wb'', del_Secrets = sample_secrets\<rparr>" sample_conn list_env
        locked_server] connFrom_sample by auto
  then have "(csi_step (\<lambda>_. dezhan_client list_env) id)\<^sup>*\<^sup>* locked_server t"
    by (intro r_into_rtranclp) (rule csi_step.delete_volume)
  moreover have "Audit_Verifies list_env (Vlt locked_server)"
    using Audit_Verifies_empty_vault by (simp add: Audit_Verifies_def locked_server_def)
  ultimately show ?thesis using csi_audit_log d by blast
qed

end
